(* ===== verification/Prelude.thy ===== *)
theory Prelude
  imports Main "HOL-Library.Monad_Syntax"
begin

text \<open>
  Shared vocabulary of the development: results that may be a thrown value, the traversal of
  a list by a step that may throw, JavaScript's insertion-ordered Map, and the interfaces
  (locales) that several components of the program rely on:
    - \<open>put_store\<close>, \<open>keyed_store\<close>: what a client of a keyed container may assume of get, set
      and delete;
    - \<open>encoded_table\<close>: a keyed container of encoded records;
    - \<open>codec\<close>: an encoder whose decoder gives the value back;
    - \<open>expiring_store\<close>: a bounded store that drops dead entries and then trims itself.
  The JavaScript Map is the provider of the container interfaces.
\<close>

section \<open>Results and traversals\<close>

named_theorems result_simps \<open>how the result combinators compute\<close>

type_synonym ('e, 'a) result = "'e + 'a"

definition bindR :: "('e, 'a) result \<Rightarrow> ('a \<Rightarrow> ('e, 'b) result) \<Rightarrow> ('e, 'b) result" where
  "bindR m f = (case m of Inl e \<Rightarrow> Inl e | Inr x \<Rightarrow> f x)"

lemma bindR_simps [simp, result_simps]:
  "bindR (Inl e) f = Inl e"
  "bindR (Inr x) f = f x"
  by (simp_all add: bindR_def)

lemma bindR_Inr_iff [result_simps]:
  "bindR m f = Inr y \<longleftrightarrow> (\<exists>x. m = Inr x \<and> f x = Inr y)"
  by (cases m) auto

lemma bindR_Inl_iff [result_simps]:
  "bindR m f = Inl e \<longleftrightarrow> m = Inl e \<or> (\<exists>x. m = Inr x \<and> f x = Inl e)"
  by (cases m) auto

definition guardR :: "bool \<Rightarrow> 'e \<Rightarrow> ('e, 'a) result \<Rightarrow> ('e, 'a) result" where
  "guardR bad e m = (if bad then Inl e else m)"

lemma guardR_simps [simp, result_simps]:
  "guardR True e m = Inl e"
  "guardR False e m = m"
  by (simp_all add: guardR_def)

lemma guardR_Inr_iff [result_simps]: "guardR b e m = Inr y \<longleftrightarrow> \<not> b \<and> m = Inr y"
  by (cases b) auto

definition is_ok :: "('e, 'a) result \<Rightarrow> bool" where
  "is_ok r = (case r of Inl _ \<Rightarrow> False | Inr _ \<Rightarrow> True)"

lemma is_ok_simps [simp, result_simps]: "\<not> is_ok (Inl e)" "is_ok (Inr x)"
  by (simp_all add: is_ok_def)

lemma is_ok_iff: "is_ok r \<longleftrightarrow> (\<exists>x. r = Inr x)"
  by (cases r) auto

text \<open>\<open>xs.map(f)\<close> where \<open>f\<close> may throw: the first exception ends the traversal.\<close>

fun mapR :: "('a \<Rightarrow> ('e, 'b) result) \<Rightarrow> 'a list \<Rightarrow> ('e, 'b list) result" where
  "mapR f [] = Inr []"
| "mapR f (x # xs) = bindR (f x) (\<lambda>y. bindR (mapR f xs) (\<lambda>ys. Inr (y # ys)))"

lemma mapR_Inr_iff:
  "mapR f xs = Inr ys \<longleftrightarrow> list_all2 (\<lambda>x y. f x = Inr y) xs ys"
proof (induction xs arbitrary: ys)
  case Nil
  then show ?case by auto
next
  case (Cons x xs)
  then show ?case
    by (cases ys) (auto simp: bindR_Inr_iff)
qed

lemma mapR_length: "mapR f xs = Inr ys \<Longrightarrow> length ys = length xs"
  by (auto simp: mapR_Inr_iff dest: list_all2_lengthD)

lemma mapR_nth: "mapR f xs = Inr ys \<Longrightarrow> i < length xs \<Longrightarrow> f (xs ! i) = Inr (ys ! i)"
  by (simp add: mapR_Inr_iff list_all2_conv_all_nth)

lemma mapR_cong [fundef_cong]:
  "xs = ys \<Longrightarrow> (\<And>x. x \<in> set ys \<Longrightarrow> f x = g x) \<Longrightarrow> mapR f xs = mapR g ys"
proof (induction xs arbitrary: ys)
  case (Cons x xs)
  then have "mapR f xs = mapR g xs" and "f x = g x" by auto
  with Cons.prems show ?case by auto
qed simp

lemma mapR_all_ok: "(\<And>x. x \<in> set xs \<Longrightarrow> f x = Inr (g x)) \<Longrightarrow> mapR f xs = Inr (map g xs)"
  by (induction xs) auto

lemma mapR_is_ok: "is_ok (mapR f xs) \<longleftrightarrow> (\<forall>x\<in>set xs. is_ok (f x))"
  by (induction xs) (auto simp: is_ok_iff bindR_Inr_iff)

lemma mapR_append:
  "mapR f (xs @ ys) =
     bindR (mapR f xs) (\<lambda>us. bindR (mapR f ys) (\<lambda>vs. Inr (us @ vs)))"
  by (induction xs) (auto simp: bindR_def split: sum.splits)

text \<open>\<open>x ?? d\<close> on a field that may be absent.\<close>

definition or_default :: "'a option \<Rightarrow> 'a \<Rightarrow> 'a" where
  "or_default x d = (case x of Some v \<Rightarrow> v | None \<Rightarrow> d)"

lemma or_default_simps [simp]: "or_default None d = d" "or_default (Some v) d = v"
  by (simp_all add: or_default_def)

section \<open>Interfaces\<close>

text \<open>
  A keyed container that can only be written and read, as the server's tables are used.
  \<open>keys\<close> lists the keys in iteration order.
\<close>

locale put_store =
  fixes empty_store :: "'s"
    and lookup :: "'k \<Rightarrow> 's \<Rightarrow> 'v option"
    and put :: "'k \<Rightarrow> 'v \<Rightarrow> 's \<Rightarrow> 's"
    and keys :: "'s \<Rightarrow> 'k list"
    and wf :: "'s \<Rightarrow> bool"
  assumes wf_empty: "wf empty_store"
    and wf_put: "wf s \<Longrightarrow> wf (put k v s)"
    and lookup_empty: "lookup k empty_store = None"
    and lookup_put: "wf s \<Longrightarrow> lookup k' (put k v s) = (if k' = k then Some v else lookup k' s)"
    and keys_lookup: "wf s \<Longrightarrow> k \<in> set (keys s) \<longleftrightarrow> lookup k s \<noteq> None"
    and keys_distinct: "wf s \<Longrightarrow> distinct (keys s)"
begin

lemma lookup_put_same: "wf s \<Longrightarrow> lookup k (put k v s) = Some v"
  by (simp add: lookup_put)

lemma lookup_put_other: "wf s \<Longrightarrow> k' \<noteq> k \<Longrightarrow> lookup k' (put k v s) = lookup k' s"
  by (simp add: lookup_put)

lemma put_put: "wf s \<Longrightarrow> lookup x (put k v (put k u s)) = lookup x (put k v s)"
  by (simp add: lookup_put wf_put)

lemma put_commute:
  "wf s \<Longrightarrow> j \<noteq> k \<Longrightarrow> lookup x (put j u (put k v s)) = lookup x (put k v (put j u s))"
  by (simp add: lookup_put wf_put)

lemma keys_put_set: "wf s \<Longrightarrow> set (keys (put k v s)) = insert k (set (keys s))"
  by (auto simp: keys_lookup wf_put lookup_put split: if_splits)

lemma size_put_le:
  assumes "wf s"
  shows "length (keys (put k v s)) \<le> Suc (length (keys s))"
proof -
  have "card (set (keys (put k v s))) \<le> Suc (card (set (keys s)))"
    using assms by (simp add: keys_put_set card_insert_if)
  then show ?thesis
    using assms by (simp add: distinct_card keys_distinct wf_put)
qed

lemma size_put_new:
  assumes "wf s" and "lookup k s = None"
  shows "length (keys (put k v s)) = Suc (length (keys s))"
proof -
  have "k \<notin> set (keys s)" using assms by (simp add: keys_lookup)
  then have "card (set (keys (put k v s))) = Suc (card (set (keys s)))"
    using assms by (simp add: keys_put_set)
  then show ?thesis
    using assms by (simp add: distinct_card keys_distinct wf_put)
qed

text \<open>A history of writes: the last write to a key is the one a reader sees.\<close>

lemma fold_put_wf: "wf s \<Longrightarrow> wf (fold (\<lambda>(k, v). put k v) kvs s)"
  by (induction kvs arbitrary: s) (auto simp: wf_put)

lemma lookup_fold_put:
  "wf s \<Longrightarrow> lookup k (fold (\<lambda>(k, v). put k v) kvs s) =
     (case map_of (rev kvs) k of Some v \<Rightarrow> Some v | None \<Rightarrow> lookup k s)"
proof (induction kvs arbitrary: s)
  case Nil
  then show ?case by simp
next
  case (Cons kv kvs)
  obtain j v where kv: "kv = (j, v)" by (cases kv)
  have "map_of (rev (kv # kvs)) k =
      (case map_of (rev kvs) k of Some u \<Rightarrow> Some u | None \<Rightarrow> if k = j then Some v else None)"
    by (simp add: kv map_add_def split: option.splits)
  with Cons show ?case
    by (simp add: kv wf_put lookup_put split: option.splits)
qed

end

text \<open>A container whose keys can also be removed.\<close>

locale keyed_store = put_store empty_store lookup put keys wf
  for empty_store :: "'s"
    and lookup :: "'k \<Rightarrow> 's \<Rightarrow> 'v option"
    and put :: "'k \<Rightarrow> 'v \<Rightarrow> 's \<Rightarrow> 's"
    and keys :: "'s \<Rightarrow> 'k list"
    and wf :: "'s \<Rightarrow> bool" +
  fixes del :: "'k \<Rightarrow> 's \<Rightarrow> 's"
  assumes wf_del: "wf s \<Longrightarrow> wf (del k s)"
    and lookup_del: "wf s \<Longrightarrow> lookup k' (del k s) = (if k' = k then None else lookup k' s)"
begin

lemma keys_del_set: "wf s \<Longrightarrow> set (keys (del k s)) = set (keys s) - {k}"
  by (auto simp: keys_lookup wf_del lookup_del split: if_splits)

lemma put_del: "wf s \<Longrightarrow> lookup x (put k v (del k s)) = lookup x (put k v s)"
  by (simp add: lookup_put lookup_del wf_del)

end

text \<open>An encoding with a decoder that gives the encoded value back.\<close>

locale codec =
  fixes valid :: "'a \<Rightarrow> bool"
    and enc :: "'a \<Rightarrow> 'b"
    and dec :: "'b \<Rightarrow> ('e, 'a) result"
  assumes dec_enc: "valid x \<Longrightarrow> dec (enc x) = Inr x"
begin

lemma enc_inj: "valid x \<Longrightarrow> valid y \<Longrightarrow> enc x = enc y \<Longrightarrow> x = y"
  by (metis dec_enc sum.inject(2))

lemma mapR_dec_enc: "list_all valid xs \<Longrightarrow> mapR dec (map enc xs) = Inr xs"
  by (induction xs) (auto simp: dec_enc)

lemma dec_enc_option:
  "pred_option valid x \<Longrightarrow>
     (case map_option enc x of None \<Rightarrow> Inr None | Some y \<Rightarrow> bindR (dec y) (\<lambda>v. Inr (Some v))) = Inr x"
  by (cases x) (simp_all add: dec_enc)

end

text \<open>
  A table whose rows are encoded records, each under the key it names: the reader decodes the
  row, the writer encodes the record.
\<close>

locale encoded_table = codec valid enc dec + put_store empty_store lookup put keys wf
  for valid :: "'a \<Rightarrow> bool"
    and enc :: "'a \<Rightarrow> 'v"
    and dec :: "'v \<Rightarrow> ('e, 'a) result"
    and empty_store :: "'s"
    and lookup :: "'k \<Rightarrow> 's \<Rightarrow> 'v option"
    and put :: "'k \<Rightarrow> 'v \<Rightarrow> 's \<Rightarrow> 's"
    and keys :: "'s \<Rightarrow> 'k list"
    and wf :: "'s \<Rightarrow> bool" +
  fixes key_of :: "'a \<Rightarrow> 'k"
begin

definition read :: "'k \<Rightarrow> 's \<Rightarrow> ('e, 'a option) result" where
  "read k s = (case lookup k s of None \<Rightarrow> Inr None | Some v \<Rightarrow> bindR (dec v) (\<lambda>x. Inr (Some x)))"

definition store :: "'a \<Rightarrow> 's \<Rightarrow> 's" where
  "store x s = put (key_of x) (enc x) s"

definition sound :: "'s \<Rightarrow> bool" where
  "sound s \<longleftrightarrow> wf s \<and> (\<forall>k v. lookup k s = Some v \<longrightarrow> (\<exists>x. valid x \<and> key_of x = k \<and> v = enc x))"

lemma sound_empty: "sound empty_store"
  by (simp add: sound_def wf_empty lookup_empty)

lemma sound_store: "sound s \<Longrightarrow> valid x \<Longrightarrow> sound (store x s)"
  by (auto simp: sound_def store_def wf_put lookup_put)

lemma read_store: "sound s \<Longrightarrow> valid x \<Longrightarrow> read k (store x s) = (if k = key_of x then Inr (Some x) else read k s)"
  by (simp add: read_def store_def sound_def lookup_put dec_enc)

lemma read_sound:
  assumes "sound s"
  obtains "read k s = Inr None" "lookup k s = None"
  | x where "read k s = Inr (Some x)" "valid x" "key_of x = k" "lookup k s = Some (enc x)"
  using assms by (cases "lookup k s") (auto simp: sound_def read_def dec_enc)

lemma store_keys: "sound s \<Longrightarrow> set (keys (store x s)) = insert (key_of x) (set (keys s))"
  by (simp add: store_def sound_def keys_put_set)

end

section \<open>JavaScript's Map\<close>

text \<open>
  A \<open>Map\<close> iterates in insertion order: \<open>set\<close> on a present key keeps the key's place,
  on an absent key appends. It is an association list with distinct keys.
\<close>

type_synonym ('k, 'v) jsmap = "('k \<times> 'v) list"

definition jm_wf :: "('k, 'v) jsmap \<Rightarrow> bool" where
  "jm_wf m = distinct (map fst m)"

definition jm_get :: "'k \<Rightarrow> ('k, 'v) jsmap \<Rightarrow> 'v option" where
  "jm_get k m = map_of m k"

definition jm_has :: "'k \<Rightarrow> ('k, 'v) jsmap \<Rightarrow> bool" where
  "jm_has k m = (jm_get k m \<noteq> None)"

fun jm_set :: "'k \<Rightarrow> 'v \<Rightarrow> ('k, 'v) jsmap \<Rightarrow> ('k, 'v) jsmap" where
  "jm_set k v [] = [(k, v)]"
| "jm_set k v ((j, u) # m) = (if j = k then (k, v) # m else (j, u) # jm_set k v m)"

definition jm_delete :: "'k \<Rightarrow> ('k, 'v) jsmap \<Rightarrow> ('k, 'v) jsmap" where
  "jm_delete k m = filter (\<lambda>e. fst e \<noteq> k) m"

definition jm_keys :: "('k, 'v) jsmap \<Rightarrow> 'k list" where
  "jm_keys m = map fst m"

lemma jm_get_set: "jm_get j (jm_set k v m) = (if j = k then Some v else jm_get j m)"
  unfolding jm_get_def by (induction m) (simp, force split: if_splits)

lemma jm_get_delete: "jm_get j (jm_delete k m) = (if j = k then None else jm_get j m)"
  unfolding jm_get_def jm_delete_def by (induction m) auto

lemma jm_get_filter:
  "jm_wf m \<Longrightarrow> jm_get k (filter P m) =
     (case jm_get k m of None \<Rightarrow> None | Some v \<Rightarrow> if P (k, v) then Some v else None)"
proof (induction m)
  case Nil
  then show ?case by (simp add: jm_get_def)
next
  case (Cons kv m)
  obtain j v where kv: "kv = (j, v)" by (cases kv)
  show ?case
  proof (cases "j = k")
    case True
    with Cons.prems have "k \<notin> fst ` set m" by (simp add: kv jm_wf_def)
    then have "map_of (filter P m) k = None"
      unfolding map_of_eq_None_iff by auto
    with True show ?thesis by (simp add: kv jm_get_def)
  next
    case False
    with Cons show ?thesis by (simp add: kv jm_get_def jm_wf_def)
  qed
qed

lemma set_jm_keys_set: "set (map fst (jm_set k v m)) = insert k (set (map fst m))"
  by (induction k v m rule: jm_set.induct) auto

lemma jm_wf_set: "jm_wf m \<Longrightarrow> jm_wf (jm_set k v m)"
proof (induction k v m rule: jm_set.induct)
  case (1 k v)
  then show ?case by (simp add: jm_wf_def)
next
  case (2 k v j u m)
  then show ?case
    using set_jm_keys_set [of k v m] by (auto simp: jm_wf_def)
qed

lemma jm_wf_filter: "jm_wf m \<Longrightarrow> jm_wf (filter P m)"
  by (induction m) (auto simp: jm_wf_def)

lemma jm_wf_delete: "jm_wf m \<Longrightarrow> jm_wf (jm_delete k m)"
  by (simp add: jm_delete_def jm_wf_filter)

lemma jm_set_absent: "jm_get k m = None \<Longrightarrow> jm_set k v m = m @ [(k, v)]"
  by (induction k v m rule: jm_set.induct) (auto simp: jm_get_def split: if_splits)

lemma jm_get_iff_mem: "jm_wf m \<Longrightarrow> jm_get k m = Some v \<longleftrightarrow> (k, v) \<in> set m"
  by (simp add: jm_get_def jm_wf_def)

lemma jm_get_None_iff: "jm_get k m = None \<longleftrightarrow> k \<notin> fst ` set m"
  by (simp add: jm_get_def map_of_eq_None_iff)

lemma jm_keys_get: "k \<in> set (jm_keys m) \<longleftrightarrow> jm_get k m \<noteq> None"
  by (simp add: jm_keys_def jm_get_None_iff)

lemma jm_empty [simp]: "jm_wf []" "jm_get k [] = None"
  by (simp_all add: jm_wf_def jm_get_def)

lemma jm_keys_distinct: "jm_wf m \<Longrightarrow> distinct (jm_keys m)"
  by (simp add: jm_keys_def jm_wf_def)

interpretation jsMap: keyed_store "[]" jm_get jm_set jm_keys jm_wf jm_delete
  by unfold_locales
     (simp_all add: jm_get_set jm_get_delete jm_wf_set jm_wf_delete jm_keys_get jm_keys_distinct)

section \<open>Bounded stores\<close>

text \<open>
  The discipline both the SDK's cache and the server's challenge table follow: \<open>prune\<close>
  drops the entries that are dead at the given time, and if more than \<open>cap\<close> are left it
  drops some of the live ones.
\<close>

locale expiring_store =
  fixes cap :: nat
    and live :: "'t \<Rightarrow> 'v \<Rightarrow> bool"
    and prune :: "'t \<Rightarrow> ('k, 'v) jsmap \<Rightarrow> ('k, 'v) jsmap"
  assumes prune_wf: "jm_wf m \<Longrightarrow> jm_wf (prune t m)"
    and prune_subset: "jm_wf m \<Longrightarrow> set (prune t m) \<subseteq> {e \<in> set m. live t (snd e)}"
    and prune_cap: "jm_wf m \<Longrightarrow> length (prune t m) \<le> cap"
    and prune_keeps:
      "jm_wf m \<Longrightarrow> length (filter (\<lambda>e. live t (snd e)) m) \<le> cap \<Longrightarrow>
         prune t m = filter (\<lambda>e. live t (snd e)) m"
begin

lemma prune_get:
  assumes "jm_wf m" and "jm_get k (prune t m) = Some v"
  shows "jm_get k m = Some v \<and> live t v"
proof -
  have "(k, v) \<in> set (prune t m)"
    using assms by (simp add: jm_get_iff_mem prune_wf)
  then have "(k, v) \<in> set m \<and> live t v"
    using assms(1) prune_subset by fastforce
  then show ?thesis using assms(1) by (simp add: jm_get_iff_mem)
qed

lemma prune_dead: "jm_wf m \<Longrightarrow> jm_get k m = Some v \<Longrightarrow> \<not> live t v \<Longrightarrow> jm_get k (prune t m) = None"
  using prune_get by (metis not_None_eq option.inject)

lemma prune_absent: "jm_wf m \<Longrightarrow> jm_get k m = None \<Longrightarrow> jm_get k (prune t m) = None"
  using prune_get by (metis not_None_eq)

lemma prune_then_set_size:
  assumes "jm_wf m"
  shows "length (jm_set k v (prune t m)) \<le> Suc cap"
proof -
  have "length (jm_set k v (prune t m)) \<le> Suc (length (prune t m))"
    using jsMap.size_put_le [OF prune_wf [OF assms], of k v t] by (simp add: jm_keys_def)
  then show ?thesis using prune_cap [OF assms, of t] by linarith
qed

end

end
