(* ===== verification/JsValue.thy ===== *)
theory JsValue
  imports Complex_Main "HOL-Library.Word" Prelude
begin

text \<open>
  The part of the JavaScript language the program uses: dynamically typed values (the
  \<open>unknown\<close> of the TypeScript sources), Number with its rounding to binary64, BigInt,
  string conversions (\<open>String\<close>, \<open>Number\<close>, \<open>BigInt\<close>, \<open>Number.parseInt\<close>), truthiness,
  \<open>??\<close> and \<open>JSON.stringify\<close>. Strings are lists of 8-bit code units, so text outside
  Latin-1 is not represented. Numbers are NaN, the infinities and exact rationals; every
  conversion that rounds in JavaScript rounds here with \<open>to_double\<close> (signed zero is not
  distinguished from zero).
\<close>

section \<open>Values\<close>

datatype jsnum = NaN | Infinity bool | Fin rat

datatype err_class = AstraFlowError | SimulationError | TransactionFailedError | AuthExpiredError

text \<open>
  \<open>ErrV\<close> is an Error instance: a built-in one with its name and message, or one of the SDK's
  classes with message, \<open>options.code\<close> and \<open>options.cause\<close> (\<open>None\<close> when not given).
  \<open>Builtin\<close> is a function object, such as a member inherited from \<open>Object.prototype\<close>.
\<close>

datatype jsval =
    Undefined
  | Null
  | Bool bool
  | Num jsnum
  | BigInt int
  | Str string
  | Bytes "8 word list"
  | Arr "jsval list"
  | Obj "(string \<times> jsval) list"
  | Builtin string
  | ErrV js_error
and js_error =
    NativeError string string
  | SdkError err_class string "string option" "jsval option"

abbreviation TypeErr :: js_error where "TypeErr \<equiv> NativeError ''TypeError'' []"
abbreviation RangeErr :: js_error where "RangeErr \<equiv> NativeError ''RangeError'' []"
abbreviation SyntaxErr :: js_error where "SyntaxErr \<equiv> NativeError ''SyntaxError'' []"
abbreviation PlainErr :: "string \<Rightarrow> js_error" where "PlainErr \<equiv> NativeError ''Error''"

text \<open>\<open>new AstraFlowError(message, { code })\<close>\<close>

abbreviation astraErr :: "string \<Rightarrow> string \<Rightarrow> js_error" where
  "astraErr msg code \<equiv> SdkError AstraFlowError msg (Some code) None"

type_synonym 'a js = "(js_error, 'a) result"

fun err_message :: "js_error \<Rightarrow> string" where
  "err_message (NativeError _ m) = m"
| "err_message (SdkError _ m _ _) = m"

fun err_name :: "js_error \<Rightarrow> string" where
  "err_name (NativeError n _) = n"
| "err_name (SdkError AstraFlowError _ _ _) = ''AstraFlowError''"
| "err_name (SdkError SimulationError _ _ _) = ''SimulationError''"
| "err_name (SdkError TransactionFailedError _ _ _) = ''TransactionFailedError''"
| "err_name (SdkError AuthExpiredError _ _ _) = ''AuthExpiredError''"

section \<open>Digits\<close>

abbreviation char_code :: "char \<Rightarrow> nat" where "char_code c \<equiv> of_char c"

definition digit_char :: "nat \<Rightarrow> char" where
  "digit_char d = char_of (if d < 10 then 48 + d else 87 + d)"

definition digit_val :: "char \<Rightarrow> nat" where
  "digit_val c =
     (let n = char_code c in
      if 48 \<le> n \<and> n \<le> 57 then n - 48
      else if 97 \<le> n \<and> n \<le> 122 then n - 87
      else if 65 \<le> n \<and> n \<le> 90 then n - 55
      else 99)"

lemma digit_val_char [simp]: "d < 36 \<Longrightarrow> digit_val (digit_char d) = d"
  by (auto simp: digit_val_def digit_char_def Let_def)

lemma code_digit_char: "d < 36 \<Longrightarrow> char_code (digit_char d) = (if d < 10 then 48 + d else 87 + d)"
  by (simp add: digit_char_def)

text \<open>\<open>n.toString(b)\<close> for a natural number.\<close>

function nat_radix :: "nat \<Rightarrow> nat \<Rightarrow> string" where
  "nat_radix b n =
     (if b < 2 \<or> n < b then [digit_char n]
      else nat_radix b (n div b) @ [digit_char (n mod b)])"
  by pat_completeness auto
termination by (relation "measure snd") auto

declare nat_radix.simps [simp del]

definition radix_val :: "nat \<Rightarrow> string \<Rightarrow> nat" where
  "radix_val b s = foldl (\<lambda>a c. a * b + digit_val c) 0 s"

definition all_digits :: "nat \<Rightarrow> string \<Rightarrow> bool" where
  "all_digits b s = (s \<noteq> [] \<and> list_all (\<lambda>c. digit_val c < b) s)"

lemma radix_val_snoc [simp]: "radix_val b (s @ [c]) = radix_val b s * b + digit_val c"
  by (simp add: radix_val_def)

lemma radix_val_Nil [simp]: "radix_val b [] = 0"
  by (simp add: radix_val_def)

lemma nat_radix_nonempty [simp]: "nat_radix b n \<noteq> []"
  by (subst nat_radix.simps) simp

lemma radix_val_nat_radix: "2 \<le> b \<Longrightarrow> b \<le> 36 \<Longrightarrow> radix_val b (nat_radix b n) = n"
proof (induction b n rule: nat_radix.induct)
  case (1 b n)
  show ?case
  proof (cases "n < b")
    case True
    with 1 have "digit_val (digit_char n) = n" by simp
    with True show ?thesis by (simp add: nat_radix.simps [of b n] radix_val_def)
  next
    case False
    have "n mod b < b" using 1 by simp
    then have "n mod b < 36" using 1 by linarith
    with False 1 show ?thesis by (simp add: nat_radix.simps [of b n])
  qed
qed

lemma nat_radix_digits:
  "2 \<le> b \<Longrightarrow> b \<le> 36 \<Longrightarrow> c \<in> set (nat_radix b n) \<Longrightarrow> \<exists>d<b. c = digit_char d"
proof (induction b n rule: nat_radix.induct)
  case (1 b n)
  show ?case
  proof (cases "n < b")
    case True
    with 1 show ?thesis by (auto simp: nat_radix.simps [of b n])
  next
    case False
    moreover have "n mod b < b" using 1 by simp
    ultimately show ?thesis
      using 1 by (auto simp: nat_radix.simps [of b n] simp del: mod_less_divisor)
  qed
qed

lemma nat_radix_all_digits:
  assumes "2 \<le> b" "b \<le> 36"
  shows "all_digits b (nat_radix b n)"
proof -
  have "digit_val c < b" if "c \<in> set (nat_radix b n)" for c
    using nat_radix_digits [OF assms that] assms(2) by auto
  then show ?thesis by (auto simp: all_digits_def list_all_iff)
qed

lemma nat_radix_length: "2 \<le> b \<Longrightarrow> 0 < k \<Longrightarrow> n < b ^ k \<Longrightarrow> length (nat_radix b n) \<le> k"
proof (induction k arbitrary: n)
  case 0
  then show ?case by simp
next
  case (Suc k)
  show ?case
  proof (cases "n < b")
    case True
    then show ?thesis by (simp add: nat_radix.simps [of b n])
  next
    case False
    with Suc.prems have "0 < k" by (cases k) auto
    moreover have "n div b < b ^ k"
      using Suc.prems by (simp add: less_mult_imp_div_less mult.commute)
    ultimately have "length (nat_radix b (n div b)) \<le> k"
      using Suc by simp
    with False Suc.prems show ?thesis by (simp add: nat_radix.simps [of b n])
  qed
qed

definition int_dec :: "int \<Rightarrow> string" where
  "int_dec n = (if n < 0 then CHR ''-'' # nat_radix 10 (nat (- n)) else nat_radix 10 (nat n))"

section \<open>Number: rounding to binary64\<close>

text \<open>The number of binary digits.\<close>

fun bitlen_nat :: "nat \<Rightarrow> nat" where
  "bitlen_nat n = (if n = 0 then 0 else Suc (bitlen_nat (n div 2)))"

declare bitlen_nat.simps [simp del]

lemma bitlen_nat_le: "n < 2 ^ k \<Longrightarrow> bitlen_nat n \<le> k"
proof (induction k arbitrary: n)
  case 0
  then show ?case by (simp add: bitlen_nat.simps)
next
  case (Suc k)
  then have "n div 2 < 2 ^ k" by (simp add: less_mult_imp_div_less mult.commute)
  with Suc.IH show ?case by (subst bitlen_nat.simps) auto
qed

definition pow2 :: "int \<Rightarrow> rat" where
  "pow2 e = (if 0 \<le> e then 2 ^ nat e else 1 / 2 ^ nat (- e))"

text \<open>The exponent \<open>e\<close> with \<open>2^e \<le> q < 2^(e+1)\<close>, for positive \<open>q\<close>.\<close>

definition bin_exponent :: "rat \<Rightarrow> int" where
  "bin_exponent q =
     (case quotient_of q of (a, b) \<Rightarrow>
        let k = int (bitlen_nat (nat a)) - int (bitlen_nat (nat b)) in
        if pow2 k \<le> q then k else k - 1)"

definition round_half_even :: "rat \<Rightarrow> int" where
  "round_half_even q =
     (let f = \<lfloor>q\<rfloor>; d = q - of_int f in
      if d < 1 / 2 then f else if d > 1 / 2 then f + 1
      else if even f then f else f + 1)"

definition to_double :: "rat \<Rightarrow> jsnum" where
  "to_double q =
     (if q = 0 then Fin 0
      else
        let e = max (bin_exponent \<bar>q\<bar>) (- 1022) - 52;
            r = of_int (round_half_even (q / pow2 e)) * pow2 e
        in if \<bar>r\<bar> \<ge> 2 ^ 1024 then Infinity (q < 0) else Fin r)"

lemma round_half_even_int [simp]: "round_half_even (of_int n) = n"
  by (simp add: round_half_even_def Let_def)

lemma pow2_nonzero [simp]: "pow2 e \<noteq> 0" "0 < pow2 e"
  by (simp_all add: pow2_def)

lemma pow2_ge_1: "0 \<le> e \<Longrightarrow> 1 \<le> pow2 e"
  by (simp add: pow2_def)

lemma bin_exponent_le:
  assumes "\<bar>n\<bar> < 2 ^ 53"
  shows "bin_exponent \<bar>of_int n\<bar> \<le> 52"
proof -
  have "nat \<bar>n\<bar> < 2 ^ 53" using assms by simp
  then have "bitlen_nat (nat \<bar>n\<bar>) \<le> 53" by (rule bitlen_nat_le)
  moreover have "bitlen_nat 1 = 1" by (simp add: bitlen_nat.simps)
  moreover have "quotient_of \<bar>of_int n\<bar> = (\<bar>n\<bar>, 1)"
    using quotient_of_int [of "\<bar>n\<bar>"] by (simp add: Rat.of_int_def)
  ultimately show ?thesis by (simp add: bin_exponent_def Let_def)
qed

text \<open>The integers below \<open>2^53\<close> in magnitude are numbers without rounding.\<close>

lemma to_double_int:
  assumes "\<bar>n\<bar> < 2 ^ 53"
  shows "to_double (of_int n) = Fin (of_int n)"
proof (cases "n = 0")
  case True
  then show ?thesis by (simp add: to_double_def)
next
  case False
  define e where "e = max (bin_exponent \<bar>of_int n\<bar>) (- 1022) - 52"
  have "e \<le> 0" using bin_exponent_le [OF assms] by (simp add: e_def)
  then have inv: "1 / pow2 e = 2 ^ nat (- e)"
    by (cases "e = 0") (simp_all add: pow2_def)
  then have "of_int n / pow2 e = of_int (n * 2 ^ nat (- e))"
    by (metis divide_inverse inverse_eq_divide of_int_mult of_int_numeral of_int_power)
  then have "of_int (round_half_even (of_int n / pow2 e)) * pow2 e = of_int n / pow2 e * pow2 e"
    by (simp only: round_half_even_int)
  then have r: "of_int (round_half_even (of_int n / pow2 e)) * pow2 e = of_int n" by simp
  have "\<bar>rat_of_int n\<bar> < 2 ^ 53"
    using assms by (metis of_int_abs of_int_less_iff of_int_numeral of_int_power)
  also have "(2::rat) ^ 53 \<le> 2 ^ 1024" by (rule power_increasing) simp_all
  finally show ?thesis
    using r False by (simp add: to_double_def Let_def flip: e_def)
qed

lemma to_double_nat: "n < 2 ^ 53 \<Longrightarrow> to_double (of_nat n) = Fin (of_nat n)"
  using to_double_int [of "int n"] by simp

definition is_integer :: "rat \<Rightarrow> bool" where
  "is_integer q = (snd (quotient_of q) = 1)"

lemma is_integer_of_int [simp]: "is_integer (of_int n)"
  by (simp add: is_integer_def)

lemma is_integer_iff: "is_integer q \<longleftrightarrow> of_int \<lfloor>q\<rfloor> = q"
proof
  obtain a b where ab: "quotient_of q = (a, b)" by (cases "quotient_of q")
  assume "is_integer q"
  with ab have "q = of_int a"
    using quotient_of_div [OF ab] by (simp add: is_integer_def)
  then show "of_int \<lfloor>q\<rfloor> = q" by (metis floor_of_int)
next
  assume "of_int \<lfloor>q\<rfloor> = q"
  then show "is_integer q" by (metis is_integer_of_int)
qed

section \<open>Number to string\<close>

text \<open>
  \<open>Number.prototype.toString\<close>: the shortest digit string that rounds to the number, in
  plain or exponent form by its size. An integer below \<open>2^53\<close> is printed in full.
\<close>

fun dec_shift :: "nat \<Rightarrow> rat \<Rightarrow> nat" where
  "dec_shift 0 q = 0"
| "dec_shift (Suc fuel) q = (if 1 \<le> q then 0 else Suc (dec_shift fuel (q * 10)))"

definition dec_point :: "rat \<Rightarrow> int" where
  "dec_point q =
     (if 1 \<le> q then int (length (nat_radix 10 (nat \<lfloor>q\<rfloor>))) else 1 - int (dec_shift 400 q))"

definition pow10 :: "int \<Rightarrow> rat" where
  "pow10 e = (if 0 \<le> e then 10 ^ nat e else 1 / 10 ^ nat (- e))"

text \<open>
  The digits with the fewest places that round to \<open>q\<close>, and the place of the decimal point
  (one further right when the rounding carried into a new digit).
\<close>

fun shortest_digits :: "nat \<Rightarrow> nat \<Rightarrow> rat \<Rightarrow> int \<Rightarrow> string \<times> int" where
  "shortest_digits 0 k q n = (nat_radix 10 (nat (round_half_even (q / pow10 (n - int k)))), n)"
| "shortest_digits (Suc fuel) k q n =
     (let s = round_half_even (q / pow10 (n - int k)) in
      if to_double (of_int s * pow10 (n - int k)) = Fin q
      then (if s = 10 ^ k then (''1'', n + 1) else (nat_radix 10 (nat s), n))
      else shortest_digits fuel (Suc k) q n)"

definition fmt_double :: "rat \<Rightarrow> string" where
  "fmt_double q =
     (case shortest_digits 17 1 q (dec_point q) of (ds, n) \<Rightarrow>
        let k = int (length ds); e = n - 1; sg = (if e < 0 then ''-'' else ''+'') in
        if k \<le> n \<and> n \<le> 21 then ds @ replicate (nat (n - k)) (CHR ''0'')
        else if 0 < n \<and> n \<le> 21 then take (nat n) ds @ ''.'' @ drop (nat n) ds
        else if - 6 < n \<and> n \<le> 0 then ''0.'' @ replicate (nat (- n)) (CHR ''0'') @ ds
        else take 1 ds @ (if k = 1 then [] else ''.'' @ drop 1 ds) @ ''e'' @ sg @ nat_radix 10 (nat \<bar>e\<bar>))"

fun num_string :: "jsnum \<Rightarrow> string" where
  "num_string NaN = ''NaN''"
| "num_string (Infinity neg) = (if neg then ''-Infinity'' else ''Infinity'')"
| "num_string (Fin q) =
     (if is_integer q \<and> \<bar>q\<bar> < 2 ^ 53 then int_dec \<lfloor>q\<rfloor>
      else if q < 0 then CHR ''-'' # fmt_double (- q) else fmt_double q)"

lemma num_string_int: "\<bar>n\<bar> < 2 ^ 53 \<Longrightarrow> num_string (Fin (of_int n)) = int_dec n"
proof -
  assume "\<bar>n\<bar> < 2 ^ 53"
  then have "\<bar>rat_of_int n\<bar> < 2 ^ 53"
    by (metis of_int_abs of_int_less_iff of_int_numeral of_int_power)
  then show ?thesis by simp
qed

end
