(* ===== verification/JsConvert.thy ===== *)
theory JsConvert
  imports JsValue
begin

text \<open>
  The conversions of the language the program applies to \<open>unknown\<close> values: truthiness,
  \<open>??\<close>, \<open>trim\<close>, \<open>Number.parseInt\<close>, \<open>Number(x)\<close>, \<open>BigInt(x)\<close>, \<open>String(x)\<close>,
  \<open>JSON.stringify\<close> and property reads, with the exceptions they throw.
\<close>

section \<open>Characters and trimming\<close>

definition is_ws :: "char \<Rightarrow> bool" where
  "is_ws c = (char_code c \<in> {9, 10, 11, 12, 13, 32, 160})"

definition is_dec :: "char \<Rightarrow> bool" where
  "is_dec c = (48 \<le> char_code c \<and> char_code c \<le> 57)"

definition trim_left :: "string \<Rightarrow> string" where
  "trim_left s = dropWhile is_ws s"

definition trim :: "string \<Rightarrow> string" where
  "trim s = rev (trim_left (rev (trim_left s)))"

definition to_lower :: "char \<Rightarrow> char" where
  "to_lower c = (if 65 \<le> char_code c \<and> char_code c \<le> 90 then char_of (char_code c + 32) else c)"

definition to_upper :: "char \<Rightarrow> char" where
  "to_upper c = (if 97 \<le> char_code c \<and> char_code c \<le> 122 then char_of (char_code c - 32) else c)"

definition starts_with :: "string \<Rightarrow> string \<Rightarrow> bool" where
  "starts_with p s = (take (length p) s = p)"

lemma starts_with_append [simp]: "starts_with p (p @ s)"
  by (simp add: starts_with_def)

lemma trim_id: "list_all (\<lambda>c. \<not> is_ws c) s \<Longrightarrow> trim s = s"
proof -
  assume nows: "list_all (\<lambda>c. \<not> is_ws c) s"
  have "dropWhile is_ws t = t" if "list_all (\<lambda>c. \<not> is_ws c) t" for t
    using that by (cases t) auto
  with nows show ?thesis by (simp add: trim_def trim_left_def)
qed

lemma digit_char_not_ws: "d < 36 \<Longrightarrow> \<not> is_ws (digit_char d)"
  by (auto simp: is_ws_def code_digit_char)

section \<open>parseInt\<close>

definition split_sign :: "string \<Rightarrow> bool \<times> string" where
  "split_sign s =
     (case s of c # r \<Rightarrow> if c = CHR ''-'' then (True, r) else if c = CHR ''+'' then (False, r) else (False, s)
      | [] \<Rightarrow> (False, []))"

text \<open>\<open>Number.parseInt(s, b)\<close> before rounding; \<open>None\<close> is NaN.\<close>

definition parse_int :: "nat \<Rightarrow> string \<Rightarrow> int option" where
  "parse_int b s =
     (case split_sign (trim_left s) of (neg, r) \<Rightarrow>
        let t = (if b = 16 \<and> (starts_with ''0x'' r \<or> starts_with ''0X'' r) then drop 2 r else r);
            ds = takeWhile (\<lambda>c. digit_val c < b) t
        in if ds = [] then None
           else Some (if neg then - int (radix_val b ds) else int (radix_val b ds)))"

definition parseInt :: "nat \<Rightarrow> string \<Rightarrow> jsnum" where
  "parseInt b s = (case parse_int b s of None \<Rightarrow> NaN | Some n \<Rightarrow> to_double (of_int n))"

section \<open>Number(x) and BigInt(x) on strings\<close>

definition radix_prefix :: "string \<Rightarrow> (nat \<times> string) option" where
  "radix_prefix s =
     (if starts_with ''0x'' s \<or> starts_with ''0X'' s then Some (16, drop 2 s)
      else if starts_with ''0o'' s \<or> starts_with ''0O'' s then Some (8, drop 2 s)
      else if starts_with ''0b'' s \<or> starts_with ''0B'' s then Some (2, drop 2 s)
      else None)"

definition string_to_bigint :: "string \<Rightarrow> int option" where
  "string_to_bigint s =
     (let t = trim s in
      if t = [] then Some 0
      else case radix_prefix t of
          Some (b, ds) \<Rightarrow> if all_digits b ds then Some (int (radix_val b ds)) else None
        | None \<Rightarrow>
            (case split_sign t of (neg, ds) \<Rightarrow>
               if all_digits 10 ds
               then Some (if neg then - int (radix_val 10 ds) else int (radix_val 10 ds))
               else None))"

text \<open>The unsigned decimal literal of \<open>Number(s)\<close>: digits, fraction, exponent.\<close>

definition decimal_literal :: "string \<Rightarrow> rat option" where
  "decimal_literal s =
     (let i = takeWhile is_dec s; r = dropWhile is_dec s;
          (f, r2) = (case r of c # q \<Rightarrow> if c = CHR ''.'' then (takeWhile is_dec q, dropWhile is_dec q)
                                        else ([], r) | [] \<Rightarrow> ([], r));
          mant = of_nat (radix_val 10 (i @ f)) / 10 ^ length f
      in if i = [] \<and> f = [] then None
         else case r2 of
             [] \<Rightarrow> Some mant
           | c # q \<Rightarrow>
               if c = CHR ''e'' \<or> c = CHR ''E'' then
                 (case split_sign q of (neg, ds) \<Rightarrow>
                    if ds \<noteq> [] \<and> list_all is_dec ds
                    then Some (mant * pow10 (if neg then - int (radix_val 10 ds) else int (radix_val 10 ds)))
                    else None)
               else None)"

definition string_to_number :: "string \<Rightarrow> jsnum" where
  "string_to_number s =
     (let t = trim s in
      if t = [] then Fin 0
      else case radix_prefix t of
          Some (b, ds) \<Rightarrow> if all_digits b ds then to_double (of_nat (radix_val b ds)) else NaN
        | None \<Rightarrow>
            (case split_sign t of (neg, u) \<Rightarrow>
               if u = ''Infinity'' then Infinity neg
               else case decimal_literal u of None \<Rightarrow> NaN
                 | Some q \<Rightarrow> to_double (if neg then - q else q)))"

section \<open>Values: truthiness, strings, numbers\<close>

fun truthy :: "jsval \<Rightarrow> bool" where
  "truthy Undefined = False"
| "truthy Null = False"
| "truthy (Bool b) = b"
| "truthy (Num n) = (case n of NaN \<Rightarrow> False | Infinity _ \<Rightarrow> True | Fin q \<Rightarrow> q \<noteq> 0)"
| "truthy (BigInt n) = (n \<noteq> 0)"
| "truthy (Str s) = (s \<noteq> [])"
| "truthy _ = True"

definition nullish :: "jsval \<Rightarrow> bool" where
  "nullish v = (v = Undefined \<or> v = Null)"

text \<open>\<open>a ?? b\<close>\<close>

definition coalesce :: "jsval \<Rightarrow> jsval \<Rightarrow> jsval" where
  "coalesce a b = (if nullish a then b else a)"

lemma coalesce_simps [simp]:
  "coalesce Undefined b = b" "coalesce Null b = b"
  "coalesce (Bool x) b = Bool x" "coalesce (Num n) b = Num n" "coalesce (BigInt i) b = BigInt i"
  "coalesce (Str s) b = Str s" "coalesce (Bytes bs) b = Bytes bs" "coalesce (Arr xs) b = Arr xs"
  "coalesce (Obj kvs) b = Obj kvs" "coalesce (ErrV e) b = ErrV e" "coalesce (Builtin f) b = Builtin f"
  by (simp_all add: coalesce_def nullish_def)

definition join :: "string \<Rightarrow> string list \<Rightarrow> string" where
  "join sep xs =
     (case xs of [] \<Rightarrow> [] | y # ys \<Rightarrow> y @ concat (map (\<lambda>z. sep @ z) ys))"

text \<open>\<open>String(x)\<close>; in an array \<open>undefined\<close> and \<open>null\<close> elements print as nothing.\<close>

fun js_string :: "jsval \<Rightarrow> string" where
  "js_string Undefined = ''undefined''"
| "js_string Null = ''null''"
| "js_string (Bool b) = (if b then ''true'' else ''false'')"
| "js_string (Num n) = num_string n"
| "js_string (BigInt n) = int_dec n"
| "js_string (Str s) = s"
| "js_string (Bytes bs) = join '','' (map (\<lambda>b. nat_radix 10 (unat b)) bs)"
| "js_string (Arr vs) = join '','' (map (\<lambda>v. if v = Undefined \<or> v = Null then [] else js_string v) vs)"
| "js_string (Obj _) = ''[object Object]''"
| "js_string (Builtin f) = ''function '' @ f @ ''() { [native code] }''"
| "js_string (ErrV e) =
     (if err_message e = [] then err_name e else err_name e @ '': '' @ err_message e)"

fun js_number :: "jsval \<Rightarrow> jsnum" where
  "js_number Undefined = NaN"
| "js_number Null = Fin 0"
| "js_number (Bool b) = Fin (if b then 1 else 0)"
| "js_number (Num n) = n"
| "js_number (BigInt n) = to_double (of_int n)"
| "js_number v = string_to_number (js_string v)"

fun js_bigint :: "jsval \<Rightarrow> int js" where
  "js_bigint Undefined = Inl TypeErr"
| "js_bigint Null = Inl TypeErr"
| "js_bigint (Bool b) = Inr (if b then 1 else 0)"
| "js_bigint (Num n) =
     (case n of Fin q \<Rightarrow> if is_integer q then Inr \<lfloor>q\<rfloor> else Inl RangeErr | _ \<Rightarrow> Inl RangeErr)"
| "js_bigint (BigInt n) = Inr n"
| "js_bigint v =
     (case string_to_bigint (js_string v) of Some n \<Rightarrow> Inr n | None \<Rightarrow> Inl SyntaxErr)"

section \<open>Decimal round trips\<close>

lemma dec_char_facts:
  assumes "d < 10"
  shows "is_dec (digit_char d)" "\<not> is_ws (digit_char d)" "digit_char d \<noteq> CHR ''-''"
    "digit_char d \<noteq> CHR ''+''" "digit_val (digit_char d) < 10"
    "digit_char d \<notin> set ''xXoObB.eE-+''"
proof -
  have c: "char_code (digit_char d) = 48 + d" using assms by (simp add: digit_char_def)
  have "digit_char d \<noteq> e" if "char_code e < 48 \<or> 57 < char_code e" for e
    using c assms that by auto
  then show "digit_char d \<noteq> CHR ''-''" "digit_char d \<noteq> CHR ''+''"
    "digit_char d \<notin> set ''xXoObB.eE-+''" by auto
  show "is_dec (digit_char d)" "\<not> is_ws (digit_char d)" "digit_val (digit_char d) < 10"
    using c assms by (auto simp: is_dec_def is_ws_def)
qed

lemma nat_dec_chars:
  assumes "c \<in> set (nat_radix 10 n)"
  obtains d where "d < 10" "c = digit_char d"
  using nat_radix_digits [of 10 c n] assms by auto

lemma nat_dec_is_dec: "list_all is_dec (nat_radix 10 n)"
  unfolding list_all_iff using dec_char_facts(1) by (blast elim: nat_dec_chars)

lemma nat_dec_no_ws: "list_all (\<lambda>c. \<not> is_ws c) (nat_radix 10 n)"
  unfolding list_all_iff using dec_char_facts(2) by (blast elim: nat_dec_chars)

lemma nat_dec_no_marks: "list_all (\<lambda>c. c \<notin> set ''xXoObB.eE-+'') (nat_radix 10 n)"
  unfolding list_all_iff using dec_char_facts(6) by (blast elim: nat_dec_chars)

lemma radix_prefix_None:
  assumes "list_all (\<lambda>c. c \<notin> set ''xXoObB'') s"
  shows "radix_prefix s = None"
proof (cases s)
  case Nil
  then show ?thesis by (simp add: radix_prefix_def starts_with_def)
next
  case (Cons a t)
  with assms show ?thesis
    by (cases t) (auto simp: radix_prefix_def starts_with_def)
qed

lemma split_sign_nat_dec: "split_sign (nat_radix 10 n) = (False, nat_radix 10 n)"
  using nat_dec_no_marks [of n] by (cases "nat_radix 10 n") (auto simp: split_sign_def)

lemma int_dec_trim: "trim (int_dec n) = int_dec n"
  using nat_dec_no_ws by (auto simp: int_dec_def is_ws_def intro!: trim_id)

lemma int_dec_prefix: "radix_prefix (int_dec n) = None"
proof -
  have "list_all (\<lambda>c. c \<notin> set ''xXoObB'') (nat_radix 10 m)" for m
    using nat_dec_no_marks [of m] by (auto simp: list_all_iff)
  then show ?thesis by (auto simp: int_dec_def intro!: radix_prefix_None)
qed

lemma int_dec_nonempty [simp]: "int_dec n \<noteq> []"
  by (simp add: int_dec_def)

lemma int_dec_split_sign:
  "split_sign (int_dec n) = (n < 0, nat_radix 10 (nat \<bar>n\<bar>))"
  by (auto simp: int_dec_def split_sign_nat_dec) (simp add: split_sign_def)

lemma radix_val_dec: "radix_val 10 (nat_radix 10 n) = n"
  by (rule radix_val_nat_radix) simp_all

lemma all_digits_dec: "all_digits 10 (nat_radix 10 n)"
  by (rule nat_radix_all_digits) simp_all

text \<open>\<open>BigInt(n.toString())\<close> is \<open>n\<close>.\<close>

lemma string_to_bigint_int_dec [simp]: "string_to_bigint (int_dec n) = Some n"
  by (simp add: string_to_bigint_def int_dec_trim int_dec_prefix int_dec_split_sign
      all_digits_dec radix_val_dec)

lemma js_bigint_int_dec [simp]: "js_bigint (Str (int_dec n)) = Inr n"
  by (simp add: string_to_bigint_int_dec)

interpretation decimal: codec "\<lambda>_. True" int_dec "\<lambda>s. js_bigint (Str s)"
  by unfold_locales simp

lemma takeWhile_dropWhile_all:
  "list_all P xs \<Longrightarrow> takeWhile P xs = xs \<and> dropWhile P xs = []"
  by (auto simp: list_all_iff)

lemma decimal_literal_nat_dec: "decimal_literal (nat_radix 10 n) = Some (of_nat n)"
  by (simp add: decimal_literal_def radix_val_dec Let_def takeWhile_dropWhile_all [OF nat_dec_is_dec])

lemma nat_dec_not_infinity: "nat_radix 10 n \<noteq> ''Infinity''"
proof
  assume "nat_radix 10 n = ''Infinity''"
  then show False using nat_dec_is_dec [of n] by (simp add: is_dec_def)
qed

lemma string_to_number_int_dec: "string_to_number (int_dec n) = to_double (of_int n)"
  by (simp add: string_to_number_def int_dec_trim int_dec_prefix int_dec_split_sign
      nat_dec_not_infinity decimal_literal_nat_dec)

lemma js_number_int_dec: "\<bar>n\<bar> < 2 ^ 53 \<Longrightarrow> js_number (Str (int_dec n)) = Fin (of_int n)"
  by (simp add: string_to_number_int_dec to_double_int)

text \<open>\<open>BigInt(String(v))\<close> on the integers the program passes as numbers or BigInts.\<close>

lemma bigint_of_string_num:
  "\<bar>n\<bar> < 2 ^ 53 \<Longrightarrow> js_bigint (Str (js_string (Num (Fin (of_int n))))) = Inr n"
  by (simp only: js_string.simps num_string_int js_bigint_int_dec)

lemma bigint_of_string_bigint: "js_bigint (Str (js_string (BigInt n))) = Inr n"
  by (simp only: js_string.simps js_bigint_int_dec)

section \<open>Property reads\<close>

definition get_prop :: "(string \<times> jsval) list \<Rightarrow> string \<Rightarrow> jsval" where
  "get_prop kvs k = (case map_of kvs k of None \<Rightarrow> Undefined | Some v \<Rightarrow> v)"

text \<open>
  A property of an object value, by the fixed names the program reads. Of these an Error
  instance has \<open>message\<close> only.
\<close>

fun js_prop :: "jsval \<Rightarrow> string \<Rightarrow> jsval" where
  "js_prop (Obj kvs) k = get_prop kvs k"
| "js_prop (ErrV e) k = (if k = ''message'' then Str (err_message e) else Undefined)"
| "js_prop _ k = Undefined"

lemma get_prop_Cons [simp]:
  "get_prop ((j, v) # kvs) k = (if j = k then v else get_prop kvs k)"
  "get_prop [] k = Undefined"
  by (simp_all add: get_prop_def)

section \<open>JSON.stringify\<close>

definition json_escape :: "char \<Rightarrow> string" where
  "json_escape c =
     (if c = CHR 0x22 then [CHR 0x5C, CHR 0x22]
      else if c = CHR 0x5C then [CHR 0x5C, CHR 0x5C]
      else if char_code c = 8 then [CHR 0x5C, CHR ''b'']
      else if char_code c = 9 then [CHR 0x5C, CHR ''t'']
      else if char_code c = 10 then [CHR 0x5C, CHR ''n'']
      else if char_code c = 12 then [CHR 0x5C, CHR ''f'']
      else if char_code c = 13 then [CHR 0x5C, CHR ''r'']
      else if char_code c < 32
        then CHR 0x5C # ''u00'' @ [digit_char (char_code c div 16), digit_char (char_code c mod 16)]
      else [c])"

definition json_quote :: "string \<Rightarrow> string" where
  "json_quote s = CHR 0x22 # concat (map json_escape s) @ [CHR 0x22]"

text \<open>
  \<open>Inr None\<close> is the value \<open>undefined\<close> (what \<open>JSON.stringify\<close> gives for \<open>undefined\<close> and
  for functions); a BigInt anywhere inside throws. Built-in Error instances have no
  enumerable properties.
\<close>

fun json_stringify :: "jsval \<Rightarrow> string option js"
and json_elems :: "jsval list \<Rightarrow> string list js"
and json_props :: "(string \<times> jsval) list \<Rightarrow> string list js" where
  "json_stringify Undefined = Inr None"
| "json_stringify (Builtin _) = Inr None"
| "json_stringify Null = Inr (Some ''null'')"
| "json_stringify (Bool b) = Inr (Some (if b then ''true'' else ''false''))"
| "json_stringify (Num n) =
     Inr (Some (case n of Fin q \<Rightarrow> num_string n | _ \<Rightarrow> ''null''))"
| "json_stringify (BigInt _) = Inl TypeErr"
| "json_stringify (Str s) = Inr (Some (json_quote s))"
| "json_stringify (Bytes bs) =
     Inr (Some (''{'' @ join '','' (map (\<lambda>(i, b). json_quote (nat_radix 10 i) @ '':'' @ nat_radix 10 (unat b))
        (enumerate 0 bs)) @ ''}''))"
| "json_stringify (Arr vs) = bindR (json_elems vs) (\<lambda>ss. Inr (Some (''['' @ join '','' ss @ '']'')))"
| "json_stringify (Obj kvs) = bindR (json_props kvs) (\<lambda>ss. Inr (Some (''{'' @ join '','' ss @ ''}'')))"
| "json_stringify (ErrV _) = Inr (Some ''{}'')"
| "json_elems [] = Inr []"
| "json_elems (v # vs) =
     bindR (json_stringify v) (\<lambda>s. bindR (json_elems vs) (\<lambda>ss.
       Inr ((case s of None \<Rightarrow> ''null'' | Some t \<Rightarrow> t) # ss)))"
| "json_props [] = Inr []"
| "json_props ((k, v) # kvs) =
     bindR (json_stringify v) (\<lambda>s. bindR (json_props kvs) (\<lambda>ss.
       Inr (case s of None \<Rightarrow> ss | Some t \<Rightarrow> (json_quote k @ '':'' @ t) # ss)))"

end
