(* ===== verification/Types.thy ===== *)
theory Types
  imports JsConvert
begin

text \<open>
  The SDK's data types (packages/sdk/src/types.ts): the unions of string literals as
  datatypes with the literal each constructor stands for, the index tables, the interfaces as
  records, and the network presets. A milestone's id is a type parameter: \<open>jsnum\<close> where it
  comes out of \<open>Number(...)\<close>, \<open>int\<close> in the indexer, whose ids are integers.
\<close>

section \<open>Unions of string literals\<close>

datatype network_name = Testnet | Mainnet

datatype escrow_state = ES_Pending | ES_Active | ES_Completed | ES_Disputed | ES_Cancelled

datatype milestone_status =
  MS_Pending | MS_UnderReview | MS_Under_Review | MS_Released | MS_Disputed

fun escrow_state_text :: "escrow_state \<Rightarrow> string" where
  "escrow_state_text ES_Pending = ''Pending''"
| "escrow_state_text ES_Active = ''Active''"
| "escrow_state_text ES_Completed = ''Completed''"
| "escrow_state_text ES_Disputed = ''Disputed''"
| "escrow_state_text ES_Cancelled = ''Cancelled''"

fun milestone_status_text :: "milestone_status \<Rightarrow> string" where
  "milestone_status_text MS_Pending = ''Pending''"
| "milestone_status_text MS_UnderReview = ''UnderReview''"
| "milestone_status_text MS_Under_Review = ''Under Review''"
| "milestone_status_text MS_Released = ''Released''"
| "milestone_status_text MS_Disputed = ''Disputed''"

definition ESCROW_STATE_BY_VALUE :: "escrow_state list" where
  "ESCROW_STATE_BY_VALUE = [ES_Pending, ES_Active, ES_Completed, ES_Disputed, ES_Cancelled]"

definition MILESTONE_STATUS_BY_VALUE :: "milestone_status list" where
  "MILESTONE_STATUS_BY_VALUE = [MS_Pending, MS_UnderReview, MS_Released, MS_Disputed]"

text \<open>The value of a literal's text, if it is one: \<open>TABLE.includes(text)\<close>.\<close>

definition find_text :: "('a \<Rightarrow> string) \<Rightarrow> 'a list \<Rightarrow> string \<Rightarrow> 'a option" where
  "find_text txt table s = find (\<lambda>x. txt x = s) table"

text \<open>\<open>TABLE[n]\<close> for a number \<open>n\<close>: only an integer in range names an element.\<close>

definition index_num :: "'a list \<Rightarrow> jsnum \<Rightarrow> 'a option" where
  "index_num xs n =
     (case n of
        Fin q \<Rightarrow> if is_integer q \<and> 0 \<le> q \<and> q < of_nat (length xs) then Some (xs ! nat \<lfloor>q\<rfloor>) else None
      | _ \<Rightarrow> None)"

lemma index_num_nat: "index_num xs (Fin (of_nat i)) = (if i < length xs then Some (xs ! i) else None)"
  using is_integer_of_int [of "int i"] by (simp add: index_num_def)

lemma escrow_state_text_inj: "escrow_state_text a = escrow_state_text b \<longleftrightarrow> a = b"
  by (cases a; cases b) simp_all

lemma milestone_status_text_inj: "milestone_status_text a = milestone_status_text b \<longleftrightarrow> a = b"
  by (cases a; cases b) simp_all

section \<open>Interfaces\<close>

record 'n milestone =
  milestoneId :: 'n
  payoutAmount :: int
  descriptionHash :: string
  isApproved :: bool
  completedAt :: int
  status :: milestone_status
  submittedAt :: "int option"
  proofHash :: "string option"

text \<open>\<open>descriptionHash: string | Uint8Array\<close>\<close>

datatype hash_input = HashText string | HashBytes "8 word list"

record milestone_input =
  in_milestoneId :: jsnum
  in_payoutAmount :: int
  in_descriptionHash :: hash_input

record escrow_config =
  cfg_funder :: string
  cfg_recipient :: string
  cfg_arbitrator :: string
  cfg_asset :: string
  cfg_totalAmount :: int
  cfg_releaseThreshold :: jsnum
  cfg_lockSecs :: "int option"

record balance_book =
  deposited :: int
  released :: int
  refunded :: int

record dispute_record =
  dr_raisedBy :: string
  dr_raisedAt :: int
  dr_funderBps :: jsnum
  dr_recipientBps :: jsnum
  dr_resolved :: bool

record dispute_payload = dispute_record +
  dp_escrowId :: string
  dp_funderAmount :: int
  dp_recipientAmount :: int

section \<open>Network presets\<close>

record network_config =
  net_name :: network_name
  horizonUrl :: string
  net_rpcUrl :: string
  net_passphrase :: string

fun NETWORKS :: "network_name \<Rightarrow> network_config" where
  "NETWORKS Testnet =
     \<lparr>net_name = Testnet,
      horizonUrl = ''https://horizon-testnet.stellar.org'',
      net_rpcUrl = ''https://soroban-testnet.stellar.org'',
      net_passphrase = ''Test SDF Network ; September 2015''\<rparr>"
| "NETWORKS Mainnet =
     \<lparr>net_name = Mainnet,
      horizonUrl = ''https://horizon.stellar.org'',
      net_rpcUrl = ''https://soroban-rpc.stellar.org'',
      net_passphrase = ''Public Global Stellar Network ; September 2015''\<rparr>"

text \<open>\<open>options.networkPassphrase ?? NETWORKS[options.network ?? "testnet"].networkPassphrase\<close>\<close>

definition network_passphrase :: "network_name option \<Rightarrow> string option \<Rightarrow> string" where
  "network_passphrase net pass =
     (case pass of Some p \<Rightarrow> p
      | None \<Rightarrow> net_passphrase (NETWORKS (case net of Some n \<Rightarrow> n | None \<Rightarrow> Testnet)))"

end
