(* ===== verification/Json.thy ===== *)
theory Json
  imports JsConvert
begin

text \<open>
  \<open>JSON.parse\<close> on texts of 8-bit code units, and its round trip with \<open>JSON.stringify\<close>: what
  the server writes to a TEXT column it reads back. The parser is recursive descent with fuel;
  twice the length of the text is enough (\<open>json_fuel_enough\<close>), so that running out of fuel is
  never the reason for a refusal. An escape \<open>\u\<close> above 255 is refused, as no string of the
  model has such a character.
\<close>

section \<open>The parser\<close>

definition json_ws :: "char \<Rightarrow> bool" where
  "json_ws c = (char_code c \<in> {9, 10, 13, 32})"

definition skip_ws :: "string \<Rightarrow> string" where
  "skip_ws s = dropWhile json_ws s"

definition unescape :: "char \<Rightarrow> char option" where
  "unescape c =
     (if c = CHR 0x22 \<or> c = CHR 0x5C \<or> c = CHR ''/'' then Some c
      else if c = CHR ''b'' then Some (char_of (8 :: nat))
      else if c = CHR ''f'' then Some (char_of (12 :: nat))
      else if c = CHR ''n'' then Some (char_of (10 :: nat))
      else if c = CHR ''r'' then Some (char_of (13 :: nat))
      else if c = CHR ''t'' then Some (char_of (9 :: nat))
      else None)"

text \<open>The characters of a string token up to its closing quote, and the text behind it.\<close>

fun json_chars :: "string \<Rightarrow> (string \<times> string) option" where
  "json_chars [] = None"
| "json_chars (c # s) =
     (if c = CHR 0x22 then Some ([], s)
      else if char_code c < 32 then None
      else if c = CHR 0x5C then
        (case s of
           [] \<Rightarrow> None
         | e # r \<Rightarrow>
             if e = CHR ''u'' then
               (if 4 \<le> length r \<and> all_digits 16 (take 4 r) \<and> radix_val 16 (take 4 r) < 256
                then map_option (\<lambda>(t, q). (char_of (radix_val 16 (take 4 r)) # t, q)) (json_chars (drop 4 r))
                else None)
             else (case unescape e of
                 None \<Rightarrow> None
               | Some d \<Rightarrow> map_option (\<lambda>(t, q). (d # t, q)) (json_chars r)))
      else map_option (\<lambda>(t, q). (c # t, q)) (json_chars s))"

text \<open>A number token: optional minus, integer part without leading zeros, fraction, exponent.\<close>

definition json_int :: "string \<Rightarrow> (string \<times> string) option" where
  "json_int s =
     (let ds = takeWhile is_dec s in
      if ds = [] then None
      else if hd ds = CHR ''0'' then Some (''0'', tl s)
      else Some (ds, dropWhile is_dec s))"

definition json_frac :: "string \<Rightarrow> (string \<times> string) option" where
  "json_frac s =
     (case s of
        c # r \<Rightarrow>
          if c = CHR ''.'' then
            (if takeWhile is_dec r = [] then None else Some (CHR ''.'' # takeWhile is_dec r, dropWhile is_dec r))
          else Some ([], s)
      | [] \<Rightarrow> Some ([], []))"

definition json_exp :: "string \<Rightarrow> (string \<times> string) option" where
  "json_exp s =
     (case s of
        c # r \<Rightarrow>
          if c = CHR ''e'' \<or> c = CHR ''E'' then
            (let q = (case r of x # y \<Rightarrow> if x = CHR ''+'' \<or> x = CHR ''-'' then y else r | [] \<Rightarrow> []);
                 sg = take (length r - length q) r
             in if takeWhile is_dec q = [] then None
                else Some (c # sg @ takeWhile is_dec q, dropWhile is_dec q))
          else Some ([], s)
      | [] \<Rightarrow> Some ([], []))"

definition json_number :: "string \<Rightarrow> (jsval \<times> string) option" where
  "json_number s =
     (let (sg, r) = (case s of c # q \<Rightarrow> if c = CHR ''-'' then (''-'', q) else ([], s) | [] \<Rightarrow> ([], [])) in
      case json_int r of None \<Rightarrow> None
      | Some (i, r1) \<Rightarrow>
          (case json_frac r1 of None \<Rightarrow> None
           | Some (f, r2) \<Rightarrow>
               (case json_exp r2 of None \<Rightarrow> None
                | Some (e, r3) \<Rightarrow> Some (Num (string_to_number (sg @ i @ f @ e)), r3))))"

definition json_word :: "string \<Rightarrow> jsval \<Rightarrow> string \<Rightarrow> (jsval \<times> string) option" where
  "json_word w v s = (if starts_with w s then Some (v, drop (length w) s) else None)"

fun json_value :: "nat \<Rightarrow> string \<Rightarrow> (jsval \<times> string) option"
and json_items :: "nat \<Rightarrow> string \<Rightarrow> (jsval list \<times> string) option"
and json_members :: "nat \<Rightarrow> (string \<times> jsval) list \<Rightarrow> string \<Rightarrow> ((string \<times> jsval) list \<times> string) option" where
  "json_value 0 s = None"
| "json_value (Suc n) s =
     (case skip_ws s of
        [] \<Rightarrow> None
      | c # r \<Rightarrow>
          if c = CHR 0x22 then map_option (\<lambda>(t, q). (Str t, q)) (json_chars r)
          else if c = CHR ''['' then
            (case skip_ws r of
               [] \<Rightarrow> None
             | d # q \<Rightarrow> if d = CHR '']'' then Some (Arr [], q)
                        else map_option (\<lambda>(vs, q). (Arr vs, q)) (json_items n r))
          else if c = CHR ''{'' then
            (case skip_ws r of
               [] \<Rightarrow> None
             | d # q \<Rightarrow> if d = CHR ''}'' then Some (Obj [], q)
                        else map_option (\<lambda>(kvs, q). (Obj kvs, q)) (json_members n [] r))
          else if c = CHR ''n'' then json_word ''ull'' Null r
          else if c = CHR ''t'' then json_word ''rue'' (Bool True) r
          else if c = CHR ''f'' then json_word ''alse'' (Bool False) r
          else json_number (c # r))"
| "json_items 0 s = None"
| "json_items (Suc n) s =
     (case json_value n s of
        None \<Rightarrow> None
      | Some (v, r) \<Rightarrow>
          (case skip_ws r of
             [] \<Rightarrow> None
           | c # q \<Rightarrow>
               if c = CHR '']'' then Some ([v], q)
               else if c = CHR '','' then map_option (\<lambda>(vs, q). (v # vs, q)) (json_items n q)
               else None))"
| "json_members 0 acc s = None"
| "json_members (Suc n) acc s =
     (case skip_ws s of
        [] \<Rightarrow> None
      | c # r \<Rightarrow>
          if c \<noteq> CHR 0x22 then None
          else (case json_chars r of
              None \<Rightarrow> None
            | Some (k, q) \<Rightarrow>
                (case skip_ws q of
                   [] \<Rightarrow> None
                 | d # q2 \<Rightarrow>
                     if d \<noteq> CHR '':'' then None
                     else (case json_value n q2 of
                         None \<Rightarrow> None
                       | Some (v, q3) \<Rightarrow>
                           (case skip_ws q3 of
                              [] \<Rightarrow> None
                            | e # q4 \<Rightarrow>
                                if e = CHR ''}'' then Some (jm_set k v acc, q4)
                                else if e = CHR '','' then json_members n (jm_set k v acc) q4
                                else None)))))"

definition json_parse :: "string \<Rightarrow> jsval js" where
  "json_parse s =
     (case json_value (2 * length s + 2) s of
        Some (v, r) \<Rightarrow> if skip_ws r = [] then Inr v else Inl SyntaxErr
      | None \<Rightarrow> Inl SyntaxErr)"

section \<open>Fuel\<close>

lemma skip_ws_length: "length (skip_ws s) \<le> length s"
  by (simp add: skip_ws_def length_dropWhile_le)

lemma skip_ws_Cons_length: "skip_ws s = c # r \<Longrightarrow> length r < length s"
  using skip_ws_length [of s] by simp

lemma json_chars_length: "json_chars s = Some (t, q) \<Longrightarrow> length q < length s"
proof (induction s arbitrary: t q rule: json_chars.induct)
  case 1
  then show ?case by simp
next
  case (2 c s)
  then show ?case
    by (fastforce split: if_splits list.splits option.splits)
qed

lemma json_int_length: "json_int s = Some (t, q) \<Longrightarrow> length q < length s"
proof -
  assume a: "json_int s = Some (t, q)"
  then obtain c r where s: "s = c # r" "is_dec c" by (cases s) (auto simp: json_int_def split: if_splits)
  then show ?thesis
    using a by (auto simp: json_int_def Let_def le_imp_less_Suc length_dropWhile_le split: if_splits)
qed

lemma json_frac_length: "json_frac s = Some (t, q) \<Longrightarrow> length q \<le> length s"
  by (cases s) (auto simp: json_frac_def le_SucI length_dropWhile_le split: if_splits)

lemma json_exp_length: "json_exp s = Some (t, q) \<Longrightarrow> length q \<le> length s"
proof (cases s)
  case (Cons c r)
  assume "json_exp s = Some (t, q)"
  then show ?thesis
    by (cases r) (auto simp: json_exp_def Cons Let_def le_SucI length_dropWhile_le split: if_splits)
qed (simp add: json_exp_def)

lemma json_number_length: "json_number s = Some (v, q) \<Longrightarrow> length q < length s"
  by (cases s)
     (force simp: json_number_def split: if_splits option.splits prod.splits
      dest: json_int_length json_frac_length json_exp_length)+

lemma json_word_length: "json_word w v s = Some (u, q) \<Longrightarrow> length q \<le> length s"
  by (auto simp: json_word_def split: if_splits)

lemma json_shortens:
  "json_value n s = Some (v, q) \<Longrightarrow> length q < length s"
  "json_items n s = Some (vs, q) \<Longrightarrow> length q < length s"
  "json_members n acc s = Some (kvs, q) \<Longrightarrow> length q < length s"
proof (induction n s and n s and n acc s arbitrary: v q and vs q and kvs q rule: json_value_json_items_json_members.induct)
  case (2 n s)
  then show ?case
    by (fastforce split: if_splits list.splits dest: skip_ws_Cons_length json_chars_length json_word_length json_number_length)
next
  case (4 n s)
  then show ?case
    by (fastforce split: if_splits list.splits option.splits dest: skip_ws_Cons_length)
next
  case (6 n acc s)
  then show ?case
    by (fastforce split: if_splits list.splits option.splits dest: skip_ws_Cons_length json_chars_length)
qed simp_all

lemma json_fuel_Suc:
  "2 * length s + 1 \<le> n \<Longrightarrow> json_value (Suc n) s = json_value n s"
  "2 * length s + 2 \<le> n \<Longrightarrow> json_items (Suc n) s = json_items n s"
  "2 * length s + 2 \<le> n \<Longrightarrow> json_members (Suc n) acc s = json_members n acc s"
proof (induction n s and n s and n acc s rule: json_value_json_items_json_members.induct)
  case (2 n s)
  show ?case
  proof (cases "skip_ws s")
    case (Cons c r)
    have "length r < length s" using skip_ws_Cons_length [OF Cons] .
    then have r: "2 * length r + 2 \<le> n" using 2 by simp
    have "json_items (Suc n) r = json_items n r" if "c = CHR ''[''" "skip_ws r = d # q" "d \<noteq> CHR '']''" for d q
      using 2(1) [OF Cons, of d q] that r by simp
    moreover have "json_members (Suc n) [] r = json_members n [] r"
      if "c = CHR ''{''" "skip_ws r = d # q" "d \<noteq> CHR ''}''" for d q
      using 2(2) [OF Cons, of d q] that r by simp
    ultimately show ?thesis
      by (simp only: json_value.simps Cons list.case) (simp split: list.split)
  qed simp
next
  case (4 n s)
  have v: "json_value (Suc n) s = json_value n s" using 4 by simp
  have "json_items (Suc n) q = json_items n q"
    if "json_value n s = Some (x, r)" "skip_ws r = c # q" "c \<noteq> CHR '']''" "c = CHR '',''" for x r c q
  proof -
    have "length q < length s" using that json_shortens(1) [OF that(1)] skip_ws_Cons_length [OF that(2)] by simp
    then show ?thesis using 4(2) [OF that(1) refl that(2-4)] 4(3) by simp
  qed
  then show ?case
    by (simp only: json_items.simps v) (simp split: option.split list.split)
next
  case (6 n acc s)
  have "json_value (Suc n) q2 = json_value n q2 \<and>
      (\<forall>v q3 e q4. json_value n q2 = Some (v, q3) \<longrightarrow> skip_ws q3 = e # q4 \<longrightarrow> e \<noteq> CHR ''}'' \<longrightarrow> e = CHR '','' \<longrightarrow>
         json_members (Suc n) (jm_set k v acc) q4 = json_members n (jm_set k v acc) q4)"
    if a: "skip_ws s = c # r" "\<not> c \<noteq> CHR 0x22" "json_chars r = Some (k, q)" "skip_ws q = d # q2" "\<not> d \<noteq> CHR '':''"
    for c r k q d q2
  proof -
    have len: "length q2 < length s"
      using skip_ws_Cons_length [OF a(1)] json_chars_length [OF a(3)] skip_ws_Cons_length [OF a(4)] by simp
    have "json_value (Suc n) q2 = json_value n q2"
      using 6(1) [OF a(1,2,3) refl a(4,5)] 6(3) len by simp
    moreover have "json_members (Suc n) (jm_set k v acc) q4 = json_members n (jm_set k v acc) q4"
      if b: "json_value n q2 = Some (v, q3)" "skip_ws q3 = e # q4" "e \<noteq> CHR ''}''" "e = CHR '',''" for v q3 e q4
    proof -
      have "length q4 < length s"
        using len json_shortens(1) [OF b(1)] skip_ws_Cons_length [OF b(2)] by simp
      then show ?thesis using 6(2) [OF a(1,2,3) refl a(4,5) b(1) refl b(2-4)] 6(3) by simp
    qed
    ultimately show ?thesis by blast
  qed
  then show ?case
    by (simp only: json_members.simps) (simp split: option.split list.split)
qed simp_all

lemma json_fuel_enough:
  assumes "2 * length s + 2 \<le> n"
  shows "json_value n s = json_value (2 * length s + 2) s"
  using assms
proof (induction n rule: dec_induct)
  case (step n)
  then show ?case using json_fuel_Suc(1) [of s n] by simp
qed simp

section \<open>Reading back what was written\<close>

text \<open>
  The values the server stores: no BigInt, no bytes, integers below \<open>2^53\<close>, objects with
  distinct keys. A member that is \<open>undefined\<close> is not written.
\<close>

fun json_plain :: "jsval \<Rightarrow> bool"
and json_plain_elems :: "jsval list \<Rightarrow> bool"
and json_plain_props :: "(string \<times> jsval) list \<Rightarrow> bool" where
  "json_plain Null = True"
| "json_plain (Bool b) = True"
| "json_plain (Num n) = (\<exists>i. n = Fin (of_int i) \<and> \<bar>i\<bar> < 2 ^ 53)"
| "json_plain (Str s) = True"
| "json_plain (Arr vs) = json_plain_elems vs"
| "json_plain (Obj kvs) = (distinct (map fst kvs) \<and> json_plain_props kvs)"
| "json_plain _ = False"
| "json_plain_elems [] = True"
| "json_plain_elems (v # vs) = (json_plain v \<and> json_plain_elems vs)"
| "json_plain_props [] = True"
| "json_plain_props ((k, v) # kvs) = ((v = Undefined \<or> json_plain v) \<and> json_plain_props kvs)"

fun json_strip :: "jsval \<Rightarrow> jsval"
and json_strip_elems :: "jsval list \<Rightarrow> jsval list"
and json_strip_props :: "(string \<times> jsval) list \<Rightarrow> (string \<times> jsval) list" where
  "json_strip (Arr vs) = Arr (json_strip_elems vs)"
| "json_strip (Obj kvs) = Obj (json_strip_props kvs)"
| "json_strip v = v"
| "json_strip_elems [] = []"
| "json_strip_elems (v # vs) = json_strip v # json_strip_elems vs"
| "json_strip_props [] = []"
| "json_strip_props ((k, v) # kvs) =
     (if v = Undefined then json_strip_props kvs else (k, json_strip v) # json_strip_props kvs)"

lemma json_strip_elems_map: "json_strip_elems vs = map json_strip vs"
  by (induction vs) simp_all

lemma json_plain_elems_all: "json_plain_elems vs = list_all json_plain vs"
  by (induction vs) simp_all

lemma json_strip_props_keys: "set (map fst (json_strip_props kvs)) \<subseteq> set (map fst kvs)"
  by (induction kvs) (force split: if_splits)+

lemma get_prop_strip:
  "distinct (map fst kvs) \<Longrightarrow> get_prop (json_strip_props kvs) k = json_strip (get_prop kvs k)"
proof (induction kvs)
  case (Cons kv kvs)
  obtain j v where kv: "kv = (j, v)" by (cases kv)
  have "get_prop kvs j = Undefined" if "j \<notin> fst ` set kvs"
    using that by (simp add: get_prop_def split: option.split) (metis map_of_eq_None_iff option.distinct(1))
  with Cons kv show ?case by auto
qed simp

text \<open>Strings.\<close>

lemma json_chars_escape:
  "json_chars (json_escape c @ w) = map_option (\<lambda>(t, q). (c # t, q)) (json_chars w)"
proof -
  have char: "char_of k = c" if "char_code c = k" for k :: nat
    using that by (metis char_of_char)
  consider "c = CHR 0x22" | "c = CHR 0x5C" | "char_code c = 8" | "char_code c = 9" | "char_code c = 10"
    | "char_code c = 12" | "char_code c = 13"
    | "char_code c < 32" "char_code c \<notin> {8, 9, 10, 12, 13}" | "32 \<le> char_code c" "c \<noteq> CHR 0x22" "c \<noteq> CHR 0x5C"
    by force
  then show ?thesis
  proof cases
    case 8
    let ?n = "char_code c"
    have d: "?n div 16 < 16" "?n mod 16 < 16" using 8 by simp_all
    then have "radix_val 16 [CHR ''0'', CHR ''0'', digit_char (?n div 16), digit_char (?n mod 16)] = ?n"
      by (simp add: radix_val_def digit_val_def [of "CHR ''0''"])
    moreover have "all_digits 16 [CHR ''0'', CHR ''0'', digit_char (?n div 16), digit_char (?n mod 16)]"
      using d by (simp add: all_digits_def digit_val_def [of "CHR ''0''"])
    moreover have "c \<noteq> CHR 0x22" "c \<noteq> CHR 0x5C" using 8 by auto
    ultimately show ?thesis using 8 char [OF refl] by (simp add: json_escape_def)
  qed (auto simp: json_escape_def unescape_def char)
qed

lemma json_chars_quoted: "json_chars (concat (map json_escape s) @ CHR 0x22 # w) = Some (s, w)"
  by (induction s) (simp_all add: json_chars_escape)

text \<open>Numbers.\<close>

definition ends_token :: "string \<Rightarrow> bool" where
  "ends_token w = (case w of [] \<Rightarrow> True | c # _ \<Rightarrow> c \<in> set '',]}'')"

lemma nat_radix_hd0: "hd (nat_radix 10 n) = CHR ''0'' \<Longrightarrow> n = 0"
proof (induction "10 :: nat" n rule: nat_radix.induct)
  case (1 n)
  show ?case
  proof (cases "n < 10")
    case True
    then have "hd (nat_radix 10 n) = digit_char n" by (simp add: nat_radix.simps [of 10 n])
    then have "digit_char n = CHR ''0''" using 1(2) by simp
    then have "char_code (digit_char n) = 48" by (simp only:) simp
    then show ?thesis using True by (simp add: digit_char_def)
  next
    case False
    then have "hd (nat_radix 10 n) = hd (nat_radix 10 (n div 10))"
      by (simp add: nat_radix.simps [of 10 n])
    then have "n div 10 = 0" using 1 False by simp
    then show ?thesis using False by simp
  qed
qed

lemma json_int_nat:
  assumes "ends_token w"
  shows "json_int (nat_radix 10 n @ w) = Some (nat_radix 10 n, w)"
proof -
  have "takeWhile is_dec w = []" using assms by (cases w) (auto simp: ends_token_def is_dec_def)
  moreover have "dropWhile is_dec w = w" using assms by (cases w) (auto simp: ends_token_def is_dec_def)
  moreover have "\<forall>c\<in>set (nat_radix 10 n). is_dec c" using nat_dec_is_dec [of n] by (simp add: list_all_iff)
  ultimately have t: "takeWhile is_dec (nat_radix 10 n @ w) = nat_radix 10 n"
    and d: "dropWhile is_dec (nat_radix 10 n @ w) = w"
    by (simp_all add: takeWhile_append2 dropWhile_append2)
  show ?thesis
  proof (cases "n = 0")
    case True
    moreover have "char_of (48 :: nat) = CHR ''0''" using char_of_char [of "CHR ''0''", where 'a = nat] by simp
    ultimately have "nat_radix 10 n = ''0''" by (simp add: nat_radix.simps digit_char_def)
    then show ?thesis using t by (simp add: json_int_def)
  next
    case False
    then show ?thesis using t d nat_radix_hd0 [of n] by (auto simp: json_int_def Let_def)
  qed
qed

lemma json_frac_exp_end: "ends_token w \<Longrightarrow> json_frac w = Some ([], w) \<and> json_exp w = Some ([], w)"
  by (cases w) (auto simp: ends_token_def json_frac_def json_exp_def)

lemma json_number_int_dec:
  assumes "ends_token w" "\<bar>i\<bar> < 2 ^ 53"
  shows "json_number (int_dec i @ w) = Some (Num (Fin (of_int i)), w)"
proof -
  have val: "string_to_number (int_dec i) = Fin (of_int i)"
    using assms(2) by (simp add: string_to_number_int_dec to_double_int)
  show ?thesis
  proof (cases "i < 0")
    case True
    then have "int_dec i = CHR ''-'' # nat_radix 10 (nat (- i))" by (simp add: int_dec_def)
    then show ?thesis
      using val json_int_nat [OF assms(1)] json_frac_exp_end [OF assms(1)] by (simp add: json_number_def)
  next
    case False
    then have i: "int_dec i = nat_radix 10 (nat i)" by (simp add: int_dec_def)
    obtain c r where cr: "nat_radix 10 (nat i) = c # r" by (cases "nat_radix 10 (nat i)") auto
    have "c \<noteq> CHR ''-''" using nat_dec_no_marks [of "nat i"] by (auto simp: cr)
    then show ?thesis
      using val json_int_nat [OF assms(1), of "nat i"] json_frac_exp_end [OF assms(1)]
      by (simp add: json_number_def i cr)
  qed
qed

text \<open>The whole value.\<close>

definition starts_value :: "string \<Rightarrow> bool" where
  "starts_value t = (t \<noteq> [] \<and> \<not> json_ws (hd t) \<and> hd t \<notin> set '',:]}'')"

lemma skip_ws_value: "starts_value t \<Longrightarrow> skip_ws (t @ w) = t @ w"
  by (cases t) (simp_all add: starts_value_def skip_ws_def)

lemma skip_ws_mark: "c \<in> set '',:]}[{'' \<Longrightarrow> skip_ws (c # w) = c # w"
  by (auto simp: skip_ws_def json_ws_def)

lemma join_Cons: "join sep (y # z # zs) = y @ sep @ join sep (z # zs)"
  by (simp add: join_def)

lemma join_single [simp]: "join sep [y] = y" "join sep [] = []"
  by (simp_all add: join_def)

definition reads_back :: "jsval \<Rightarrow> string \<Rightarrow> bool" where
  "reads_back v t \<longleftrightarrow> starts_value t
     \<and> (\<forall>n w. ends_token w \<longrightarrow> 2 * length (t @ w) + 1 \<le> n \<longrightarrow> json_value n (t @ w) = Some (json_strip v, w))"

lemma ends_token_marks [simp]: "ends_token []" "ends_token (CHR '','' # w)" "ends_token (CHR '']'' # w)" "ends_token (CHR ''}'' # w)"
  by (simp_all add: ends_token_def)

lemma reads_back_items:
  assumes "list_all2 reads_back vs ts" "vs \<noteq> []" "2 * length (join '','' ts @ CHR '']'' # w) + 2 \<le> n"
  shows "json_items n (join '','' ts @ CHR '']'' # w) = Some (json_strip_elems vs, w)"
  using assms
proof (induction vs ts arbitrary: n rule: list_all2_induct)
  case (Cons v vs t ts)
  obtain m where n: "n = Suc m" using Cons.prems(2) by (cases n) auto
  show ?case
  proof (cases vs)
    case Nil
    then have "ts = []" using Cons.hyps(2) by simp
    moreover have "json_value m (t @ CHR '']'' # w) = Some (json_strip v, CHR '']'' # w)"
      using Cons.hyps(1) Cons.prems(2) \<open>ts = []\<close> by (simp add: reads_back_def n)
    ultimately show ?thesis by (simp add: n Nil skip_ws_mark)
  next
    case (Cons v' vs')
    then obtain t' ts' where ts: "ts = t' # ts'" using Cons.hyps(2) by (cases ts) auto
    let ?r = "join '','' ts @ CHR '']'' # w"
    have s: "join '','' (t # ts) @ CHR '']'' # w = t @ CHR '','' # ?r" by (simp add: ts join_Cons)
    have "json_value m (t @ CHR '','' # ?r) = Some (json_strip v, CHR '','' # ?r)"
      using Cons.hyps(1) Cons.prems(2) unfolding s by (simp add: reads_back_def n)
    moreover have "json_items m ?r = Some (json_strip_elems vs, w)"
      using Cons.IH [of m] Cons.prems(2) unfolding s by (simp add: n \<open>vs = v' # vs'\<close>)
    ultimately show ?thesis unfolding s by (simp add: n skip_ws_mark)
  qed
qed simp

definition member_text :: "string \<times> jsval \<Rightarrow> string \<Rightarrow> bool" where
  "member_text kv m = (\<exists>t. m = json_quote (fst kv) @ CHR '':'' # t \<and> reads_back (snd kv) t)"

lemma json_member_step:
  assumes "reads_back v t" "ends_token w" "2 * length (t @ w) + 1 \<le> n"
  shows "json_members (Suc n) acc (json_quote k @ CHR '':'' # t @ w) =
     (case w of [] \<Rightarrow> None
      | e # q \<Rightarrow> if e = CHR ''}'' then Some (jm_set k (json_strip v) acc, q)
                 else if e = CHR '','' then json_members n (jm_set k (json_strip v) acc) q else None)"
proof -
  have "json_value n (t @ w) = Some (json_strip v, w)" using assms by (simp add: reads_back_def)
  moreover have "skip_ws w = w"
    using assms(2) by (cases w) (auto simp: ends_token_def skip_ws_def json_ws_def)
  moreover have "skip_ws (CHR 0x22 # x) = CHR 0x22 # x" for x by (simp add: skip_ws_def json_ws_def)
  ultimately show ?thesis
    by (simp add: json_quote_def json_chars_quoted skip_ws_mark)
qed

lemma reads_back_members:
  assumes "list_all2 member_text kvs ms" "kvs \<noteq> []" "distinct (map fst acc @ map fst kvs)"
    "2 * length (join '','' ms @ CHR ''}'' # w) + 2 \<le> n"
  shows "json_members n acc (join '','' ms @ CHR ''}'' # w) = Some (acc @ map (\<lambda>(k, v). (k, json_strip v)) kvs, w)"
  using assms
proof (induction kvs ms arbitrary: n acc rule: list_all2_induct)
  case (Cons kv kvs m ms)
  obtain k v where kv: "kv = (k, v)" by (cases kv)
  obtain t where t: "m = json_quote k @ CHR '':'' # t" "reads_back v t"
    using Cons.hyps(1) by (auto simp: member_text_def kv)
  obtain n' where n: "n = Suc n'" using Cons.prems(3) by (cases n) auto
  have "jm_get k acc = None" using Cons.prems(2) by (auto simp: kv jm_get_None_iff)
  then have set: "jm_set k (json_strip v) acc = acc @ [(k, json_strip v)]" by (rule jm_set_absent)
  show ?case
  proof (cases kvs)
    case Nil
    then have "ms = []" using Cons.hyps(2) by simp
    then show ?thesis
      using json_member_step [OF t(2), of "CHR ''}'' # w" n' acc k] Cons.prems(3) by (simp add: n t(1) Nil kv set)
  next
    case (Cons kv' kvs')
    then obtain m' ms' where ms: "ms = m' # ms'" using Cons.hyps(2) by (cases ms) auto
    let ?r = "join '','' ms @ CHR ''}'' # w"
    have s: "join '','' (m # ms) @ CHR ''}'' # w = json_quote k @ CHR '':'' # t @ CHR '','' # ?r"
      by (simp add: ms join_Cons t(1))
    have "json_members n' (acc @ [(k, json_strip v)]) ?r =
        Some ((acc @ [(k, json_strip v)]) @ map (\<lambda>(k, v). (k, json_strip v)) kvs, w)"
      using Cons.prems unfolding s by (intro Cons.IH) (auto simp: n kv \<open>kvs = kv' # kvs'\<close>)
    then show ?thesis
      using json_member_step [OF t(2), of "CHR '','' # ?r" n' acc k] Cons.prems(3) unfolding s by (simp add: n kv set)
  qed
qed simp

definition present :: "string \<times> jsval \<Rightarrow> bool" where
  "present kv = (snd kv \<noteq> Undefined)"

lemma present_iff [simp]: "present (k, v) = (v \<noteq> Undefined)"
  by (simp add: present_def)

lemma json_strip_props_map:
  "json_strip_props kvs = map (\<lambda>(k, v). (k, json_strip v)) (filter present kvs)"
  by (induction kvs) auto

lemma reads_back_Arr:
  assumes "list_all2 reads_back vs ts"
  shows "reads_back (Arr vs) (''['' @ join '','' ts @ '']'')"
  unfolding reads_back_def
proof (intro conjI allI impI)
  show "starts_value (''['' @ join '','' ts @ '']'')" by (simp add: starts_value_def json_ws_def)
  fix n w assume w: "ends_token w" "2 * length ((''['' @ join '','' ts @ '']'') @ w) + 1 \<le> n"
  then obtain m where n: "n = Suc m" by (cases n) auto
  let ?r = "join '','' ts @ CHR '']'' # w"
  show "json_value n ((''['' @ join '','' ts @ '']'') @ w) = Some (json_strip (Arr vs), w)"
  proof (cases vs)
    case Nil
    then show ?thesis using assms by (simp add: n skip_ws_mark)
  next
    case (Cons v vs')
    then obtain t ts' where ts: "ts = t # ts'" "reads_back v t" using assms by (cases ts) auto
    then have "starts_value t" by (simp add: reads_back_def)
    then obtain c t' where t: "t = c # t'" "c \<noteq> CHR '']''" "skip_ws (c # x) = c # x" for x
      by (cases t) (auto simp: starts_value_def skip_ws_def)
    have "\<exists>q. ?r = c # q" using ts t by (cases ts') (auto simp: join_Cons)
    then obtain q where q: "?r = c # q" by blast
    have "json_items m ?r = Some (json_strip_elems vs, w)"
      using reads_back_items [OF assms, of w m] w(2) Cons by (simp add: n)
    then show ?thesis using q t(2,3) by (simp add: n skip_ws_mark)
  qed
qed

lemma reads_back_Obj:
  assumes "list_all2 member_text (filter present kvs) ms" "distinct (map fst kvs)"
  shows "reads_back (Obj kvs) (''{'' @ join '','' ms @ ''}'')"
  unfolding reads_back_def
proof (intro conjI allI impI)
  show "starts_value (''{'' @ join '','' ms @ ''}'')" by (simp add: starts_value_def json_ws_def)
  fix n w assume w: "ends_token w" "2 * length ((''{'' @ join '','' ms @ ''}'') @ w) + 1 \<le> n"
  then obtain m where n: "n = Suc m" by (cases n) auto
  let ?r = "join '','' ms @ CHR ''}'' # w"
  show "json_value n ((''{'' @ join '','' ms @ ''}'') @ w) = Some (json_strip (Obj kvs), w)"
  proof (cases "filter present kvs")
    case Nil
    then show ?thesis using assms by (simp add: n skip_ws_mark json_strip_props_map)
  next
    case (Cons kv kvs')
    then obtain t ms' where "ms = t # ms'" "member_text kv t" using assms by (cases ms) auto
    then have "\<exists>q. ?r = CHR 0x22 # q" by (cases ms') (auto simp: member_text_def json_quote_def join_Cons)
    then obtain q where q: "?r = CHR 0x22 # q" by blast
    have "skip_ws (CHR 0x22 # q) = CHR 0x22 # q" by (simp add: skip_ws_def json_ws_def)
    moreover have "distinct (map fst (filter present kvs))" using assms(2) by (rule distinct_map_filter)
    then have "json_members m [] ?r = Some (json_strip_props kvs, w)"
      using reads_back_members [OF assms(1), of "[]" w m] w(2) Cons by (simp add: n json_strip_props_map)
    ultimately show ?thesis using q by (simp add: n skip_ws_mark)
  qed
qed

lemma reads_back_token:
  assumes "starts_value t" "\<And>n w. ends_token w \<Longrightarrow> json_value (Suc n) (t @ w) = Some (v, w)" "json_strip v = v"
  shows "reads_back v t"
  unfolding reads_back_def
proof (intro conjI allI impI)
  fix n w assume w: "ends_token w" "2 * length (t @ w) + 1 \<le> n"
  then obtain m where "n = Suc m" by (cases n) auto
  then show "json_value n (t @ w) = Some (json_strip v, w)" using assms w by simp
qed (rule assms(1))

lemma int_dec_starts:
  "starts_value (int_dec i) \<and> hd (int_dec i) \<notin> {CHR 0x22, CHR ''['', CHR ''{'', CHR ''n'', CHR ''t'', CHR ''f''}"
proof -
  have "is_dec (hd (nat_radix 10 m))" for m
    using nat_dec_is_dec [of m] by (cases "nat_radix 10 m") auto
  then have "is_dec (hd (int_dec i)) \<or> hd (int_dec i) = CHR ''-''" by (simp add: int_dec_def)
  then show ?thesis by (auto simp: starts_value_def is_dec_def json_ws_def)
qed

lemma reads_back_scalar:
  "reads_back Null ''null''"
  "reads_back (Bool b) (if b then ''true'' else ''false'')"
  "reads_back (Str s) (json_quote s)"
  "\<bar>i\<bar> < 2 ^ 53 \<Longrightarrow> reads_back (Num (Fin (of_int i))) (int_dec i)"
proof -
  show "reads_back Null ''null''"
    by (rule reads_back_token) (simp_all add: starts_value_def json_ws_def skip_ws_def json_word_def starts_with_def)
  show "reads_back (Bool b) (if b then ''true'' else ''false'')"
    by (rule reads_back_token) (simp_all add: starts_value_def json_ws_def skip_ws_def json_word_def starts_with_def)
  show "reads_back (Str s) (json_quote s)"
    by (rule reads_back_token)
       (simp_all add: starts_value_def json_ws_def skip_ws_def json_quote_def json_chars_quoted)
  assume i: "\<bar>i\<bar> < 2 ^ 53"
  show "reads_back (Num (Fin (of_int i))) (int_dec i)"
  proof (rule reads_back_token)
    fix n w assume w: "ends_token w"
    obtain c r where cr: "int_dec i = c # r" by (cases "int_dec i") auto
    have "skip_ws (int_dec i @ w) = int_dec i @ w" using int_dec_starts [of i] by (intro skip_ws_value) simp
    then show "json_value (Suc n) (int_dec i @ w) = Some (Num (Fin (of_int i)), w)"
      using json_number_int_dec [OF w i] int_dec_starts [of i] by (simp add: cr)
  qed (simp_all add: int_dec_starts)
qed

lemma stringify_reads_back:
  "json_plain v \<Longrightarrow> \<exists>t. json_stringify v = Inr (Some t) \<and> reads_back v t"
  "json_plain_elems vs \<Longrightarrow> \<exists>ts. json_elems vs = Inr ts \<and> list_all2 reads_back vs ts"
  "json_plain_props kvs \<Longrightarrow> \<exists>ms. json_props kvs = Inr ms \<and> list_all2 member_text (filter present kvs) ms"
proof (induction v and vs and kvs rule: json_plain_json_plain_elems_json_plain_props.induct)
  case (3 n)
  then obtain i where i: "n = Fin (of_int i)" "\<bar>i\<bar> < 2 ^ 53" by auto
  then show ?case using reads_back_scalar(4) [of i] num_string_int [of i] by simp
next
  case (5 vs)
  then show ?case using reads_back_Arr by auto
next
  case (6 kvs)
  then show ?case using reads_back_Obj by auto
next
  case (9 v vs)
  then show ?case by auto
next
  case (11 k v kvs)
  then obtain ms where ms: "json_props kvs = Inr ms" "list_all2 member_text (filter present kvs) ms" by auto
  show ?case
  proof (cases "v = Undefined")
    case True
    then show ?thesis using ms by simp
  next
    case False
    then obtain t where "json_stringify v = Inr (Some t)" "reads_back v t" using 11 by auto
    then have "member_text (k, v) (json_quote k @ CHR '':'' # t)" by (simp add: member_text_def)
    then show ?thesis using \<open>json_stringify v = Inr (Some t)\<close> ms False by simp
  qed
qed (simp_all add: reads_back_scalar)

lemma json_roundtrip:
  assumes "json_plain v"
  shows "\<exists>t. json_stringify v = Inr (Some t) \<and> json_parse t = Inr (json_strip v)"
proof -
  obtain t where t: "json_stringify v = Inr (Some t)" "reads_back v t"
    using stringify_reads_back(1) [OF assms] by blast
  have "json_value (2 * length (t @ []) + 2) (t @ []) = Some (json_strip v, [])"
    using t(2) unfolding reads_back_def by (elim conjE allE [of _ "2 * length (t @ []) + 2"] allE [of _ "[]"]) (simp del: json_value.simps)
  then show ?thesis using t(1) by (simp add: json_parse_def skip_ws_def)
qed

lemma json_strip_not_Undefined: "json_plain v \<Longrightarrow> json_strip v \<noteq> Undefined"
  by (cases v) auto

lemma json_plain_strip:
  "json_plain v \<Longrightarrow> json_plain (json_strip v)"
  "json_plain_elems vs \<Longrightarrow> json_plain_elems (json_strip_elems vs)"
  "json_plain_props kvs \<Longrightarrow> json_plain_props (json_strip_props kvs)"
proof (induction v and vs and kvs rule: json_plain_json_plain_elems_json_plain_props.induct)
  case (6 kvs)
  have "map fst (json_strip_props kvs) = map fst (filter present kvs)"
    by (simp add: json_strip_props_map case_prod_beta comp_def)
  then show ?case using 6 by (simp add: distinct_map_filter)
qed auto

end
