(* ===== verification/JsArith.thy ===== *)
theory JsArith
  imports JsConvert
begin

text \<open>
  Arithmetic and comparisons of JavaScript that the components share: \<open>/\<close> on BigInt (it
  truncates towards zero and throws on a zero divisor), \<open><\<close> on numbers with NaN and the
  infinities, and \<open>Number.isInteger\<close>.
\<close>

section \<open>BigInt division\<close>

definition bigint_quot :: "int \<Rightarrow> int \<Rightarrow> int" where
  "bigint_quot a b = (if (a < 0) = (b < 0) then \<bar>a\<bar> div \<bar>b\<bar> else - (\<bar>a\<bar> div \<bar>b\<bar>))"

definition bigint_div :: "int \<Rightarrow> int \<Rightarrow> int js" where
  "bigint_div a b = (if b = 0 then Inl RangeErr else Inr (bigint_quot a b))"

lemma bigint_quot_nonneg [simp]: "0 \<le> a \<Longrightarrow> 0 \<le> b \<Longrightarrow> bigint_quot a b = a div b"
  by (simp add: bigint_quot_def)

lemma bigint_div_pos [simp]: "0 \<le> a \<Longrightarrow> 0 < b \<Longrightarrow> bigint_div a b = Inr (a div b)"
  by (simp add: bigint_div_def)

lemma scaled_div_le:
  fixes a b c :: int
  assumes "0 \<le> a" "0 \<le> b" "b \<le> c" "0 < c"
  shows "a * b div c \<le> a"
proof -
  have "a * b \<le> a * c" using assms by (simp add: mult_left_mono)
  then have "a * b div c \<le> a * c div c" using assms(4) by (rule zdiv_mono1)
  then show ?thesis using assms(4) by simp
qed

lemma scaled_div_ge0:
  fixes a b c :: int
  shows "0 \<le> a \<Longrightarrow> 0 \<le> b \<Longrightarrow> 0 < c \<Longrightarrow> 0 \<le> a * b div c"
  by (simp add: pos_imp_zdiv_nonneg_iff)

lemma scaled_div_mono:
  fixes a b b' c :: int
  shows "0 \<le> a \<Longrightarrow> b \<le> b' \<Longrightarrow> 0 < c \<Longrightarrow> a * b div c \<le> a * b' div c"
  by (simp add: mult_left_mono zdiv_mono1)

section \<open>Comparing numbers\<close>

fun num_lt :: "jsnum \<Rightarrow> jsnum \<Rightarrow> bool" where
  "num_lt (Fin a) (Fin b) = (a < b)"
| "num_lt (Fin _) (Infinity neg) = (\<not> neg)"
| "num_lt (Infinity neg) (Fin _) = neg"
| "num_lt (Infinity neg) (Infinity neg') = (neg \<and> \<not> neg')"
| "num_lt NaN _ = False"
| "num_lt _ NaN = False"

definition num_le :: "jsnum \<Rightarrow> jsnum \<Rightarrow> bool" where
  "num_le a b = (num_lt a b \<or> (a = b \<and> a \<noteq> NaN))"

lemma not_num_lt_NaN [simp]: "\<not> num_lt a NaN"
  by (cases a) simp_all

lemma num_le_simps [simp]: "num_le (Fin a) (Fin b) = (a \<le> b)" "\<not> num_le NaN x" "\<not> num_le x NaN"
  by (cases x; auto simp: num_le_def)+

text \<open>\<open>Number.isInteger\<close>\<close>

definition num_isInteger :: "jsnum \<Rightarrow> bool" where
  "num_isInteger n = (case n of Fin q \<Rightarrow> is_integer q | _ \<Rightarrow> False)"

lemma num_isInteger_iff: "num_isInteger n \<longleftrightarrow> (\<exists>i. n = Fin (of_int i))"
proof (cases n)
  case (Fin q)
  then show ?thesis by (auto simp: num_isInteger_def is_integer_iff intro: exI [of _ "\<lfloor>q\<rfloor>"])
qed (auto simp: num_isInteger_def)


section \<open>Division of numbers\<close>

text \<open>\<open>a / b\<close> for finite numbers and a non-zero divisor: the quotient, rounded.\<close>

definition num_quot :: "rat \<Rightarrow> rat \<Rightarrow> jsnum" where
  "num_quot a b = to_double (a / b)"

definition num_floor :: "jsnum \<Rightarrow> jsnum" where
  "num_floor n = (case n of Fin q \<Rightarrow> Fin (of_int \<lfloor>q\<rfloor>) | _ \<Rightarrow> n)"

lemma num_floor_Fin [simp]: "num_floor (Fin q) = Fin (of_int \<lfloor>q\<rfloor>)"
  by (simp add: num_floor_def)

text \<open>How far rounding can move a number: it never crosses an integer, and below \<open>2 ^ m\<close> it moves
  by at most \<open>2 ^ (m - 54)\<close>.\<close>

lemma bitlen_bounds: "0 < n \<Longrightarrow> 2 ^ (bitlen_nat n - 1) \<le> n \<and> n < 2 ^ bitlen_nat n"
proof (induction n rule: bitlen_nat.induct)
  case (1 n)
  show ?case
  proof (cases "n div 2 = 0")
    case True
    then have "n = 1" using 1 by linarith
    then show ?thesis by (simp add: bitlen_nat.simps)
  next
    case False
    then have ih: "2 ^ (bitlen_nat (n div 2) - 1) \<le> n div 2" "n div 2 < 2 ^ bitlen_nat (n div 2)"
      using 1 by simp_all
    have "0 < bitlen_nat (n div 2)" using False by (simp add: bitlen_nat.simps [of "n div 2"])
    then have "(2::nat) ^ bitlen_nat (n div 2) = 2 * 2 ^ (bitlen_nat (n div 2) - 1)"
      by (metis One_nat_def Suc_pred power_Suc)
    moreover have "bitlen_nat n = Suc (bitlen_nat (n div 2))"
      using 1 by (simp add: bitlen_nat.simps [of n])
    ultimately show ?thesis using ih by (simp, linarith)
  qed
qed

lemma pow2_add: "pow2 (a + b) = pow2 a * pow2 b"
proof -
  have p: "pow2 e = 2 powi e" for e
    by (simp add: pow2_def power_int_def field_simps)
  show ?thesis by (simp add: p power_int_add)
qed

lemma pow2_mono: "a \<le> b \<Longrightarrow> pow2 a \<le> pow2 b"
  using pow2_add [of a "b - a"] pow2_ge_1 [of "b - a"] by simp

lemma pow2_less_iff: "pow2 a < pow2 b \<Longrightarrow> a < b"
  using pow2_mono [of b a] by (meson not_le)

lemma pow2_bin_exponent_le:
  assumes "0 < q"
  shows "pow2 (bin_exponent q) \<le> q"
proof -
  obtain a b where ab: "quotient_of q = (a, b)" by (cases "quotient_of q")
  have b: "0 < b" using ab by (rule quotient_of_denom_pos)
  have q: "q = of_int a / of_int b" using ab by (rule quotient_of_div)
  then have a: "0 < a" using assms b by (simp add: zero_less_divide_iff)
  let ?k = "int (bitlen_nat (nat a)) - int (bitlen_nat (nat b))"
  have "bin_exponent q = (if pow2 ?k \<le> q then ?k else ?k - 1)"
    by (simp add: bin_exponent_def ab Let_def)
  moreover have "pow2 (?k - 1) \<le> q"
  proof -
    have "2 ^ (bitlen_nat (nat a) - 1) \<le> nat a" "nat b < 2 ^ bitlen_nat (nat b)"
      using bitlen_bounds [of "nat a"] bitlen_bounds [of "nat b"] a b by auto
    then have "rat_of_nat (2 ^ (bitlen_nat (nat a) - 1)) \<le> of_nat (nat a)"
      "rat_of_nat (nat b) \<le> of_nat (2 ^ bitlen_nat (nat b))"
      by (simp_all only: of_nat_le_iff)
    then have le: "2 ^ (bitlen_nat (nat a) - 1) \<le> rat_of_int a" "rat_of_int b \<le> 2 ^ bitlen_nat (nat b)"
      using a b by simp_all
    have "0 < bitlen_nat (nat a)" using a by (simp add: bitlen_nat.simps [of "nat a"])
    then have e: "?k - 1 = int (bitlen_nat (nat a) - 1) + - int (bitlen_nat (nat b))" by simp
    have "pow2 (?k - 1) = 2 ^ (bitlen_nat (nat a) - 1) / 2 ^ bitlen_nat (nat b)"
      unfolding e pow2_add by (simp add: pow2_def)
    also have "\<dots> \<le> rat_of_int a / rat_of_int b"
      using le a b by (intro frac_le) simp_all
    finally show ?thesis using q by simp
  qed
  ultimately show ?thesis by auto
qed

lemma bin_exponent_less: "0 < q \<Longrightarrow> q < pow2 k \<Longrightarrow> bin_exponent q < k"
  by (meson le_less_trans pow2_bin_exponent_le pow2_less_iff)

lemma less_pow2_bin_exponent:
  assumes "0 < q"
  shows "q < pow2 (bin_exponent q + 1)"
proof -
  obtain a b where ab: "quotient_of q = (a, b)" by (cases "quotient_of q")
  have b: "0 < b" using ab by (rule quotient_of_denom_pos)
  have q: "q = of_int a / of_int b" using ab by (rule quotient_of_div)
  then have a: "0 < a" using assms b by (simp add: zero_less_divide_iff)
  let ?k = "int (bitlen_nat (nat a)) - int (bitlen_nat (nat b))"
  have "2 ^ (bitlen_nat (nat b) - 1) \<le> nat b" "nat a < 2 ^ bitlen_nat (nat a)"
    using bitlen_bounds [of "nat a"] bitlen_bounds [of "nat b"] a b by auto
  then have "rat_of_nat (2 ^ (bitlen_nat (nat b) - 1)) \<le> of_nat (nat b)" "rat_of_nat (nat a) < of_nat (2 ^ bitlen_nat (nat a))"
    by (simp_all only: of_nat_le_iff of_nat_less_iff)
  then have le: "2 ^ (bitlen_nat (nat b) - 1) \<le> rat_of_int b" "rat_of_int a < 2 ^ bitlen_nat (nat a)"
    using a b by simp_all
  have "0 < bitlen_nat (nat b)" using b by (simp add: bitlen_nat.simps [of "nat b"])
  then obtain c where c: "bitlen_nat (nat b) = Suc c" by (cases "bitlen_nat (nat b)") simp_all
  have e: "?k + 1 = int (bitlen_nat (nat a)) + - int c" by (simp add: c)
  have "q < 2 ^ bitlen_nat (nat a) / 2 ^ (bitlen_nat (nat b) - 1)"
    unfolding q using le a b by (intro frac_less) simp_all
  also have "\<dots> = pow2 (?k + 1)" unfolding e pow2_add by (simp add: pow2_def c)
  finally have "q < pow2 (?k + 1)" .
  moreover have "bin_exponent q = (if pow2 ?k \<le> q then ?k else ?k - 1)"
    by (simp add: bin_exponent_def ab Let_def)
  ultimately show ?thesis by (auto simp: not_le)
qed

lemma bin_exponent_eq: "pow2 k \<le> q \<Longrightarrow> q < pow2 (k + 1) \<Longrightarrow> bin_exponent q = k"
  using less_pow2_bin_exponent [of q] pow2_bin_exponent_le [of q] pow2_less_iff pow2_nonzero(2) [of k]
  by (smt (verit, best) less_le_trans le_less_trans)

lemma to_double_by_exponent:
  assumes "0 < q" "bin_exponent q = e + 52" "- 1074 \<le> e" "of_int (round_half_even (q / pow2 e)) * pow2 e = r" "\<bar>r\<bar> < 2 ^ 1024"
  shows "to_double q = Fin r"
  using assms by (auto simp: to_double_def Let_def)

text \<open>From 2^53 on the numbers are even: 2^53 is one, and its sum with 1 is rounded back to it.\<close>

lemma to_double_2_53: "to_double (2 ^ 53) = Fin (2 ^ 53)" "to_double (2 ^ 53 + 1) = Fin (2 ^ 53)"
proof -
  have e: "bin_exponent (2 ^ 53) = 1 + 52" "bin_exponent (2 ^ 53 + 1) = 1 + 52"
    using bin_exponent_eq [of 53 "2 ^ 53"] bin_exponent_eq [of 53 "2 ^ 53 + 1"] by (simp_all add: pow2_def)
  have big: "\<bar>(2 ^ 53 :: rat)\<bar> < 2 ^ 1024"
    using power_strict_increasing [of 53 1024 "2 :: rat"] by simp
  have "\<lfloor>(2 ^ 53 / pow2 1 :: rat)\<rfloor> = 2 ^ 52" "\<lfloor>((2 ^ 53 + 1) / pow2 1 :: rat)\<rfloor> = 2 ^ 52"
    by (intro floor_unique; simp add: pow2_def)+
  then have "round_half_even (2 ^ 53 / pow2 1) = 2 ^ 52" "round_half_even ((2 ^ 53 + 1) / pow2 1) = 2 ^ 52"
    by (simp_all add: round_half_even_def pow2_def)
  then have "rat_of_int (round_half_even (2 ^ 53 / pow2 1)) * pow2 1 = 2 ^ 53"
    "rat_of_int (round_half_even ((2 ^ 53 + 1) / pow2 1)) * pow2 1 = 2 ^ 53"
    by (simp_all add: pow2_def)
  then show "to_double (2 ^ 53) = Fin (2 ^ 53)" "to_double (2 ^ 53 + 1) = Fin (2 ^ 53)"
    using to_double_by_exponent [OF _ e(1) _ _ big] to_double_by_exponent [OF _ e(2) _ _ big] by simp_all
qed

lemma round_half_even_error: "\<bar>of_int (round_half_even x) - x\<bar> \<le> 1 / 2"
proof -
  have "of_int \<lfloor>x\<rfloor> \<le> x" "x < of_int \<lfloor>x\<rfloor> + 1" by linarith+
  then show ?thesis by (auto simp: round_half_even_def Let_def abs_le_iff)
qed

lemma round_half_even_mono_int:
  "of_int k \<le> x \<Longrightarrow> k \<le> round_half_even x" "x \<le> of_int k \<Longrightarrow> round_half_even x \<le> k"
proof -
  assume "of_int k \<le> x"
  then have "k \<le> \<lfloor>x\<rfloor>" by (simp add: le_floor_iff)
  then show "k \<le> round_half_even x" by (auto simp: round_half_even_def Let_def)
next
  assume x: "x \<le> of_int k"
  show "round_half_even x \<le> k"
  proof (cases "x = of_int \<lfloor>x\<rfloor>")
    case True
    then have "round_half_even x = \<lfloor>x\<rfloor>" by (metis round_half_even_int)
    then show ?thesis using x by linarith
  next
    case False
    then have "\<lfloor>x\<rfloor> + 1 \<le> k" using x by linarith
    then show ?thesis by (auto simp: round_half_even_def Let_def)
  qed
qed

lemma to_double_near:
  assumes "0 < q" "q < pow2 m" "m \<le> 53"
  obtains r where "to_double q = Fin r" "\<bar>r - q\<bar> \<le> pow2 (max m (- 1021) - 54)"
    "\<And>k. of_int k \<le> q \<Longrightarrow> of_int k \<le> r" "\<And>k. q \<le> of_int k \<Longrightarrow> r \<le> of_int k"
proof -
  define e where "e = max (bin_exponent q) (- 1022) - 52"
  define r where "r = of_int (round_half_even (q / pow2 e)) * pow2 e"
  have e: "e \<le> max m (- 1021) - 53"
    using bin_exponent_less [of q m] assms by (simp add: e_def)
  then have e0: "e \<le> 0" using assms(3) by simp
  have int: "of_int k / pow2 e = of_int (k * 2 ^ nat (- e))" for k :: int
    using e0 by (cases "e = 0") (simp_all add: pow2_def)
  have lo: "of_int k \<le> r" if "of_int k \<le> q" for k
  proof -
    have "of_int (k * 2 ^ nat (- e)) \<le> q / pow2 e"
      using that unfolding int [symmetric] by (simp add: divide_right_mono less_imp_le)
    then have "k * 2 ^ nat (- e) \<le> round_half_even (q / pow2 e)" by (rule round_half_even_mono_int)
    then have "of_int k / pow2 e \<le> of_int (round_half_even (q / pow2 e))"
      unfolding int by (simp only: of_int_le_iff)
    then show ?thesis by (simp add: r_def pos_divide_le_eq)
  qed
  have hi: "r \<le> of_int k" if "q \<le> of_int k" for k
  proof -
    have "q / pow2 e \<le> of_int (k * 2 ^ nat (- e))"
      using that unfolding int [symmetric] by (simp add: divide_right_mono less_imp_le)
    then have "round_half_even (q / pow2 e) \<le> k * 2 ^ nat (- e)" by (rule round_half_even_mono_int)
    then have "of_int (round_half_even (q / pow2 e)) \<le> of_int k / pow2 e"
      unfolding int by (simp only: of_int_le_iff)
    then show ?thesis by (simp add: r_def pos_le_divide_eq)
  qed
  have "r - q = (of_int (round_half_even (q / pow2 e)) - q / pow2 e) * pow2 e"
    by (simp add: r_def algebra_simps)
  then have "\<bar>r - q\<bar> \<le> 1 / 2 * pow2 e"
    using mult_right_mono [OF round_half_even_error [of "q / pow2 e"] less_imp_le [OF pow2_nonzero(2)]]
    by (simp only: abs_mult abs_of_pos pow2_nonzero)
  also have "\<dots> \<le> 1 / 2 * pow2 (max m (- 1021) - 53)" using pow2_mono [OF e] by simp
  also have "\<dots> = pow2 (max m (- 1021) - 54)"
    using pow2_add [of "max m (- 1021) - 54" 1] by (simp add: pow2_def [of 1])
  finally have near: "\<bar>r - q\<bar> \<le> pow2 (max m (- 1021) - 54)" .
  have "q \<le> of_int (2 ^ 53)"
    using assms pow2_mono [OF assms(3)] by (simp add: pow2_def [of 53])
  then have "r \<le> of_int (2 ^ 53)" by (rule hi)
  also have "\<dots> < 2 ^ 1024" unfolding of_int_power of_int_numeral by (rule power_strict_increasing) simp_all
  finally have "r < 2 ^ 1024" .
  moreover have "0 \<le> r" using lo [of 0] assms(1) by simp
  ultimately have "to_double q = Fin r"
    using assms(1)
    unfolding to_double_def abs_of_pos [OF assms(1)] Let_def e_def [symmetric] r_def [symmetric]
    by simp
  then show thesis using near lo hi by (rule that)
qed

text \<open>Between two integers at most \<open>N\<close> rounding stays between them.\<close>

lemma to_double_between:
  assumes "of_int a \<le> q" "q \<le> of_int b" "0 \<le> a" "b < 2 ^ 53"
  obtains r where "to_double q = Fin r" "of_int a \<le> r" "r \<le> of_int b"
proof (cases "q = 0")
  case True
  then show ?thesis using assms by (auto simp: to_double_def intro: that)
next
  case False
  have "0 \<le> rat_of_int a" using assms(3) by simp
  then have "0 < q" using False assms(1) by simp
  moreover have "rat_of_int b < 2 ^ 53"
    using assms(4) by (metis of_int_less_iff of_int_numeral of_int_power)
  then have "q < pow2 53" using assms(2) by (simp add: pow2_def)
  ultimately show ?thesis
    by (rule to_double_near [OF _ _ order_refl]) (use assms that in blast)
qed

text \<open>The floor of a rounded quotient is the floor of the quotient, when the quotient is below
  \<open>2 ^ 14\<close> and the divisor at most \<open>2 ^ 39\<close>.\<close>

lemma floor_to_double_quot:
  assumes "0 < n" "n \<le> 2 ^ 39" "a < 2 ^ 14 * n"
  shows "\<exists>r. to_double (of_nat a / of_nat n) = Fin r \<and> \<lfloor>r\<rfloor> = int (a div n)"
proof (cases "a = 0")
  case True
  then show ?thesis by (simp add: to_double_def)
next
  case False
  let ?q = "rat_of_nat a / of_nat n"
  have "rat_of_nat a < of_nat (2 ^ 14 * n)" using assms(3) by (simp only: of_nat_less_iff)
  then have lt: "?q < pow2 14" using assms(1) by (simp add: pow2_def pos_divide_less_eq)
  have pos: "0 < ?q" using False assms(1) by simp
  obtain r where r: "to_double ?q = Fin r" "\<bar>r - ?q\<bar> \<le> pow2 (max 14 (- 1021) - 54)"
      "\<And>k. of_int k \<le> ?q \<Longrightarrow> of_int k \<le> r"
    by (rule to_double_near [OF pos lt]) (simp, blast)
  have fl: "\<lfloor>?q\<rfloor> = int (a div n)" by (simp add: floor_divide_of_nat_eq)
  have "of_int (int (a div n)) \<le> ?q" using fl by linarith
  then have lo: "of_int (int (a div n)) \<le> r" by (rule r)
  have "a + 1 \<le> (a div n + 1) * n"
    using dividend_less_div_times [OF assms(1), of a] by simp
  then have "rat_of_nat (a + 1) \<le> of_nat ((a div n + 1) * n)" by (simp only: of_nat_le_iff)
  then have "(rat_of_nat a + 1) / of_nat n \<le> of_nat (a div n) + 1"
    using assms(1) by (simp add: pos_divide_le_eq algebra_simps)
  then have gap: "?q + 1 / of_nat n \<le> of_nat (a div n) + 1" by (simp add: add_divide_distrib)
  have "rat_of_nat n \<le> of_nat (2 ^ 39)" using assms(2) by (simp only: of_nat_le_iff)
  then have "1 / 2 ^ 39 \<le> 1 / rat_of_nat n" using assms(1) by (intro divide_left_mono) simp_all
  moreover have "pow2 (max 14 (- 1021) - 54) = 1 / 2 ^ 40" by (simp add: pow2_def)
  ultimately have "r < of_nat (a div n) + 1" using gap r(2) by (simp add: abs_le_iff)
  then have "\<lfloor>r\<rfloor> = int (a div n)" using lo by (intro floor_unique) simp_all
  then show ?thesis using r(1) by blast
qed

section \<open>Addition of numbers\<close>

text \<open>\<open>a + b\<close> for finite numbers.\<close>

fun num_add :: "jsnum \<Rightarrow> jsnum \<Rightarrow> jsnum" where
  "num_add (Fin a) (Fin b) = to_double (a + b)"
| "num_add (Infinity x) (Fin _) = Infinity x"
| "num_add (Fin _) (Infinity x) = Infinity x"
| "num_add (Infinity x) (Infinity y) = (if x = y then Infinity x else NaN)"
| "num_add NaN _ = NaN"
| "num_add _ NaN = NaN"

definition num_times :: "jsnum \<Rightarrow> jsnum \<Rightarrow> jsnum" where
  "num_times a b =
     (case (a, b) of
        (Fin x, Fin y) \<Rightarrow> to_double (x * y)
      | (Infinity s, Fin y) \<Rightarrow> if y = 0 then NaN else Infinity (s \<noteq> (y < 0))
      | _ \<Rightarrow> NaN)"

lemma num_times_int: "\<bar>a * b\<bar> < 2 ^ 53 \<Longrightarrow> num_times (Fin (of_int a)) (Fin (of_int b)) = Fin (of_int (a * b))"
  using to_double_int [of "a * b"] by (simp add: num_times_def)

lemma to_double_large:
  assumes "2 ^ 53 \<le> q" "to_double q = Fin r"
  shows "2 ^ 52 \<le> r"
proof -
  have "(0::rat) < 2 ^ 53" by simp
  then have pos: "0 < q" using assms(1) by linarith
  define e where "e = max (bin_exponent q) (- 1022) - 52"
  have r: "r = of_int (round_half_even (q / pow2 e)) * pow2 e"
    using assms(2) pos unfolding to_double_def abs_of_pos [OF pos] Let_def e_def [symmetric]
    by (simp split: if_splits)
  have "53 \<le> bin_exponent q + 1"
  proof (rule ccontr)
    assume "\<not> 53 \<le> bin_exponent q + 1"
    then have "bin_exponent q \<le> 51" by simp
    obtain a b where ab: "quotient_of q = (a, b)" by (cases "quotient_of q")
    let ?k = "int (bitlen_nat (nat a)) - int (bitlen_nat (nat b))"
    have b: "0 < b" using ab by (rule quotient_of_denom_pos)
    have q: "q = of_int a / of_int b" using ab by (rule quotient_of_div)
    then have a: "0 < a" using pos b by (simp add: zero_less_divide_iff)
    have k: "?k \<le> 52"
      using \<open>bin_exponent q \<le> 51\<close> by (auto simp: bin_exponent_def ab Let_def split: if_splits)
    have bb: "2 ^ (bitlen_nat (nat b) - 1) \<le> nat b" "nat a < 2 ^ bitlen_nat (nat a)"
      using bitlen_bounds [of "nat a"] bitlen_bounds [of "nat b"] a b by auto
    have "0 < bitlen_nat (nat b)" using b by (simp add: bitlen_nat.simps [of "nat b"])
    then have "bitlen_nat (nat a) \<le> 53 + (bitlen_nat (nat b) - 1)" using k by simp
    then have "(2::nat) ^ bitlen_nat (nat a) \<le> 2 ^ 53 * 2 ^ (bitlen_nat (nat b) - 1)"
      by (metis one_le_numeral power_add power_increasing)
    also have "\<dots> \<le> 2 ^ 53 * nat b" using bb(1) by simp
    finally have "(2::nat) ^ bitlen_nat (nat a) \<le> 2 ^ 53 * nat b" .
    with bb(2) have "nat a < 2 ^ 53 * nat b" by (rule less_le_trans)
    then have "int (nat a) < int (2 ^ 53 * nat b)" by (simp only: of_nat_less_iff)
    then have "a < 2 ^ 53 * b" using a b by simp
    then have "rat_of_int a < of_int (2 ^ 53 * b)" by (simp only: of_int_less_iff)
    then have "q < 2 ^ 53" using b by (simp add: q pos_divide_less_eq)
    then show False using assms(1) by simp
  qed
  then have e0: "0 \<le> e" by (simp add: e_def)
  have "pow2 e * 2 ^ 52 \<le> q"
  proof -
    have "pow2 e * 2 ^ 52 = pow2 (max (bin_exponent q) (- 1022))"
      using pow2_add [of e 52] by (simp add: e_def pow2_def [of 52])
    also have "max (bin_exponent q) (- 1022) = bin_exponent q" using e0 unfolding e_def by linarith
    also have "pow2 (bin_exponent q) \<le> q" using pos by (rule pow2_bin_exponent_le)
    finally show ?thesis .
  qed
  moreover have "q - pow2 e / 2 \<le> r"
  proof -
    have "q / pow2 e - 1 / 2 \<le> of_int (round_half_even (q / pow2 e))"
      using round_half_even_error [of "q / pow2 e"] unfolding abs_le_iff by linarith
    then have "(q / pow2 e - 1 / 2) * pow2 e \<le> of_int (round_half_even (q / pow2 e)) * pow2 e"
      by (rule mult_right_mono) (simp add: less_imp_le)
    then show ?thesis by (simp add: r left_diff_distrib)
  qed
  moreover have "pow2 e \<le> pow2 e * 2 ^ 52" by simp
  ultimately have "q / 2 \<le> r" by linarith
  then show ?thesis using assms(1) by simp
qed

lemma to_double_int_eq_small:
  assumes "0 \<le> n" "0 \<le> k" "k < 2 ^ 52"
  shows "to_double (of_int n) = Fin (of_int k) \<longleftrightarrow> n = k"
proof (cases "n < 2 ^ 53")
  case True
  then show ?thesis using to_double_int [of n] assms by simp
next
  case False
  then have "rat_of_int (2 ^ 53) \<le> of_int n" by (simp only: of_int_le_iff not_less)
  then have "2 ^ 52 \<le> r" if "to_double (of_int n) = Fin r" for r
    using to_double_large [OF _ that] by simp
  moreover have "rat_of_int k < of_int (2 ^ 52)" using assms(3) by (simp only: of_int_less_iff)
  ultimately show ?thesis using False assms by fastforce
qed

end
