(* ===== verification/IndexerStore.thy ===== *)
theory IndexerStore
  imports Types Json JsArith "HOL-Library.List_Lexorder" "HOL-Library.Char_ord" "HOL-Library.Multiset"
begin

text \<open>
  apps/server/src/services/indexer.ts, first part: the escrow record, its JSON text, the three
  SQLite tables and the \<open>EscrowCache\<close> that reads and writes them. Times of day and the order
  SQLite gives rows with equal \<open>updated_at\<close> are parameters. A stored milestone id is a number
  or \<open>null\<close> (what JSON makes of NaN). The members of a stored object are written in one fixed
  order; a text whose other fields do not have their declared types is not modelled (\<open>Inl\<close>), the
  program never writes one.
\<close>

section \<open>Records\<close>

datatype escrow_role = Funder | Recipient | Arbitrator

fun role_text :: "escrow_role \<Rightarrow> string" where
  "role_text Funder = ''funder''"
| "role_text Recipient = ''recipient''"
| "role_text Arbitrator = ''arbitrator''"

type_synonym stored_milestone = "jsnum option milestone"

record indexed_escrow =
  ie_id :: string
  ie_address :: string
  ie_role :: escrow_role
  ie_state :: escrow_state
  ie_config :: escrow_config
  ie_milestones :: "stored_milestone list"
  ie_lockedBalance :: int
  ie_updatedAt :: string

definition roleFor :: "string \<Rightarrow> indexed_escrow \<Rightarrow> escrow_role" where
  "roleFor address escrow =
     (if address = cfg_recipient (ie_config escrow) then Recipient
      else if address = cfg_arbitrator (ie_config escrow) then Arbitrator
      else Funder)"

section \<open>JSON of an escrow\<close>

definition opt_str :: "string option \<Rightarrow> jsval" where
  "opt_str x = (case x of Some s \<Rightarrow> Str s | None \<Rightarrow> Undefined)"

definition stored_milestone_object :: "stored_milestone \<Rightarrow> jsval" where
  "stored_milestone_object m =
     Obj [(''milestoneId'', case milestoneId m of Some n \<Rightarrow> Num n | None \<Rightarrow> Null),
          (''payoutAmount'', Str (int_dec (payoutAmount m))),
          (''descriptionHash'', Str (descriptionHash m)),
          (''isApproved'', Bool (isApproved m)),
          (''completedAt'', Str (int_dec (completedAt m))),
          (''status'', Str (milestone_status_text (status m))),
          (''proofHash'', opt_str (proofHash m)),
          (''submittedAt'', opt_str (map_option int_dec (submittedAt m)))]"

definition config_object :: "escrow_config \<Rightarrow> jsval" where
  "config_object c =
     Obj [(''funder'', Str (cfg_funder c)), (''recipient'', Str (cfg_recipient c)),
          (''arbitrator'', Str (cfg_arbitrator c)), (''asset'', Str (cfg_asset c)),
          (''totalAmount'', Str (int_dec (cfg_totalAmount c))),
          (''releaseThreshold'', Num (cfg_releaseThreshold c)),
          (''lockSecs'', opt_str (map_option int_dec (cfg_lockSecs c)))]"

definition escrow_object :: "indexed_escrow \<Rightarrow> jsval" where
  "escrow_object e =
     Obj [(''id'', Str (ie_id e)), (''address'', Str (ie_address e)), (''role'', Str (role_text (ie_role e))),
          (''state'', Str (escrow_state_text (ie_state e))), (''config'', config_object (ie_config e)),
          (''milestones'', Arr (map stored_milestone_object (ie_milestones e))),
          (''lockedBalance'', Str (int_dec (ie_lockedBalance e))), (''updatedAt'', Str (ie_updatedAt e))]"

definition serializeEscrow :: "indexed_escrow \<Rightarrow> string" where
  "serializeEscrow e = (case json_stringify (escrow_object e) of Inr (Some t) \<Rightarrow> t | _ \<Rightarrow> [])"

definition need_str :: "jsval \<Rightarrow> string js" where
  "need_str v = (case v of Str s \<Rightarrow> Inr s | _ \<Rightarrow> Inl TypeErr)"

definition need_num :: "jsval \<Rightarrow> jsnum js" where
  "need_num v = (case v of Num n \<Rightarrow> Inr n | _ \<Rightarrow> Inl TypeErr)"

definition need_bool :: "jsval \<Rightarrow> bool js" where
  "need_bool v = (case v of Bool b \<Rightarrow> Inr b | _ \<Rightarrow> Inl TypeErr)"

definition need_text :: "('a \<Rightarrow> string) \<Rightarrow> 'a list \<Rightarrow> jsval \<Rightarrow> 'a js" where
  "need_text txt table v =
     (case v of Str s \<Rightarrow> (case find_text txt table s of Some x \<Rightarrow> Inr x | None \<Rightarrow> Inl TypeErr) | _ \<Rightarrow> Inl TypeErr)"

text \<open>\<open>x ? BigInt(x) : undefined\<close>\<close>

definition opt_bigint :: "jsval \<Rightarrow> int option js" where
  "opt_bigint v = (if truthy v then bindR (js_bigint v) (\<lambda>n. Inr (Some n)) else Inr None)"

definition deserializeMilestone :: "jsval \<Rightarrow> stored_milestone js" where
  "deserializeMilestone m =
     bindR (case js_prop m ''milestoneId'' of Num n \<Rightarrow> Inr (Some n) | Null \<Rightarrow> Inr None | _ \<Rightarrow> Inl TypeErr) (\<lambda>mid.
     bindR (js_bigint (js_prop m ''payoutAmount'')) (\<lambda>payout.
     bindR (need_str (js_prop m ''descriptionHash'')) (\<lambda>hash.
     bindR (need_bool (js_prop m ''isApproved'')) (\<lambda>approved.
     bindR (js_bigint (js_prop m ''completedAt'')) (\<lambda>completed.
     bindR (need_text milestone_status_text [MS_Pending, MS_UnderReview, MS_Under_Review, MS_Released, MS_Disputed]
       (js_prop m ''status'')) (\<lambda>st.
     bindR (if js_prop m ''proofHash'' = Undefined then Inr None
            else bindR (need_str (js_prop m ''proofHash'')) (\<lambda>s. Inr (Some s))) (\<lambda>proof.
     bindR (opt_bigint (js_prop m ''submittedAt'')) (\<lambda>submitted.
       Inr \<lparr>milestoneId = mid, payoutAmount = payout, descriptionHash = hash, isApproved = approved,
            completedAt = completed, status = st, submittedAt = submitted, proofHash = proof\<rparr>))))))))"

definition deserializeConfig :: "jsval \<Rightarrow> escrow_config js" where
  "deserializeConfig c =
     bindR (need_str (js_prop c ''funder'')) (\<lambda>funder.
     bindR (need_str (js_prop c ''recipient'')) (\<lambda>recipient.
     bindR (need_str (js_prop c ''arbitrator'')) (\<lambda>arbitrator.
     bindR (need_str (js_prop c ''asset'')) (\<lambda>asset.
     bindR (js_bigint (js_prop c ''totalAmount'')) (\<lambda>tot.
     bindR (need_num (js_prop c ''releaseThreshold'')) (\<lambda>threshold.
     bindR (opt_bigint (js_prop c ''lockSecs'')) (\<lambda>lock.
       Inr \<lparr>cfg_funder = funder, cfg_recipient = recipient, cfg_arbitrator = arbitrator, cfg_asset = asset,
            cfg_totalAmount = tot, cfg_releaseThreshold = threshold, cfg_lockSecs = lock\<rparr>)))))))"

definition deserializeEscrow :: "string \<Rightarrow> string \<Rightarrow> indexed_escrow js" where
  "deserializeEscrow rowId payload =
     bindR (json_parse payload) (\<lambda>parsed.
     bindR (need_str (coalesce (js_prop parsed ''address'') (Str rowId))) (\<lambda>address.
     bindR (need_text role_text [Funder, Recipient, Arbitrator] (js_prop parsed ''role'')) (\<lambda>role.
     bindR (need_text escrow_state_text ESCROW_STATE_BY_VALUE (js_prop parsed ''state'')) (\<lambda>st.
     bindR (js_bigint (js_prop parsed ''lockedBalance'')) (\<lambda>locked.
     bindR (deserializeConfig (js_prop parsed ''config'')) (\<lambda>config.
     bindR (case js_prop parsed ''milestones'' of Arr ms \<Rightarrow> mapR deserializeMilestone ms | _ \<Rightarrow> Inl TypeErr) (\<lambda>ms.
     bindR (need_str (js_prop parsed ''updatedAt'')) (\<lambda>updated.
       Inr \<lparr>ie_id = rowId, ie_address = address, ie_role = role, ie_state = st, ie_config = config,
            ie_milestones = ms, ie_lockedBalance = locked, ie_updatedAt = updated\<rparr>))))))))"

text \<open>The escrows whose numbers JSON keeps: milestone ids and threshold are safe integers.\<close>

definition safe_num :: "jsnum \<Rightarrow> bool" where
  "safe_num n = (\<exists>i. n = Fin (of_int i) \<and> \<bar>i\<bar> < 2 ^ 53)"

definition milestone_storable :: "stored_milestone \<Rightarrow> bool" where
  "milestone_storable m = pred_option safe_num (milestoneId m)"

definition escrow_storable :: "indexed_escrow \<Rightarrow> bool" where
  "escrow_storable e \<longleftrightarrow> safe_num (cfg_releaseThreshold (ie_config e)) \<and> list_all milestone_storable (ie_milestones e)"

lemma find_text_inj:
  "(\<And>a b. txt a = txt b \<Longrightarrow> a = b) \<Longrightarrow> x \<in> set table \<Longrightarrow> find_text txt table (txt x) = Some x"
  unfolding find_text_def by (induction table) auto

lemma need_text_status:
  "need_text milestone_status_text [MS_Pending, MS_UnderReview, MS_Under_Review, MS_Released, MS_Disputed]
     (Str (milestone_status_text x)) = Inr x"
  by (cases x) (simp_all add: need_text_def find_text_def)

lemma need_text_state:
  "need_text escrow_state_text ESCROW_STATE_BY_VALUE (Str (escrow_state_text x)) = Inr x"
  by (cases x) (simp_all add: need_text_def find_text_def ESCROW_STATE_BY_VALUE_def)

lemma need_text_role: "need_text role_text [Funder, Recipient, Arbitrator] (Str (role_text x)) = Inr x"
  by (cases x) (simp_all add: need_text_def find_text_def)

lemma opt_bigint_simps [simp]:
  "opt_bigint Undefined = Inr None" "opt_bigint (Str (int_dec n)) = Inr (Some n)"
  by (simp_all add: opt_bigint_def)

lemma need_simps [simp]: "need_str (Str s) = Inr s" "need_num (Num n) = Inr n" "need_bool (Bool b) = Inr b"
  by (simp_all add: need_str_def need_num_def need_bool_def)

lemma deserialize_milestone_object:
  "deserializeMilestone (json_strip (stored_milestone_object m)) = Inr m"
  by (cases "milestoneId m"; cases "proofHash m"; cases "submittedAt m")
     (simp_all add: stored_milestone_object_def deserializeMilestone_def need_text_status opt_str_def
       del: js_bigint.simps)

lemma deserialize_config_object: "deserializeConfig (json_strip (config_object c)) = Inr c"
  by (cases "cfg_lockSecs c")
     (simp_all add: config_object_def deserializeConfig_def opt_str_def del: js_bigint.simps)

lemma milestone_object_plain: "milestone_storable m \<Longrightarrow> json_plain (stored_milestone_object m)"
  by (cases "milestoneId m"; cases "proofHash m"; cases "submittedAt m")
     (auto simp: stored_milestone_object_def milestone_storable_def safe_num_def opt_str_def)

lemma config_object_plain: "safe_num (cfg_releaseThreshold c) \<Longrightarrow> json_plain (config_object c)"
  by (cases "cfg_lockSecs c") (auto simp: config_object_def safe_num_def opt_str_def)

lemma escrow_object_plain: "escrow_storable e \<Longrightarrow> json_plain (escrow_object e)"
  by (auto simp: escrow_object_def escrow_storable_def config_object_plain json_plain_elems_all list_all_iff
      milestone_object_plain)

lemma deserialize_serialize:
  assumes "escrow_storable e"
  shows "deserializeEscrow k (serializeEscrow e) = Inr (e\<lparr>ie_id := k\<rparr>)"
proof -
  have "mapR deserializeMilestone (map json_strip (map stored_milestone_object ms)) = Inr ms" for ms
    by (induction ms) (simp_all add: deserialize_milestone_object)
  moreover obtain t where "json_stringify (escrow_object e) = Inr (Some t)" "json_parse t = Inr (json_strip (escrow_object e))"
    using json_roundtrip [OF escrow_object_plain [OF assms]] by blast
  moreover have "config_object c \<noteq> Undefined" for c by (simp add: config_object_def)
  ultimately show ?thesis
    by (simp add: serializeEscrow_def deserializeEscrow_def escrow_object_def json_strip_elems_map
        deserialize_config_object need_text_role need_text_state del: js_bigint.simps map_map)
qed

text \<open>Serialisation never throws: the default in \<open>serializeEscrow\<close> is never taken.\<close>

lemma opt_str_text: "\<exists>t. json_stringify (opt_str x) = Inr t"
  by (cases x) (simp_all add: opt_str_def)

lemma milestone_object_text: "\<exists>t. json_stringify (stored_milestone_object m) = Inr (Some t)"
  using opt_str_text [of "proofHash m"] opt_str_text [of "map_option int_dec (submittedAt m)"]
  by (cases "milestoneId m") (auto simp: stored_milestone_object_def)

lemma escrow_object_text: "\<exists>t. json_stringify (escrow_object e) = Inr (Some t)"
proof -
  have "\<exists>ts. json_elems (map stored_milestone_object ms) = Inr ts" for ms
  proof (induction ms)
    case (Cons m ms)
    then show ?case using milestone_object_text [of m] by auto
  qed simp
  then show ?thesis
    using opt_str_text [of "map_option int_dec (cfg_lockSecs (ie_config e))"]
    by (auto simp: escrow_object_def config_object_def)
      (metis bindR_simps(2))
qed

section \<open>The tables\<close>

record escrow_row =
  er_id :: string
  er_state :: string
  er_funder :: string
  er_recipient :: string
  er_arbitrator :: string
  er_asset :: string
  er_total_amount :: string
  er_locked_balance :: string
  er_release_threshold :: jsnum
  er_payload :: string
  er_updated_at :: string

record timeline_row =
  tr_id :: nat
  tr_escrow_id :: string
  tr_topic :: string
  tr_ledger :: "jsnum option"
  tr_tx_hash :: "string option"
  tr_payload :: string
  tr_created_at :: string

text \<open>\<open>db_seq\<close> is the last id AUTOINCREMENT gave out.\<close>

record indexer_db =
  db_escrows :: "(string, escrow_row) jsmap"
  db_timeline :: "timeline_row list"
  db_seq :: nat
  db_meta :: "(string, string) jsmap"

definition empty_db :: indexer_db where
  "empty_db = \<lparr>db_escrows = [], db_timeline = [], db_seq = 0, db_meta = []\<rparr>"

definition escrow_row_of :: "indexed_escrow \<Rightarrow> escrow_row" where
  "escrow_row_of e =
     \<lparr>er_id = ie_id e, er_state = escrow_state_text (ie_state e), er_funder = cfg_funder (ie_config e),
      er_recipient = cfg_recipient (ie_config e), er_arbitrator = cfg_arbitrator (ie_config e),
      er_asset = cfg_asset (ie_config e), er_total_amount = int_dec (cfg_totalAmount (ie_config e)),
      er_locked_balance = int_dec (ie_lockedBalance e), er_release_threshold = cfg_releaseThreshold (ie_config e),
      er_payload = serializeEscrow e, er_updated_at = ie_updatedAt e\<rparr>"

definition deserialize_row :: "escrow_row \<Rightarrow> indexed_escrow js" where
  "deserialize_row row = deserializeEscrow (er_id row) (er_payload row)"

definition cache_upsert :: "indexed_escrow \<Rightarrow> indexer_db \<Rightarrow> indexer_db" where
  "cache_upsert e db = db\<lparr>db_escrows := jm_set (ie_id e) (escrow_row_of e) (db_escrows db)\<rparr>"

definition cache_get :: "string \<Rightarrow> indexer_db \<Rightarrow> indexed_escrow option js" where
  "cache_get k db =
     (case jm_get k (db_escrows db) of
        None \<Rightarrow> Inr None
      | Some row \<Rightarrow> bindR (deserialize_row row) (\<lambda>e. Inr (Some e)))"

definition seedMilestone :: "nat \<Rightarrow> int \<Rightarrow> milestone_status \<Rightarrow> string option \<Rightarrow> stored_milestone" where
  "seedMilestone k amount st proof =
     \<lparr>milestoneId = Some (Fin (of_nat k)), payoutAmount = amount,
      descriptionHash = take 64 (concat (replicate 32 (CHR ''0'' # nat_radix 10 k))),
      isApproved = (st = MS_Released), completedAt = (if st = MS_Released then 1700000000 else 0),
      status = st, submittedAt = None, proofHash = proof\<rparr>"

definition seedEscrow :: "string \<Rightarrow> indexed_escrow" where
  "seedEscrow now =
     \<lparr>ie_id = ''demo-escrow'', ie_address = ''demo-escrow'', ie_role = Funder, ie_state = ES_Active,
      ie_config = \<lparr>cfg_funder = ''GASCSEEDFUNDERAAAAAAAAAAAAAAAAAAAAAAAAAAAAAAAAAAAAA'',
        cfg_recipient = ''GASCSEEDRECIPIENTAAAAAAAAAAAAAAAAAAAAAAAAAAAAAAAAAA'',
        cfg_arbitrator = ''GASCSEEDARBITRATORAAAAAAAAAAAAAAAAAAAAAAAAAAAAAAAA'',
        cfg_asset = ''CDLZFC3SYJYDZT7K67VZ75HPJVIEUVNIXF47ZG2FB2RMQQVU2HHGCYSC'',
        cfg_totalAmount = 4500000000, cfg_releaseThreshold = Fin 3, cfg_lockSecs = None\<rparr>,
      ie_milestones =
        [seedMilestone 1 1500000000 MS_Released None,
         seedMilestone 2 1500000000 MS_Under_Review (Some (concat (replicate 32 ''ab''))),
         seedMilestone 3 1500000000 MS_Pending None],
      ie_lockedBalance = 3000000000, ie_updatedAt = now\<rparr>"

text \<open>The constructor of \<open>EscrowCache\<close>: a table without rows gets the demo escrow.\<close>

definition new_cache :: "string \<Rightarrow> indexer_db \<Rightarrow> indexer_db" where
  "new_cache now db = (if db_escrows db = [] then cache_upsert (seedEscrow now) db else db)"

record list_query =
  lq_address :: "string option"
  lq_state :: "escrow_state option"
  lq_page :: "int option"
  lq_pageSize :: "int option"

definition query_address :: "list_query \<Rightarrow> string option" where
  "query_address q = (case lq_address q of Some a \<Rightarrow> if a \<noteq> [] then Some a else None | None \<Rightarrow> None)"

definition row_matches :: "list_query \<Rightarrow> escrow_row \<Rightarrow> bool" where
  "row_matches q row =
     ((case query_address q of
         Some a \<Rightarrow> er_id row = a \<or> er_funder row = a \<or> er_recipient row = a \<or> er_arbitrator row = a
       | None \<Rightarrow> True)
      \<and> (case lq_state q of Some st \<Rightarrow> er_state row = escrow_state_text st | None \<Rightarrow> True))"

definition clamp_page :: "int \<Rightarrow> int" where "clamp_page page = max 1 page"

definition clamp_size :: "int \<Rightarrow> int" where "clamp_size sz = min 100 (max 1 sz)"

text \<open>
  \<open>LIMIT size OFFSET (page - 1) * size\<close>: the product is a Number, bound as a double, and SQLite
  throws when it is no 64-bit integer.
\<close>

definition offset_number :: "int \<Rightarrow> int \<Rightarrow> jsnum" where
  "offset_number page sz = num_times (num_add (Fin (of_int page)) (Fin (- 1))) (Fin (of_int sz))"

definition sql_offset :: "int \<Rightarrow> int \<Rightarrow> nat js" where
  "sql_offset page sz =
     (case offset_number page sz of
        Fin q \<Rightarrow> if q < 2 ^ 63 then Inr (nat \<lfloor>q\<rfloor>) else Inl (PlainErr ''datatype mismatch'')
      | _ \<Rightarrow> Inl (PlainErr ''datatype mismatch''))"

definition page_window :: "int \<Rightarrow> int \<Rightarrow> 'a list \<Rightarrow> 'a list js" where
  "page_window page sz rows = bindR (sql_offset page sz) (\<lambda>offset. Inr (take (nat sz) (drop offset rows)))"

definition viewed_as :: "list_query \<Rightarrow> indexed_escrow \<Rightarrow> indexed_escrow" where
  "viewed_as q e =
     (case query_address q of
        Some a \<Rightarrow> e\<lparr>ie_address := a, ie_role := roleFor a e\<rparr>
      | None \<Rightarrow> e)"

type_synonym row_order = "escrow_row list \<Rightarrow> escrow_row list"

definition cache_list :: "row_order \<Rightarrow> list_query \<Rightarrow> indexer_db \<Rightarrow> (indexed_escrow list \<times> nat) js" where
  "cache_list order_by q db =
     (let page = clamp_page (or_default (lq_page q) 1);
          sz = clamp_size (or_default (lq_pageSize q) 20);
          rows = filter (row_matches q) (map snd (db_escrows db))
      in bindR (page_window page sz (order_by rows)) (\<lambda>window.
         bindR (mapR deserialize_row window) (\<lambda>es.
           Inr (map (viewed_as q) es, length rows))))"

record timeline_entry =
  te_id :: nat
  te_escrowId :: string
  te_topic :: string
  te_ledger :: "jsnum option"
  te_txHash :: "string option"
  te_payload :: jsval
  te_createdAt :: string

text \<open>\<open>appendTimeline\<close>: the entry comes without an id and gets the next one.\<close>

definition appendTimeline :: "timeline_entry \<Rightarrow> indexer_db \<Rightarrow> timeline_entry js \<times> indexer_db" where
  "appendTimeline entry db =
     (case json_stringify (te_payload entry) of
        Inl e \<Rightarrow> (Inl e, db)
      | Inr None \<Rightarrow> (Inl TypeErr, db)
      | Inr (Some t) \<Rightarrow>
          (let rid = Suc (db_seq db) in
           (Inr (entry\<lparr>te_id := rid\<rparr>),
            db\<lparr>db_seq := rid,
               db_timeline := db_timeline db @
                 [\<lparr>tr_id = rid, tr_escrow_id = te_escrowId entry, tr_topic = te_topic entry,
                   tr_ledger = te_ledger entry, tr_tx_hash = te_txHash entry, tr_payload = t,
                   tr_created_at = te_createdAt entry\<rparr>]\<rparr>)))"

definition timeline_entry_of :: "timeline_row \<Rightarrow> timeline_entry js" where
  "timeline_entry_of r =
     bindR (json_parse (tr_payload r)) (\<lambda>payload.
       Inr \<lparr>te_id = tr_id r, te_escrowId = tr_escrow_id r, te_topic = tr_topic r, te_ledger = tr_ledger r,
            te_txHash = tr_tx_hash r, te_payload = payload, te_createdAt = tr_created_at r\<rparr>)"

definition cache_timeline :: "string \<Rightarrow> int \<Rightarrow> int \<Rightarrow> indexer_db \<Rightarrow> (timeline_entry list \<times> nat) js" where
  "cache_timeline escrowId page pageSize db =
     (let rows = filter (\<lambda>r. tr_escrow_id r = escrowId) (db_timeline db) in
      bindR (page_window (clamp_page page) (clamp_size pageSize) (rev (sort_key tr_id rows))) (\<lambda>window.
      bindR (mapR timeline_entry_of window) (\<lambda>items.
        Inr (items, length rows))))"

definition setCursor :: "string \<Rightarrow> indexer_db \<Rightarrow> indexer_db" where
  "setCursor cursor db = db\<lparr>db_meta := jm_set ''cursor'' cursor (db_meta db)\<rparr>"

definition getCursor :: "indexer_db \<Rightarrow> string option" where
  "getCursor db = jm_get ''cursor'' (db_meta db)"

section \<open>The escrow table\<close>

lemma deserialize_row_of: "escrow_storable e \<Longrightarrow> deserialize_row (escrow_row_of e) = Inr e"
  by (simp add: deserialize_row_def escrow_row_of_def deserialize_serialize)

interpretation escrows: encoded_table escrow_storable escrow_row_of deserialize_row
    "[]" jm_get jm_set jm_keys jm_wf ie_id
  by unfold_locales (rule deserialize_row_of)

lemma cache_get_read: "cache_get k db = escrows.read k (db_escrows db)"
  by (simp add: cache_get_def escrows.read_def)

lemma cache_upsert_store: "db_escrows (cache_upsert e db) = escrows.store e (db_escrows db)"
  by (simp add: cache_upsert_def escrows.store_def)

definition db_sound :: "indexer_db \<Rightarrow> bool" where
  "db_sound db = escrows.sound (db_escrows db)"

lemma db_sound_upsert: "db_sound db \<Longrightarrow> escrow_storable e \<Longrightarrow> db_sound (cache_upsert e db)"
  by (simp add: db_sound_def cache_upsert_store escrows.sound_store)

lemma db_sound_empty: "db_sound empty_db"
  by (simp add: db_sound_def empty_db_def escrows.sound_empty)

lemma seed_storable: "escrow_storable (seedEscrow now)"
proof -
  have "safe_num (Fin 3)" "safe_num (Fin (of_nat 1))" "safe_num (Fin (of_nat 2))" "safe_num (Fin (of_nat 3))"
    unfolding safe_num_def
    by (rule exI [of _ 3], simp, rule exI [of _ 1], simp, rule exI [of _ 2], simp, rule exI [of _ 3], simp)
  then show ?thesis
    by (simp add: escrow_storable_def seedEscrow_def seedMilestone_def milestone_storable_def)
qed

lemma db_sound_new_cache: "db_sound db \<Longrightarrow> db_sound (new_cache now db)"
  by (simp add: new_cache_def db_sound_upsert seed_storable)

lemma cache_get_sound:
  assumes "db_sound db"
  obtains "cache_get k db = Inr None" "jm_get k (db_escrows db) = None"
  | e where "cache_get k db = Inr (Some e)" "escrow_storable e" "ie_id e = k"
proof (rule escrows.read_sound [OF assms [unfolded db_sound_def], of k])
  assume "escrows.read k (db_escrows db) = Inr None" "jm_get k (db_escrows db) = None"
  then show thesis using that(1) by (simp add: cache_get_read)
next
  fix e
  assume "escrows.read k (db_escrows db) = Inr (Some e)" "escrow_storable e" "ie_id e = k"
  then show thesis using that(2) by (simp add: cache_get_read)
qed

text \<open>What \<open>upsert\<close> wrote \<open>get\<close> reads back unchanged, through the JSON text of the payload
  column: amounts as BigInts of any size, texts of any characters, absent optional fields as
  absent, provided that ids and threshold are safe integers; other escrows are not touched.\<close>

theorem cache_get_upsert:
  assumes "db_sound db" "escrow_storable e"
  shows "cache_get k (cache_upsert e db) = (if k = ie_id e then Inr (Some e) else cache_get k db)"
  using escrows.read_store [OF assms [unfolded db_sound_def]] by (simp add: cache_get_read cache_upsert_store)

theorem cache_get_upsert_witness:
  "cache_get ''demo-escrow'' (cache_upsert (seedEscrow ''now'') empty_db) = Inr (Some (seedEscrow ''now''))
   \<and> cache_get ''other'' (cache_upsert (seedEscrow ''now'') empty_db) = Inr None"
  using cache_get_upsert [OF db_sound_empty seed_storable]
  by (simp add: seedEscrow_def cache_get_def empty_db_def)

section \<open>Pages\<close>

lemma concat_windows:
  "0 < n \<Longrightarrow> concat (map (\<lambda>i. take n (drop (i * n) xs)) [0..<k]) = take (k * n) xs"
proof (induction k)
  case (Suc k)
  then show ?case by (simp add: take_add [symmetric] add.commute)
qed simp

text \<open>An offset below 2^53 is exact.\<close>

lemma sql_offset_exact:
  assumes "1 \<le> sz" "i * nat sz < 2 ^ 53"
  shows "sql_offset (int i + 1) sz = Inr (i * nat sz)"
proof -
  have nat: "int i * sz = int (i * nat sz)" using assms(1) by simp
  have "i * 1 \<le> i * nat sz" using assms(1) by (intro mult_le_mono2) simp
  then have "i < 2 ^ 53" using assms(2) by linarith
  then have "to_double (of_int (int i)) = Fin (of_int (int i))" by (intro to_double_int) simp
  then have "num_add (Fin (of_int (int i + 1))) (Fin (- 1)) = Fin (of_int (int i))" by simp
  moreover have "int (i * nat sz) < int (2 ^ 53)" using assms(2) by (simp only: of_nat_less_iff)
  then have "\<bar>int i * sz\<bar> < 2 ^ 53" unfolding nat by (simp del: of_nat_mult)
  ultimately have "offset_number (int i + 1) sz = Fin (of_int (int (i * nat sz)))"
    unfolding offset_number_def by (simp only: num_times_int nat)
  moreover have "rat_of_nat (i * nat sz) < of_nat (2 ^ 53)" unfolding of_nat_less_iff by (rule assms(2))
  then have "rat_of_int (int (i * nat sz)) < 2 ^ 63" by (simp del: of_nat_mult)
  ultimately show ?thesis by (simp add: sql_offset_def del: of_nat_mult)
qed

lemma first_offset: "1 \<le> sz \<Longrightarrow> sql_offset 1 sz = Inr 0"
  using sql_offset_exact [of sz 0] by simp

definition sql_order :: "row_order \<Rightarrow> bool" where
  "sql_order order_by = (\<forall>rows. mset (order_by rows) = mset rows
     \<and> sorted_wrt (\<lambda>a b. er_updated_at b \<le> er_updated_at a) (order_by rows))"

definition stored_escrows :: "indexer_db \<Rightarrow> indexed_escrow list" where
  "stored_escrows db = map (\<lambda>(k, row). projr (deserialize_row row)) (db_escrows db)"

lemma sound_row:
  assumes "db_sound db" "(k, row) \<in> set (db_escrows db)"
  obtains e where "escrow_storable e" "ie_id e = k" "row = escrow_row_of e"
proof -
  have "jm_get k (db_escrows db) = Some row"
    using assms by (simp add: db_sound_def escrows.sound_def jm_get_iff_mem)
  then show thesis using assms(1) that by (auto simp: db_sound_def escrows.sound_def)
qed

lemma stored_escrows_rows:
  assumes "db_sound db"
  shows "map snd (db_escrows db) = map escrow_row_of (stored_escrows db)"
    and "map ie_id (stored_escrows db) = map fst (db_escrows db)"
    and "list_all escrow_storable (stored_escrows db)"
proof -
  have r: "escrow_row_of (projr (deserialize_row row)) = row \<and> ie_id (projr (deserialize_row row)) = k
      \<and> escrow_storable (projr (deserialize_row row))"
    if "(k, row) \<in> set (db_escrows db)" for k row
    using sound_row [OF assms that] by (metis deserialize_row_of sum.sel(2))
  show "map snd (db_escrows db) = map escrow_row_of (stored_escrows db)"
    using r by (auto simp: stored_escrows_def)
  show "map ie_id (stored_escrows db) = map fst (db_escrows db)"
    using r by (auto simp: stored_escrows_def)
  show "list_all escrow_storable (stored_escrows db)"
    using r by (auto simp: stored_escrows_def list_all_iff)
qed

lemma stored_escrows_get:
  assumes "db_sound db"
  shows "e \<in> set (stored_escrows db) \<longleftrightarrow> cache_get (ie_id e) db = Inr (Some e)"
proof -
  have wf: "jm_wf (db_escrows db)" using assms by (simp add: db_sound_def escrows.sound_def)
  have "(\<exists>k row. (k, row) \<in> set (db_escrows db) \<and> e = projr (deserialize_row row)) \<longleftrightarrow>
      (\<exists>row. jm_get (ie_id e) (db_escrows db) = Some row \<and> deserialize_row row = Inr e)"
    using sound_row [OF assms] deserialize_row_of wf by (metis jm_get_iff_mem sum.sel(2))
  then show ?thesis
    by (auto simp: stored_escrows_def cache_get_def bindR_Inr_iff split: option.splits)
qed

definition escrow_matches :: "list_query \<Rightarrow> indexed_escrow \<Rightarrow> bool" where
  "escrow_matches q e =
     ((case query_address q of
         Some a \<Rightarrow> ie_id e = a \<or> cfg_funder (ie_config e) = a \<or> cfg_recipient (ie_config e) = a
           \<or> cfg_arbitrator (ie_config e) = a
       | None \<Rightarrow> True)
      \<and> (case lq_state q of Some st \<Rightarrow> ie_state e = st | None \<Rightarrow> True))"

lemma row_matches_of: "row_matches q (escrow_row_of e) = escrow_matches q e"
  by (auto simp: row_matches_def escrow_matches_def escrow_row_of_def escrow_state_text_inj split: option.splits)

lemma viewed_as_keeps [simp]:
  "ie_id (viewed_as q e) = ie_id e" "ie_updatedAt (viewed_as q e) = ie_updatedAt e"
  by (simp_all add: viewed_as_def split: option.split)

lemma ordered_matches:
  assumes "db_sound db" "sql_order order_by"
  obtains es where "order_by (filter (row_matches q) (map snd (db_escrows db))) = map escrow_row_of es"
    "list_all escrow_storable es" "mset es = mset (filter (escrow_matches q) (stored_escrows db))"
    "sorted_wrt (\<lambda>a b. ie_updatedAt b \<le> ie_updatedAt a) es"
proof -
  let ?ms = "filter (escrow_matches q) (stored_escrows db)"
  let ?rows = "filter (row_matches q) (map snd (db_escrows db))"
  have rows: "?rows = map escrow_row_of ?ms"
    by (simp add: stored_escrows_rows(1) [OF assms(1)] filter_map comp_def row_matches_of)
  have perm: "mset (order_by ?rows) = mset (map escrow_row_of ?ms)"
    using assms(2) by (simp add: sql_order_def rows)
  define es where "es = map (\<lambda>row. projr (deserialize_row row)) (order_by ?rows)"
  have ok: "row \<in> set (order_by ?rows) \<Longrightarrow> \<exists>e\<in>set ?ms. row = escrow_row_of e" for row
    using mset_eq_setD [OF perm] by auto
  have storable: "e \<in> set ?ms \<Longrightarrow> escrow_storable e" for e
    using stored_escrows_rows(3) [OF assms(1)] by (auto simp: list_all_iff)
  have es: "order_by ?rows = map escrow_row_of es"
    using ok storable deserialize_row_of by (force simp: es_def intro: map_idI [symmetric])
  moreover have "list_all escrow_storable es"
    using ok storable deserialize_row_of by (force simp: es_def list_all_iff)
  moreover have "mset es = mset ?ms"
  proof -
    have "mset es = image_mset (\<lambda>row. projr (deserialize_row row)) (mset (map escrow_row_of ?ms))"
      using perm by (simp add: es_def)
    also have "\<dots> = mset (map (\<lambda>e. projr (deserialize_row (escrow_row_of e))) ?ms)"
      by (simp add: image_mset.compositionality comp_def)
    also have "map (\<lambda>e. projr (deserialize_row (escrow_row_of e))) ?ms = ?ms"
      using storable deserialize_row_of by (intro map_idI) simp
    finally show ?thesis .
  qed
  moreover have "sorted_wrt (\<lambda>a b. ie_updatedAt b \<le> ie_updatedAt a) es"
  proof -
    have "sorted_wrt (\<lambda>a b. er_updated_at b \<le> er_updated_at a) (map escrow_row_of es)"
      using assms(2) es unfolding sql_order_def by metis
    then show ?thesis by (simp add: sorted_wrt_map escrow_row_of_def)
  qed
  ultimately show thesis by (rule that)
qed

text \<open>What a query returns, for every page of every size: a part of one list of escrows, or SQLite's error.\<close>

lemma query_pages:
  assumes "db_sound db" "sql_order order_by"
  obtains es where "length es = length (filter (escrow_matches q) (stored_escrows db))" "distinct (map ie_id es)"
    "set es = {e. cache_get (ie_id e) db = Inr (Some e) \<and> escrow_matches q e}"
    "sorted_wrt (\<lambda>a b. ie_updatedAt b \<le> ie_updatedAt a) es"
    "\<And>page sz. 1 \<le> page \<Longrightarrow> 1 \<le> sz \<Longrightarrow> sz \<le> 100 \<Longrightarrow>
       cache_list order_by (q\<lparr>lq_page := Some page, lq_pageSize := Some sz\<rparr>) db =
         bindR (sql_offset page sz) (\<lambda>offset. Inr (map (viewed_as q) (take (nat sz) (drop offset es)), length es))"
proof -
  obtain es where es: "order_by (filter (row_matches q) (map snd (db_escrows db))) = map escrow_row_of es"
      "list_all escrow_storable es" "mset es = mset (filter (escrow_matches q) (stored_escrows db))"
      "sorted_wrt (\<lambda>a b. ie_updatedAt b \<le> ie_updatedAt a) es"
    using ordered_matches [OF assms] by blast
  have len: "length es = length (filter (escrow_matches q) (stored_escrows db))"
    using es(3) by (metis size_mset)
  have rows: "length (filter (row_matches q) (map snd (db_escrows db))) = length es"
    by (simp add: stored_escrows_rows(1) [OF assms(1)] filter_map comp_def row_matches_of len)
  have page: "cache_list order_by (q\<lparr>lq_page := Some page, lq_pageSize := Some sz\<rparr>) db =
      bindR (sql_offset page sz) (\<lambda>offset. Inr (map (viewed_as q) (take (nat sz) (drop offset es)), length es))"
    if "1 \<le> page" "1 \<le> sz" "sz \<le> 100" for page sz
  proof -
    have q: "row_matches (q\<lparr>lq_page := Some page, lq_pageSize := Some sz\<rparr>) = row_matches q"
        "viewed_as (q\<lparr>lq_page := Some page, lq_pageSize := Some sz\<rparr>) = viewed_as q"
      by (auto simp: row_matches_def viewed_as_def query_address_def fun_eq_iff)
    have clamp: "clamp_page page = page" "clamp_size sz = sz"
      using that by (simp_all add: clamp_page_def clamp_size_def)
    have "mapR deserialize_row (take (nat sz) (drop offset (map escrow_row_of es))) = Inr (take (nat sz) (drop offset es))" for offset
    proof -
      have "list_all escrow_storable (take (nat sz) (drop offset es))"
        using es(2) by (auto simp: list_all_iff dest: in_set_takeD in_set_dropD)
      from escrows.mapR_dec_enc [OF this] show ?thesis by (simp add: take_map drop_map)
    qed
    then show ?thesis
      using rows by (cases "sql_offset page sz") (simp_all add: cache_list_def page_window_def q clamp es(1) Let_def)
  qed
  have ids: "distinct (map ie_id es)"
  proof -
    have "mset (map ie_id es) = mset (map ie_id (filter (escrow_matches q) (stored_escrows db)))"
      using es(3) by simp
    moreover have "distinct (map ie_id (stored_escrows db))"
      using assms(1) by (simp add: stored_escrows_rows(2) db_sound_def escrows.sound_def jm_wf_def)
    ultimately show ?thesis by (metis distinct_map_filter mset_eq_imp_distinct_iff)
  qed
  have mem: "set es = {e. cache_get (ie_id e) db = Inr (Some e) \<and> escrow_matches q e}"
    using mset_eq_setD [OF es(3)] stored_escrows_get [OF assms(1)] by auto
  show thesis by (rule that [OF len ids mem es(4) page])
qed

lemma query_result:
  assumes "db_sound db" "sql_order order_by"
  obtains es where "length es = length (filter (escrow_matches q) (stored_escrows db))" "distinct (map ie_id es)"
    "set es = {e. cache_get (ie_id e) db = Inr (Some e) \<and> escrow_matches q e}"
    "sorted_wrt (\<lambda>a b. ie_updatedAt b \<le> ie_updatedAt a) es"
    "\<And>i sz. 1 \<le> sz \<Longrightarrow> sz \<le> 100 \<Longrightarrow> i * nat sz < 2 ^ 53 \<Longrightarrow>
       cache_list order_by (q\<lparr>lq_page := Some (int i + 1), lq_pageSize := Some sz\<rparr>) db =
         Inr (map (viewed_as q) (take (nat sz) (drop (i * nat sz) es)), length es)"
proof (rule query_pages [OF assms, of q])
  fix es
  assume es: "length es = length (filter (escrow_matches q) (stored_escrows db))" "distinct (map ie_id es)"
    "set es = {e. cache_get (ie_id e) db = Inr (Some e) \<and> escrow_matches q e}"
    "sorted_wrt (\<lambda>a b. ie_updatedAt b \<le> ie_updatedAt a) es"
    and page: "\<And>page sz. 1 \<le> page \<Longrightarrow> 1 \<le> sz \<Longrightarrow> sz \<le> 100 \<Longrightarrow>
       cache_list order_by (q\<lparr>lq_page := Some page, lq_pageSize := Some sz\<rparr>) db =
         bindR (sql_offset page sz) (\<lambda>offset. Inr (map (viewed_as q) (take (nat sz) (drop offset es)), length es))"
  show thesis
    by (rule that [OF es]) (simp add: page sql_offset_exact)
qed

text \<open>C22: The pages of an escrow query, taken together, are the matching escrows: no escrow is
  missing, none is on two pages, they are in descending order of their update time, and every
  page reports their number; whatever order the database gives to escrows updated at the same
  time, provided it is the same for every page. (Pages that begin below row 2^53, where the
  Number that is the OFFSET is exact.)\<close>

theorem pages_partition:
  assumes "db_sound db" "sql_order order_by" "1 \<le> sz" "sz \<le> 100"
    and "length (filter (escrow_matches q) (stored_escrows db)) \<le> k * nat sz" "(k - 1) * nat sz < 2 ^ 53"
  shows "\<exists>pages. map (\<lambda>i. cache_list order_by (q\<lparr>lq_page := Some (int i + 1), lq_pageSize := Some sz\<rparr>) db) [0..<k] =
         map (\<lambda>p. Inr (p, length (concat pages))) pages
     \<and> list_all (\<lambda>p. length p \<le> nat sz) pages
     \<and> distinct (map ie_id (concat pages))
     \<and> set (concat pages) = {viewed_as q e | e. cache_get (ie_id e) db = Inr (Some e) \<and> escrow_matches q e}
     \<and> sorted_wrt (\<lambda>a b. ie_updatedAt b \<le> ie_updatedAt a) (concat pages)"
proof -
  obtain es where es: "length es = length (filter (escrow_matches q) (stored_escrows db))" "distinct (map ie_id es)"
      "set es = {e. cache_get (ie_id e) db = Inr (Some e) \<and> escrow_matches q e}"
      "sorted_wrt (\<lambda>a b. ie_updatedAt b \<le> ie_updatedAt a) es"
      "\<And>i sz. 1 \<le> sz \<Longrightarrow> sz \<le> 100 \<Longrightarrow> i * nat sz < 2 ^ 53 \<Longrightarrow>
       cache_list order_by (q\<lparr>lq_page := Some (int i + 1), lq_pageSize := Some sz\<rparr>) db =
         Inr (map (viewed_as q) (take (nat sz) (drop (i * nat sz) es)), length es)"
    by (rule query_result [OF assms(1,2), of q]) (rule that)
  let ?w = "\<lambda>i. take (nat sz) (drop (i * nat sz) es)"
  define pages where "pages = map (\<lambda>i. map (viewed_as q) (?w i)) [0..<k]"
  have "0 < nat sz" using assms(3) by simp
  then have "concat (map ?w [0..<k]) = es"
    using concat_windows [of "nat sz" es k] assms(5) es(1) by simp
  moreover have "concat pages = map (viewed_as q) (concat (map ?w [0..<k]))"
    by (simp add: pages_def map_concat comp_def)
  ultimately have all: "concat pages = map (viewed_as q) es" by (simp only:)
  have "i * nat sz < 2 ^ 53" if "i < k" for i
    by (rule le_less_trans [OF mult_le_mono1 assms(6)]) (use that in simp)
  then have "map (\<lambda>i. cache_list order_by (q\<lparr>lq_page := Some (int i + 1), lq_pageSize := Some sz\<rparr>) db) [0..<k] =
      map (\<lambda>p. Inr (p, length (concat pages))) pages"
    unfolding all by (simp add: es(5) [OF assms(3,4)] pages_def)
  moreover have "list_all (\<lambda>p. length p \<le> nat sz) pages" by (simp add: pages_def list_all_iff)
  moreover have "distinct (map ie_id (concat pages))" using es(2) by (simp add: all comp_def)
  moreover have "set (concat pages) = {viewed_as q e | e. cache_get (ie_id e) db = Inr (Some e) \<and> escrow_matches q e}"
    unfolding all using es(3) by auto
  moreover have "sorted_wrt (\<lambda>a b. ie_updatedAt b \<le> ie_updatedAt a) (concat pages)"
    unfolding all using es(4) by (simp add: sorted_wrt_map)
  ultimately show ?thesis by blast
qed

text \<open>An order SQLite may use: a stable sort.\<close>

definition stable_order :: row_order where
  "stable_order rows = rev (sort_key er_updated_at rows)"

lemma sql_order_stable: "sql_order stable_order"
proof -
  have "sorted_wrt (\<lambda>a b. er_updated_at b \<le> er_updated_at a) (rev (sort_key er_updated_at rows))" for rows :: "escrow_row list"
    using sorted_sort_key [of er_updated_at rows] by (simp add: sorted_wrt_rev sorted_wrt_map)
  then show ?thesis by (simp add: sql_order_def stable_order_def)
qed

lemma distinct_singleton: "distinct xs \<Longrightarrow> set xs = {x} \<Longrightarrow> xs = [x]"
proof (cases xs)
  case (Cons y ys)
  assume "distinct xs" "set xs = {x}"
  then have "y = x" "set ys \<subseteq> {x}" "x \<notin> set ys" by (auto simp: Cons)
  then show ?thesis by (cases ys) (auto simp: Cons)
qed simp

definition sample_query :: list_query where
  "sample_query = \<lparr>lq_address = Some ''demo-escrow'', lq_state = None, lq_page = None, lq_pageSize = None\<rparr>"

definition sample_db :: indexer_db where
  "sample_db = new_cache ''now'' empty_db"

lemma sample_db_facts: "db_sound sample_db" "stored_escrows sample_db = [seedEscrow ''now'']"
  using db_sound_new_cache [OF db_sound_empty]
  by (simp_all add: sample_db_def stored_escrows_def new_cache_def empty_db_def cache_upsert_def deserialize_row_of seed_storable)

lemma sample_query_result:
  "ie_id ` {viewed_as sample_query e | e. cache_get (ie_id e) sample_db = Inr (Some e) \<and> escrow_matches sample_query e}
     = {''demo-escrow''}"
proof -
  have "cache_get (ie_id e) sample_db = Inr (Some e) \<longleftrightarrow> e = seedEscrow ''now''" for e
    using stored_escrows_get [OF sample_db_facts(1), of e] by (simp add: sample_db_facts(2))
  moreover have "escrow_matches sample_query (seedEscrow ''now'')" "ie_id (seedEscrow ''now'') = ''demo-escrow''"
    by (simp_all add: escrow_matches_def query_address_def sample_query_def seedEscrow_def)
  ultimately show ?thesis by auto
qed

theorem pages_partition_witness:
  "\<exists>pages. map (\<lambda>i. cache_list stable_order (sample_query\<lparr>lq_page := Some (int i + 1), lq_pageSize := Some 20\<rparr>) sample_db) [0..<1] =
         map (\<lambda>p. Inr (p, length (concat pages))) pages
     \<and> map ie_id (concat pages) = [''demo-escrow'']"
proof -
  have size: "(1 :: int) \<le> 20" "(20 :: int) \<le> 100"
    "length (filter (escrow_matches sample_query) (stored_escrows sample_db)) \<le> 1 * nat 20" "(1 - 1) * nat 20 < 2 ^ 53"
    by (simp_all add: sample_db_facts(2))
  obtain pages where pages: "map (\<lambda>i. cache_list stable_order (sample_query\<lparr>lq_page := Some (int i + 1), lq_pageSize := Some 20\<rparr>) sample_db) [0..<1] =
         map (\<lambda>p. Inr (p, length (concat pages))) pages"
      "distinct (map ie_id (concat pages))"
      "set (concat pages) = {viewed_as sample_query e | e. cache_get (ie_id e) sample_db = Inr (Some e) \<and> escrow_matches sample_query e}"
    using pages_partition [OF sample_db_facts(1) sql_order_stable size] by blast
  have "set (map ie_id (concat pages)) = {''demo-escrow''}"
    using sample_query_result pages(3) by (simp only: set_map)
  then have "map ie_id (concat pages) = [''demo-escrow'']" by (rule distinct_singleton [OF pages(2)])
  show ?thesis
    by (rule exI [of _ pages], rule conjI [OF pages(1)]) fact
qed

end
