(* ===== verification/Converters.thy ===== *)
theory Converters
  imports Types
begin

text \<open>
  packages/sdk/src/converters.ts: hex strings and bytes, conversion of values to contract
  arguments, and the parsers that rebuild the SDK's interfaces from what the contract's
  getters return. The functions of @stellar/stellar-sdk are the fields of \<open>stellar\<close>.
\<close>

section \<open>Hex\<close>

definition rat_trunc :: "rat \<Rightarrow> int" where
  "rat_trunc q = (if q < 0 then \<lceil>q\<rceil> else \<lfloor>q\<rfloor>)"

text \<open>What a \<open>Uint8Array\<close> stores when a number is assigned to an element.\<close>

definition to_uint8 :: "jsnum \<Rightarrow> 8 word" where
  "to_uint8 n = (case n of Fin q \<Rightarrow> word_of_int (rat_trunc q) | _ \<Rightarrow> 0)"

definition strip0x :: "string \<Rightarrow> string" where
  "strip0x s = (if starts_with ''0x'' s then drop 2 s else s)"

fun pairs :: "string \<Rightarrow> string list" where
  "pairs (a # b # s) = [a, b] # pairs s"
| "pairs _ = []"

definition hexToBytes :: "string \<Rightarrow> 8 word list js" where
  "hexToBytes hex =
     (let normalized = strip0x hex in
      if length normalized mod 2 \<noteq> 0 then Inl (PlainErr ''Hex string must have even length'')
      else Inr (map (\<lambda>p. to_uint8 (parseInt 16 p)) (pairs normalized)))"

definition padStart :: "nat \<Rightarrow> char \<Rightarrow> string \<Rightarrow> string" where
  "padStart n c s = replicate (n - length s) c @ s"

definition hex_byte :: "8 word \<Rightarrow> string" where
  "hex_byte b = padStart 2 (CHR ''0'') (nat_radix 16 (unat b))"

definition bytesToHex :: "8 word list \<Rightarrow> string" where
  "bytesToHex bs = concat (map hex_byte bs)"

definition is_hex :: "char \<Rightarrow> bool" where
  "is_hex c = (digit_val c < 16)"

lemma hex_char_facts:
  assumes "is_hex c"
  shows "\<not> is_ws c" "c \<noteq> CHR ''-''" "c \<noteq> CHR ''+''" "c \<noteq> CHR ''x''" "c \<noteq> CHR ''X''"
proof -
  have r: "48 \<le> char_code c \<and> char_code c \<le> 57 \<or> 65 \<le> char_code c \<and> char_code c \<le> 70 \<or> 97 \<le> char_code c \<and> char_code c \<le> 102"
    using assms by (auto simp: is_hex_def digit_val_def Let_def split: if_splits)
  then show "\<not> is_ws c" by (auto simp: is_ws_def)
  from r show "c \<noteq> CHR ''-''" "c \<noteq> CHR ''+''" "c \<noteq> CHR ''x''" "c \<noteq> CHR ''X''" by auto
qed

lemma parse_hex_pair:
  assumes "is_hex a" "is_hex b"
  shows "parse_int 16 [a, b] = Some (int (16 * digit_val a + digit_val b))"
  using hex_char_facts [OF assms(1)] hex_char_facts [OF assms(2)] assms
  by (simp add: parse_int_def trim_left_def split_sign_def starts_with_def radix_val_def is_hex_def)

lemma to_uint8_of_int: "to_uint8 (Fin (of_int k)) = of_int k"
  by (simp add: to_uint8_def rat_trunc_def)

lemma to_uint8_parse_hex_pair:
  assumes "is_hex a" "is_hex b"
  shows "to_uint8 (parseInt 16 [a, b]) = word_of_nat (16 * digit_val a + digit_val b)"
proof -
  let ?n = "16 * digit_val a + digit_val b"
  have "?n < 256" using assms by (simp add: is_hex_def)
  then have "to_double (of_int (int ?n)) = Fin (of_int (int ?n))"
    by (intro to_double_int) simp
  then have "parseInt 16 [a, b] = Fin (of_int (int ?n))"
    by (simp only: parseInt_def parse_hex_pair [OF assms] option.case)
  then show ?thesis by (metis of_int_of_nat_eq to_uint8_of_int)
qed

lemma digit_char_0: "digit_char 0 = CHR ''0''"
  by code_simp

lemma unat_byte: "unat (b :: 8 word) < 256"
  using unsigned_less [of b] by simp

lemma hex_byte_digits:
  "hex_byte b = [digit_char (unat b div 16), digit_char (unat b mod 16)]"
proof -
  have n: "unat b < 256" using unat_byte [of b] by simp
  show ?thesis
  proof (cases "unat b < 16")
    case True
    then show ?thesis
      by (simp add: hex_byte_def padStart_def nat_radix.simps [of 16 "unat b"] digit_char_0)
  next
    case False
    have "unat b div 16 < 16" using n by simp
    then have "nat_radix 16 (unat b div 16) = [digit_char (unat b div 16)]"
      by (subst nat_radix.simps) simp
    with False show ?thesis
      by (simp add: hex_byte_def padStart_def nat_radix.simps [of 16 "unat b"])
  qed
qed

lemma is_hex_digit_char: "d < 16 \<Longrightarrow> is_hex (digit_char d)"
  by (simp add: is_hex_def)

lemma hex_byte_is_hex: "list_all is_hex (hex_byte b)"
  using unat_byte [of b] by (simp add: hex_byte_digits is_hex_digit_char)

lemma hex_byte_value: "to_uint8 (parseInt 16 (hex_byte b)) = b"
proof -
  have h: "unat b div 16 < 16" "unat b mod 16 < 16" using unat_byte [of b] by simp_all
  then have "to_uint8 (parseInt 16 (hex_byte b)) = word_of_nat (16 * (unat b div 16) + unat b mod 16)"
    by (simp add: hex_byte_digits to_uint8_parse_hex_pair is_hex_digit_char)
  then show ?thesis by simp
qed

lemma length_hex_byte [simp]: "length (hex_byte b) = 2"
  by (simp add: hex_byte_digits)

lemma length_bytesToHex [simp]: "length (bytesToHex bs) = 2 * length bs"
  by (induction bs) (simp_all add: bytesToHex_def)

lemma bytesToHex_Cons: "bytesToHex (b # bs) = hex_byte b @ bytesToHex bs"
  by (simp add: bytesToHex_def)

lemma bytesToHex_is_hex: "list_all is_hex (bytesToHex bs)"
  by (induction bs) (simp_all add: bytesToHex_def hex_byte_is_hex)

text \<open>The digits \<open>bytesToHex\<close> writes are lower case.\<close>

definition lower_hex :: "char \<Rightarrow> bool" where
  "lower_hex c = (c \<in> set ''0123456789abcdef'')"

lemma digit_char_lower_hex: "d < 16 \<Longrightarrow> lower_hex (digit_char d)"
proof -
  have "list_all (\<lambda>d. lower_hex (digit_char d)) [0..<16]" by code_simp
  then show "d < 16 \<Longrightarrow> lower_hex (digit_char d)" by (simp only: list_all_iff) simp
qed

lemma bytesToHex_lower: "list_all lower_hex (bytesToHex bs)"
proof (induction bs)
  case (Cons b bs)
  have "unat b div 16 < 16" "unat b mod 16 < 16" using unat_byte [of b] by simp_all
  then show ?case using Cons by (simp add: bytesToHex_Cons hex_byte_digits digit_char_lower_hex)
qed (simp add: bytesToHex_def)

lemma pairs_bytesToHex: "pairs (bytesToHex bs) = map hex_byte bs"
proof (induction bs)
  case (Cons b bs)
  obtain x y where "hex_byte b = [x, y]" by (simp add: hex_byte_digits)
  with Cons show ?case by (simp add: bytesToHex_Cons)
qed (simp add: bytesToHex_def)

lemma strip0x_hex: "list_all is_hex s \<Longrightarrow> strip0x s = s"
proof -
  assume s: "list_all is_hex s"
  have "\<not> is_hex (CHR ''x'')" by (simp add: is_hex_def digit_val_def)
  with s have "\<not> starts_with ''0x'' s"
    by (auto simp: starts_with_def list_all_iff dest!: in_set_takeD)
       (metis in_set_takeD insert_iff list.simps(15))
  then show ?thesis by (simp add: strip0x_def)
qed

lemma hexToBytes_bytesToHex: "hexToBytes (bytesToHex bs) = Inr bs"
  by (simp add: hexToBytes_def strip0x_hex bytesToHex_is_hex pairs_bytesToHex comp_def hex_byte_value)

interpretation hexCodec: codec "\<lambda>_. True" bytesToHex hexToBytes
  by unfold_locales (rule hexToBytes_bytesToHex)

lemma digit_char_val_lower: "is_hex c \<Longrightarrow> digit_char (digit_val c) = to_lower c"
  by (auto simp: is_hex_def digit_val_def digit_char_def to_lower_def Let_def split: if_splits)

lemma hex_pair_bound: "a < 16 \<Longrightarrow> b < 16 \<Longrightarrow> 16 * a + b < (256 :: nat)"
  by linarith

lemma hex_byte_of_pair:
  assumes "is_hex a" "is_hex b"
  shows "hex_byte (word_of_nat (16 * digit_val a + digit_val b)) = [to_lower a, to_lower b]"
proof -
  let ?n = "16 * digit_val a + digit_val b"
  have d: "digit_val a < 16" "digit_val b < 16" using assms by (simp_all add: is_hex_def)
  have "unat (word_of_nat m :: 8 word) = m" if "m < 256" for m
    using that by (simp add: unsigned_of_nat take_bit_eq_mod)
  then have "unat (word_of_nat ?n :: 8 word) = ?n"
    using hex_pair_bound [OF d] by blast
  moreover have "?n div 16 = digit_val a" "?n mod 16 = digit_val b" using d by auto
  ultimately show ?thesis
    using assms by (simp only: hex_byte_digits digit_char_val_lower)
qed

lemma hex_byte_parse_pair:
  "is_hex a \<Longrightarrow> is_hex b \<Longrightarrow> hex_byte (to_uint8 (parseInt 16 [a, b])) = [to_lower a, to_lower b]"
  by (simp only: to_uint8_parse_hex_pair hex_byte_of_pair)

lemma bytesToHex_pairs:
  "list_all is_hex s \<Longrightarrow> even (length s) \<Longrightarrow>
     bytesToHex (map (\<lambda>p. to_uint8 (parseInt 16 p)) (pairs s)) = map to_lower s"
proof (induction s rule: pairs.induct)
  case (1 a b s)
  then show ?case
    by (simp add: bytesToHex_Cons hex_byte_parse_pair)
qed (simp_all add: bytesToHex_def)

lemma length_pairs: "length (pairs s) = length s div 2"
  by (induction s rule: pairs.induct) simp_all

lemma hexToBytes_hex:
  assumes "list_all is_hex (strip0x s)" "even (length (strip0x s))"
  obtains bs where "hexToBytes s = Inr bs" "length bs = length (strip0x s) div 2"
    "bytesToHex bs = map to_lower (strip0x s)"
  using assms that
  by (simp add: hexToBytes_def Let_def bytesToHex_pairs length_pairs even_iff_mod_2_eq_zero)

lemma hexToBytes_ok_iff: "is_ok (hexToBytes s) \<longleftrightarrow> even (length (strip0x s))"
  by (simp add: hexToBytes_def Let_def even_iff_mod_2_eq_zero)

lemma hexToBytes_length: "hexToBytes s = Inr bs \<Longrightarrow> length bs = length (strip0x s) div 2"
  by (auto simp: hexToBytes_def Let_def length_pairs split: if_splits)

section \<open>Arguments of contract calls\<close>

text \<open>
  The functions of @stellar/stellar-sdk the converters call: \<open>new Address(a).toScVal()\<close>,
  \<open>nativeToScVal(v, { type })\<close> on a native value, and \<open>nativeToScVal(vs, { type: "vec" })\<close> on
  values that are ScVals already. Each may throw.
\<close>

record 'sc stellar =
  addressToScVal :: "string \<Rightarrow> 'sc js"
  nativeToScVal :: "jsval \<Rightarrow> string option \<Rightarrow> 'sc js"
  vecToScVal :: "'sc list \<Rightarrow> 'sc js"

text \<open>A value that may be an ScVal already (\<open>isScVal\<close>).\<close>

datatype 'sc arg = ScV 'sc | Native jsval

datatype scval_hint = H_address | H_bytes | H_u32 | H_u64 | H_i128 | H_bool | H_symbol | H_string

text \<open>\<open>Buffer.from(value)\<close> for a value that is not a string.\<close>

fun buffer_from :: "jsval \<Rightarrow> 8 word list js" where
  "buffer_from (Bytes bs) = Inr bs"
| "buffer_from (Arr vs) = Inr (map (\<lambda>v. to_uint8 (js_number v)) vs)"
| "buffer_from _ = Inl TypeErr"

definition toScVal :: "'sc stellar \<Rightarrow> 'sc arg \<Rightarrow> scval_hint option \<Rightarrow> 'sc js" where
  "toScVal S value hint =
     (case value of
        ScV sc \<Rightarrow> Inr sc
      | Native v \<Rightarrow>
          (case (hint, v) of
             (Some H_address, Str s) \<Rightarrow> addressToScVal S s
           | (Some H_bytes, Str s) \<Rightarrow>
               bindR (hexToBytes s) (\<lambda>bs. nativeToScVal S (Bytes bs) (Some ''bytes''))
           | (Some H_bytes, _) \<Rightarrow>
               bindR (buffer_from v) (\<lambda>bs. nativeToScVal S (Bytes bs) (Some ''bytes''))
           | (Some H_u32, _) \<Rightarrow> nativeToScVal S (Num (js_number v)) (Some ''u32'')
           | (Some H_u64, _) \<Rightarrow> bindR (js_bigint v) (\<lambda>n. nativeToScVal S (BigInt n) (Some ''u64''))
           | (Some H_i128, _) \<Rightarrow> bindR (js_bigint v) (\<lambda>n. nativeToScVal S (BigInt n) (Some ''i128''))
           | (Some H_bool, _) \<Rightarrow> nativeToScVal S (Bool (truthy v)) (Some ''bool'')
           | (Some H_symbol, _) \<Rightarrow> nativeToScVal S (Str (js_string v)) (Some ''symbol'')
           | (Some H_string, _) \<Rightarrow> nativeToScVal S (Str (js_string v)) (Some ''string'')
           | (_, Str s) \<Rightarrow>
               if starts_with ''G'' s \<or> starts_with ''C'' s
               then (case addressToScVal S s of Inr sc \<Rightarrow> Inr sc | Inl _ \<Rightarrow> nativeToScVal S v None)
               else nativeToScVal S v None
           | (_, Bytes bs) \<Rightarrow> nativeToScVal S (Bytes bs) (Some ''bytes'')
           | (_, _) \<Rightarrow> nativeToScVal S v None))"

text \<open>The object \<open>milestoneToScVal\<close> hands to \<open>nativeToScVal\<close>.\<close>

definition hash_bytes_of :: "hash_input \<Rightarrow> 8 word list js" where
  "hash_bytes_of h = (case h of HashText s \<Rightarrow> hexToBytes s | HashBytes bs \<Rightarrow> Inr bs)"

definition milestone_object :: "milestone_input \<Rightarrow> jsval js" where
  "milestone_object m =
     bindR (hash_bytes_of (in_descriptionHash m)) (\<lambda>description.
       Inr (Obj
        [(''milestone_id'', Num (in_milestoneId m)),
         (''payout_amount'', BigInt (in_payoutAmount m)),
         (''description_hash'', Bytes description),
         (''is_approved'', Bool False),
         (''completed_at'', BigInt 0),
         (''status'', Num (Fin 0)),
         (''submitted_at'', BigInt 0)]))"

definition milestoneToScVal :: "'sc stellar \<Rightarrow> milestone_input \<Rightarrow> 'sc js" where
  "milestoneToScVal S m = bindR (milestone_object m) (\<lambda>v. nativeToScVal S v None)"

definition toI128String :: "jsval \<Rightarrow> string js" where
  "toI128String amount = bindR (js_bigint amount) (\<lambda>n. Inr (int_dec n))"

section \<open>Parsers of contract state\<close>

definition parseEscrowState :: "jsval \<Rightarrow> escrow_state" where
  "parseEscrowState v =
     (case v of
        Str s \<Rightarrow> (case find_text escrow_state_text ESCROW_STATE_BY_VALUE s of Some x \<Rightarrow> x | None \<Rightarrow> ES_Pending)
      | Num n \<Rightarrow> (case index_num ESCROW_STATE_BY_VALUE n of Some x \<Rightarrow> x | None \<Rightarrow> ES_Pending)
      | Obj kvs \<Rightarrow>
          if map_of kvs ''tag'' \<noteq> None
          then (case find_text escrow_state_text ESCROW_STATE_BY_VALUE (js_string (get_prop kvs ''tag'')) of
              Some x \<Rightarrow> x | None \<Rightarrow> ES_Pending)
          else ES_Pending
      | _ \<Rightarrow> ES_Pending)"

definition parseMilestoneStatus :: "jsval \<Rightarrow> milestone_status" where
  "parseMilestoneStatus v =
     (case v of
        Str s \<Rightarrow>
          if s = ''Under Review'' then MS_UnderReview
          else (case find_text milestone_status_text MILESTONE_STATUS_BY_VALUE s of
              Some x \<Rightarrow> x | None \<Rightarrow> MS_Pending)
      | Num n \<Rightarrow> (case index_num MILESTONE_STATUS_BY_VALUE n of Some x \<Rightarrow> x | None \<Rightarrow> MS_Pending)
      | _ \<Rightarrow> MS_Pending)"

text \<open>\<open>element.toString(16)\<close> of an array element (of a fractional number: decimal digits).\<close>

fun to_string16 :: "jsval \<Rightarrow> string js" where
  "to_string16 Undefined = Inl TypeErr"
| "to_string16 Null = Inl TypeErr"
| "to_string16 (BigInt n) =
     Inr (if n < 0 then CHR ''-'' # nat_radix 16 (nat (- n)) else nat_radix 16 (nat n))"
| "to_string16 (Num (Fin q)) =
     Inr (if \<not> is_integer q then num_string (Fin q)
          else if q < 0 then CHR ''-'' # nat_radix 16 (nat (- \<lfloor>q\<rfloor>)) else nat_radix 16 (nat \<lfloor>q\<rfloor>))"
| "to_string16 v = Inr (js_string v)"

definition asHex :: "jsval \<Rightarrow> string js" where
  "asHex v =
     (case v of
        Str s \<Rightarrow> Inr (strip0x s)
      | Bytes bs \<Rightarrow> Inr (bytesToHex bs)
      | Arr vs \<Rightarrow> bindR (mapR to_string16 vs) (\<lambda>ss. Inr (concat (map (padStart 2 (CHR ''0'')) ss)))
      | _ \<Rightarrow> Inr [])"

text \<open>\<open>record.a ?? record.b\<close>, and \<open>BigInt(String(v))\<close>.\<close>

definition either_prop :: "jsval \<Rightarrow> string \<Rightarrow> string \<Rightarrow> jsval" where
  "either_prop r a b = coalesce (js_prop r a) (js_prop r b)"

definition bigint_of_string :: "jsval \<Rightarrow> int js" where
  "bigint_of_string v = js_bigint (Str (js_string v))"

abbreviation jsZero :: jsval where "jsZero \<equiv> Num (Fin 0)"

definition parseMilestone :: "jsval \<Rightarrow> string option \<Rightarrow> jsnum milestone js" where
  "parseMilestone raw proof =
     (let st = parseMilestoneStatus
            (coalesce (js_prop raw ''status'') (if truthy (js_prop raw ''is_approved'') then Num (Fin 2) else jsZero))
      in bindR (bigint_of_string (coalesce (either_prop raw ''payout_amount'' ''payoutAmount'') jsZero)) (\<lambda>amount.
         bindR (asHex (either_prop raw ''description_hash'' ''descriptionHash'')) (\<lambda>desc.
         bindR (bigint_of_string (coalesce (either_prop raw ''completed_at'' ''completedAt'') jsZero)) (\<lambda>completed.
         bindR (bigint_of_string (coalesce (either_prop raw ''submitted_at'' ''submittedAt'') jsZero)) (\<lambda>submitted.
           Inr \<lparr>milestoneId = js_number (coalesce (either_prop raw ''milestone_id'' ''milestoneId'') jsZero),
                payoutAmount = amount,
                descriptionHash = desc,
                isApproved = truthy (either_prop raw ''is_approved'' ''isApproved'') \<or> st = MS_Released,
                completedAt = completed,
                status = (if st = MS_UnderReview then MS_Under_Review else st),
                submittedAt = Some submitted,
                proofHash = proof\<rparr>)))))"

text \<open>\<open>String(v ?? "")\<close>\<close>

definition string_or_empty :: "jsval \<Rightarrow> string" where
  "string_or_empty v = js_string (coalesce v (Str []))"

definition parseEscrowConfig :: "jsval \<Rightarrow> escrow_config js" where
  "parseEscrowConfig raw =
     bindR (bigint_of_string (coalesce (either_prop raw ''total_amount'' ''totalAmount'') jsZero)) (\<lambda>total.
     bindR (bigint_of_string (coalesce (either_prop raw ''lock_secs'' ''lockSecs'') jsZero)) (\<lambda>lock.
       Inr \<lparr>cfg_funder = string_or_empty (js_prop raw ''funder''),
            cfg_recipient = string_or_empty (js_prop raw ''recipient''),
            cfg_arbitrator = string_or_empty (js_prop raw ''arbitrator''),
            cfg_asset = string_or_empty (js_prop raw ''asset''),
            cfg_totalAmount = total,
            cfg_releaseThreshold =
              js_number (coalesce (either_prop raw ''release_threshold'' ''releaseThreshold'') jsZero),
            cfg_lockSecs = Some lock\<rparr>))"

definition parseBalanceBook :: "jsval \<Rightarrow> balance_book js" where
  "parseBalanceBook raw =
     bindR (bigint_of_string (coalesce (js_prop raw ''deposited'') jsZero)) (\<lambda>d.
     bindR (bigint_of_string (coalesce (js_prop raw ''released'') jsZero)) (\<lambda>r.
     bindR (bigint_of_string (coalesce (js_prop raw ''refunded'') jsZero)) (\<lambda>f.
       Inr \<lparr>deposited = d, released = r, refunded = f\<rparr>)))"

definition parseDisputeRecord :: "jsval \<Rightarrow> dispute_record js" where
  "parseDisputeRecord raw =
     bindR (bigint_of_string (coalesce (either_prop raw ''raised_at'' ''raisedAt'') jsZero)) (\<lambda>raised.
       Inr \<lparr>dr_raisedBy = string_or_empty (either_prop raw ''raised_by'' ''raisedBy''),
            dr_raisedAt = raised,
            dr_funderBps = js_number (coalesce (either_prop raw ''funder_bps'' ''funderBps'') jsZero),
            dr_recipientBps = js_number (coalesce (either_prop raw ''recip_bps'' ''recipientBps'') jsZero),
            dr_resolved = truthy (js_prop raw ''resolved'')\<rparr>)"

end
