(* ===== verification/EventParser.thy ===== *)
theory EventParser
  imports JsArith Converters
begin

text \<open>
  packages/sdk/src/parsers/events.ts: decoding the ScVals of a contract event and building the
  domain event from them. ScVals of the arms the decoder does not switch on are opaque
  (\<open>ScOther\<close>); what \<open>scValToNative\<close> and \<open>toXDR\<close> make of them, and \<open>ScVal.fromXDR\<close>, are
  parameters.
\<close>

section \<open>ScVals and events\<close>

datatype scval =
    ScVoid
  | ScBool bool
  | ScU32 "32 word"
  | ScI32 "32 word"
  | ScU64 "64 word"
  | ScI64 "64 word"
  | ScU128 "64 word" "64 word"
  | ScI128 "64 word" "64 word"
  | ScBytes "8 word list"
  | ScString string
  | ScSymbol string
  | ScAddress string
  | ScVec "scval list option"
  | ScMap "(scval \<times> scval) list option"
  | ScOther nat

datatype scval_input = ScText string | ScValue scval

record xdr_lib =
  fromXDR :: "string \<Rightarrow> scval js"
  other_native :: "nat \<Rightarrow> jsval js"
  other_xdr :: "nat \<Rightarrow> string"

record raw_event =
  raw_contractId :: "string option"
  raw_topic :: "scval list option"
  raw_topics :: "scval list option"
  raw_value :: "scval_input option"
  raw_ledger :: "jsnum option"
  raw_txHash :: "string option"

record event_envelope =
  env_contractId :: string
  env_topic :: jsval
  env_topics :: "jsval list"
  env_value :: jsval
  env_ledger :: "jsnum option"
  env_txHash :: "string option"

record event_base =
  ev_contractId :: string
  ev_ledger :: "jsnum option"
  ev_txHash :: "string option"

text \<open>\<open>AstraFlowEvent\<close>: the common part and the fields of each event in the order of types.ts.\<close>

datatype astra_event =
    EscrowInitialized event_base string string string string int jsnum
  | FundsDeposited event_base string int
  | ProofSubmitted event_base jsnum string string int
  | MilestoneReleased event_base jsnum string int
  | DisputeRaised event_base string int
  | DisputeResolved event_base string jsnum jsnum int int
  | TimeoutRefunded event_base string int int

section \<open>Topics\<close>

definition TOPIC_ALIASES :: "(string \<times> string) list" where
  "TOPIC_ALIASES =
    [(''init'', ''EscrowInitialized''), (''EscrowInitialized'', ''EscrowInitialized''),
     (''created'', ''MilestoneCreated''), (''MilestoneCreated'', ''MilestoneCreated''),
     (''proof'', ''MilestoneSubmitted''), (''ProofSubmitted'', ''MilestoneSubmitted''),
     (''MilestoneSubmitted'', ''MilestoneSubmitted''), (''release'', ''MilestoneApproved''),
     (''MilestoneReleased'', ''MilestoneApproved''), (''MilestoneApproved'', ''MilestoneApproved''),
     (''deposit'', ''FundsDeposited''), (''FundsDeposited'', ''FundsDeposited''),
     (''dispute'', ''DisputeRaised''), (''DisputeRaised'', ''DisputeRaised''),
     (''DisputeResolved'', ''DisputeSettled''), (''DisputeSettled'', ''DisputeSettled''),
     (''paused'', ''EmergencyPaused''), (''EmergencyPaused'', ''EmergencyPaused''),
     (''timeout'', ''TimeoutRefunded''), (''TimeoutRefunded'', ''TimeoutRefunded'')]"

text \<open>\<open>TABLE[key]\<close> on an object literal also finds what it inherits from \<open>Object.prototype\<close>.\<close>

definition PROTOTYPE_MEMBERS :: "string list" where
  "PROTOTYPE_MEMBERS =
    [''constructor'', ''hasOwnProperty'', ''isPrototypeOf'', ''propertyIsEnumerable'', ''toLocaleString'',
     ''toString'', ''valueOf'', ''__defineGetter__'', ''__defineSetter__'', ''__lookupGetter__'', ''__lookupSetter__'']"

definition table_lookup :: "(string \<times> string) list \<Rightarrow> string \<Rightarrow> jsval" where
  "table_lookup table key =
     (case map_of table key of
        Some v \<Rightarrow> Str v
      | None \<Rightarrow> if key \<in> set PROTOTYPE_MEMBERS then Builtin key
                else if key = ''__proto__'' then Obj [] else Undefined)"

section \<open>Decoding\<close>

definition shl64 :: "int \<Rightarrow> int" where "shl64 n = n * 2 ^ 64"

text \<open>The key of a map entry: a string as it is, anything else as its JSON text.\<close>

definition map_key :: "jsval \<Rightarrow> string js" where
  "map_key key =
     (case key of
        Str s \<Rightarrow> Inr s
      | _ \<Rightarrow> bindR (json_stringify key) (\<lambda>t. Inr (case t of Some s \<Rightarrow> s | None \<Rightarrow> ''undefined'')))"

function decodeScVal :: "xdr_lib \<Rightarrow> scval \<Rightarrow> jsval js"
and decodeScVals :: "xdr_lib \<Rightarrow> scval list \<Rightarrow> jsval list js"
and decodeEntries :: "xdr_lib \<Rightarrow> (string \<times> jsval) list \<Rightarrow> (scval \<times> scval) list \<Rightarrow> (string \<times> jsval) list js" where
  "decodeScVal X ScVoid = Inr Null"
| "decodeScVal X (ScBool b) = Inr (Bool b)"
| "decodeScVal X (ScU32 w) = Inr (Num (Fin (of_nat (unat w))))"
| "decodeScVal X (ScI32 w) = Inr (Num (Fin (of_int (sint w))))"
| "decodeScVal X (ScU64 w) = Inr (BigInt (uint w))"
| "decodeScVal X (ScI64 w) = Inr (BigInt (sint w))"
| "decodeScVal X (ScU128 hi lo) = Inr (BigInt (shl64 (uint hi) + uint lo))"
| "decodeScVal X (ScI128 hi lo) =
     (let combined = shl64 (sint hi) + uint lo in
      Inr (BigInt (if sint hi < 0 then combined - 2 ^ 128 else combined)))"
| "decodeScVal X (ScBytes bs) = Inr (Bytes bs)"
| "decodeScVal X (ScString s) = Inr (Str s)"
| "decodeScVal X (ScSymbol s) = Inr (Str s)"
| "decodeScVal X (ScAddress a) = Inr (Str a)"
| "decodeScVal X (ScVec vs) =
     (case vs of Some xs \<Rightarrow> bindR (decodeScVals X xs) (\<lambda>ys. Inr (Arr ys)) | None \<Rightarrow> Inr (Arr []))"
| "decodeScVal X (ScMap m) =
     (case m of Some es \<Rightarrow> bindR (decodeEntries X [] es) (\<lambda>r. Inr (Obj r)) | None \<Rightarrow> Inr (Obj []))"
| "decodeScVal X (ScOther k) =
     (case other_native X k of Inr v \<Rightarrow> Inr v | Inl _ \<Rightarrow> Inr (Str (other_xdr X k)))"
| "decodeScVals X [] = Inr []"
| "decodeScVals X (v # vs) =
     bindR (decodeScVal X v) (\<lambda>y. bindR (decodeScVals X vs) (\<lambda>ys. Inr (y # ys)))"
| "decodeEntries X r [] = Inr r"
| "decodeEntries X r ((k, v) # es) =
     bindR (decodeScVal X k) (\<lambda>key.
     bindR (map_key key) (\<lambda>name.
     bindR (decodeScVal X v) (\<lambda>y.
       decodeEntries X (jm_set name y r) es)))"
  by pat_completeness auto
termination
  by (relation "measure (case_sum (\<lambda>(X, v). size v)
        (case_sum (\<lambda>(X, vs). size_list size vs) (\<lambda>(X, r, es). size_list (size_prod size size) es)))")
     auto

definition scValFromUnknown :: "xdr_lib \<Rightarrow> scval_input option \<Rightarrow> scval option js" where
  "scValFromUnknown X value =
     (case value of
        None \<Rightarrow> Inr None
      | Some (ScText t) \<Rightarrow> if t = [] then Inr None else bindR (fromXDR X t) (\<lambda>v. Inr (Some v))
      | Some (ScValue v) \<Rightarrow> Inr (Some v))"

definition deserializeTopics :: "xdr_lib \<Rightarrow> scval list \<Rightarrow> jsval list js" where
  "deserializeTopics X topics = decodeScVals X topics"

definition deserializeValue :: "xdr_lib \<Rightarrow> scval_input \<Rightarrow> jsval js" where
  "deserializeValue X value =
     bindR (scValFromUnknown X (Some value)) (\<lambda>v.
       (case v of Some sc \<Rightarrow> decodeScVal X sc | None \<Rightarrow> Inr Null))"

section \<open>Readers of decoded values\<close>

definition asText :: "jsval \<Rightarrow> string" where
  "asText value =
     (case value of
        Str s \<Rightarrow> s
      | Bytes bs \<Rightarrow> bytesToHex bs
      | Num _ \<Rightarrow> js_string value
      | BigInt _ \<Rightarrow> js_string value
      | Bool _ \<Rightarrow> js_string value
      | _ \<Rightarrow> [])"

definition asBigEv :: "jsval \<Rightarrow> int js" where
  "asBigEv value =
     (case value of
        BigInt n \<Rightarrow> Inr n
      | Num n \<Rightarrow> js_bigint (Num n)
      | Str s \<Rightarrow> if s \<noteq> [] then js_bigint (Str s) else Inr 0
      | _ \<Rightarrow> Inr 0)"

definition asNumberEv :: "jsval \<Rightarrow> jsnum" where
  "asNumberEv value =
     (case value of
        Num n \<Rightarrow> n
      | BigInt n \<Rightarrow> js_number (BigInt n)
      | Str s \<Rightarrow> if s \<noteq> [] then js_number (Str s) else Fin 0
      | _ \<Rightarrow> Fin 0)"

definition nth_value :: "jsval list \<Rightarrow> nat \<Rightarrow> jsval" where
  "nth_value vs i = (if i < length vs then vs ! i else Undefined)"

definition text_or :: "string \<Rightarrow> string \<Rightarrow> string" where
  "text_or a b = (if a \<noteq> [] then a else b)"

section \<open>Envelopes and domain events\<close>

definition parseRawEvent :: "xdr_lib \<Rightarrow> raw_event \<Rightarrow> event_envelope js" where
  "parseRawEvent X event =
     (let topics = (case raw_topics event of Some ts \<Rightarrow> ts
            | None \<Rightarrow> (case raw_topic event of Some ts \<Rightarrow> ts | None \<Rightarrow> [])) in
      bindR (deserializeTopics X topics) (\<lambda>decodedTopics.
      let primary = asText (nth_value decodedTopics 0);
          topic = coalesce (coalesce (table_lookup TOPIC_ALIASES primary) (Str primary)) (Str ''unknown'') in
      bindR (scValFromUnknown X (raw_value event)) (\<lambda>rawValue.
      bindR (case rawValue of Some v \<Rightarrow> decodeScVal X v | None \<Rightarrow> Inr Null) (\<lambda>value.
        Inr \<lparr>env_contractId = or_default (raw_contractId event) [],
             env_topic = topic, env_topics = decodedTopics, env_value = value,
             env_ledger = raw_ledger event, env_txHash = raw_txHash event\<rparr>))))"

definition event_data :: "jsval \<Rightarrow> string \<Rightarrow> jsval" where
  "event_data value field = (case value of Obj kvs \<Rightarrow> get_prop kvs field | _ \<Rightarrow> Undefined)"

definition toDomainEvent :: "event_envelope \<Rightarrow> astra_event option js" where
  "toDomainEvent envelope =
     (let data = event_data (env_value envelope);
          topic1 = nth_value (env_topics envelope) 1;
          base = \<lparr>ev_contractId = env_contractId envelope, ev_ledger = env_ledger envelope,
                  ev_txHash = env_txHash envelope\<rparr>
      in if env_topic envelope = Str ''EscrowInitialized'' then
           bindR (asBigEv (data ''total'')) (\<lambda>tot.
             Inr (Some (EscrowInitialized base (text_or (asText (data ''funder'')) (asText topic1))
               (asText (data ''recipient'')) (asText (data ''arbitrator'')) (asText (data ''token''))
               tot (asNumberEv (data ''count'')))))
         else if env_topic envelope = Str ''FundsDeposited'' then
           bindR (asBigEv (data ''amount'')) (\<lambda>amount.
             Inr (Some (FundsDeposited base (text_or (asText (data ''funder'')) (asText topic1)) amount)))
         else if env_topic envelope = Str ''MilestoneSubmitted'' then
           bindR (asBigEv (data ''at'')) (\<lambda>t.
             Inr (Some (ProofSubmitted base (asNumberEv (coalesce (data ''milestone'') topic1))
               (asText (data ''recipient'')) (asText (coalesce (data ''proof'') (data ''proof_hash''))) t)))
         else if env_topic envelope = Str ''MilestoneApproved'' then
           bindR (asBigEv (data ''amount'')) (\<lambda>amount.
             Inr (Some (MilestoneReleased base (asNumberEv (coalesce (data ''milestone'') topic1))
               (asText (data ''recipient'')) amount)))
         else if env_topic envelope = Str ''DisputeRaised'' then
           bindR (asBigEv (data ''at'')) (\<lambda>t.
             Inr (Some (DisputeRaised base
               (text_or (asText (coalesce (data ''raised_by'') (data ''raisedBy''))) (asText topic1)) t)))
         else if env_topic envelope = Str ''DisputeSettled'' then
           bindR (asBigEv (coalesce (data ''funder_amt'') (data ''funderAmount''))) (\<lambda>fa.
           bindR (asBigEv (coalesce (data ''recip_amt'') (data ''recipientAmount''))) (\<lambda>ra.
             Inr (Some (DisputeResolved base (text_or (asText (data ''arbitrator'')) (asText topic1))
               (asNumberEv (coalesce (data ''funder_bps'') (data ''funderBps'')))
               (asNumberEv (coalesce (data ''recip_bps'') (data ''recipientBps''))) fa ra))))
         else if env_topic envelope = Str ''TimeoutRefunded'' then
           bindR (asBigEv (data ''amount'')) (\<lambda>amount.
           bindR (asBigEv (data ''at'')) (\<lambda>t.
             Inr (Some (TimeoutRefunded base (text_or (asText (data ''funder'')) (asText topic1)) amount t))))
         else Inr None)"

definition parseContractEvents :: "xdr_lib \<Rightarrow> raw_event list \<Rightarrow> astra_event list js" where
  "parseContractEvents X events =
     bindR (mapR (parseRawEvent X) events) (\<lambda>envelopes.
     bindR (mapR toDomainEvent envelopes) (\<lambda>ds.
       Inr (List.map_filter (\<lambda>d. d) ds)))"

section \<open>128-bit amounts\<close>

text \<open>The two halves of a signed 128-bit integer, as XDR carries it.\<close>

definition sc_i128 :: "int \<Rightarrow> scval" where
  "sc_i128 n = ScI128 (word_of_int (n div 2 ^ 64)) (word_of_int n)"

definition sc_u128 :: "int \<Rightarrow> scval" where
  "sc_u128 n = ScU128 (word_of_int (n div 2 ^ 64)) (word_of_int n)"

lemma uint_word64: "uint (word_of_int n :: 64 word) = n mod 2 ^ 64"
  by (simp add: unsigned_of_int take_bit_eq_mod)

lemma sint_word64:
  assumes "- (2 ^ 63) \<le> n" "n < 2 ^ 63"
  shows "sint (word_of_int n :: 64 word) = n"
proof -
  have "signed_take_bit 63 n = n" using assms by (simp add: signed_take_bit_int_eq_self_iff)
  then show ?thesis by (simp add: signed_of_int)
qed

lemma halves: "shl64 (n div 2 ^ 64) + n mod 2 ^ 64 = n"
  by (simp add: shl64_def)

lemma decode_i128:
  assumes "- (2 ^ 127) \<le> n" "n < 2 ^ 127"
  shows "decodeScVal X (sc_i128 n) = Inr (BigInt (if n < 0 then n - 2 ^ 128 else n))"
proof -
  have "- (2 ^ 63) \<le> n div 2 ^ 64" "n div 2 ^ 64 < 2 ^ 63"
    using assms zdiv_mono1 [OF assms(1), of "2 ^ 64"] by simp_all
  then have hi: "sint (word_of_int (n div 2 ^ 64) :: 64 word) = n div 2 ^ 64" by (rule sint_word64)
  have "n div 2 ^ 64 < 0 \<longleftrightarrow> n < 0" by (rule pos_imp_zdiv_neg_iff) simp
  then show ?thesis
    unfolding sc_i128_def decodeScVal.simps hi uint_word64 halves Let_def by (simp only:)
qed

text \<open>128-bit amounts: unsigned ones and signed ones that are not negative are decoded to the amount;
  a negative amount is decoded to a value that is too small by exactly \<open>2 ^ 128\<close>, outside the
  signed 128-bit range.\<close>

theorem i128_decoded:
  "(0 \<le> n \<and> n < 2 ^ 128 \<longrightarrow> decodeScVal X (sc_u128 n) = Inr (BigInt n))
   \<and> (0 \<le> n \<and> n < 2 ^ 127 \<longrightarrow> decodeScVal X (sc_i128 n) = Inr (BigInt n))
   \<and> (- (2 ^ 127) \<le> n \<and> n < 0 \<longrightarrow>
        (\<exists>m. decodeScVal X (sc_i128 n) = Inr (BigInt m) \<and> m = n - 2 ^ 128 \<and> m < - (2 ^ 127)))"
proof -
  have "decodeScVal X (sc_u128 n) = Inr (BigInt n)" if "0 \<le> n" "n < 2 ^ 128"
  proof -
    have "n div 2 ^ 64 < 2 ^ 64" "0 \<le> n div 2 ^ 64" using that by (simp_all add: pos_imp_zdiv_nonneg_iff)
    then have "n div 2 ^ 64 mod 2 ^ 64 = n div 2 ^ 64" by simp
    then show ?thesis unfolding sc_u128_def decodeScVal.simps uint_word64 by (simp only: halves)
  qed
  moreover have "decodeScVal X (sc_i128 n) = Inr (BigInt n)" if "0 \<le> n" "n < 2 ^ 127"
    using that decode_i128 [of n X] by simp
  moreover have "\<exists>m. decodeScVal X (sc_i128 n) = Inr (BigInt m) \<and> m = n - 2 ^ 128 \<and> m < - (2 ^ 127)"
    if "- (2 ^ 127) \<le> n" "n < 0"
    using that decode_i128 [of n X] by simp
  ultimately show ?thesis by blast
qed

definition sample_xdr :: xdr_lib where
  "sample_xdr = \<lparr>fromXDR = (\<lambda>_. Inl (PlainErr ''bad xdr'')), other_native = (\<lambda>_. Inl (PlainErr ''no native form'')),
     other_xdr = (\<lambda>_. ''AAAA'')\<rparr>"

theorem i128_decoded_witness:
  "\<exists>m. decodeScVal sample_xdr (sc_i128 (- 1)) = Inr (BigInt m) \<and> m = - 1 - 2 ^ 128"
  using i128_decoded [of "- 1" sample_xdr] by auto

section \<open>The contract's events\<close>

text \<open>
  The events of contracts/escrow/src/events.rs: the first field of each is the second topic,
  the other fields are a map under their names.
\<close>

datatype chain_event =
    C_Initialized string string string string int "32 word"
  | C_Deposited string int
  | C_Created "32 word" int "8 word list"
  | C_Submitted "32 word" string "8 word list" "64 word"
  | C_Approved "32 word" string int
  | C_Raised string "64 word"
  | C_Settled string "32 word" "32 word" int int
  | C_Timeout string int "64 word"
  | C_Paused string bool "64 word"

fun chain_topic :: "chain_event \<Rightarrow> string" where
  "chain_topic (C_Initialized _ _ _ _ _ _) = ''EscrowInitialized''"
| "chain_topic (C_Deposited _ _) = ''FundsDeposited''"
| "chain_topic (C_Submitted _ _ _ _) = ''MilestoneSubmitted''"
| "chain_topic (C_Approved _ _ _) = ''MilestoneApproved''"
| "chain_topic (C_Raised _ _) = ''DisputeRaised''"
| "chain_topic (C_Settled _ _ _ _ _) = ''DisputeSettled''"
| "chain_topic (C_Timeout _ _ _) = ''TimeoutRefunded''"
| "chain_topic (C_Created _ _ _) = ''MilestoneCreated''"
| "chain_topic (C_Paused _ _ _) = ''EmergencyPaused''"

fun chain_indexed :: "chain_event \<Rightarrow> scval" where
  "chain_indexed (C_Initialized f _ _ _ _ _) = ScAddress f"
| "chain_indexed (C_Deposited f _) = ScAddress f"
| "chain_indexed (C_Submitted m _ _ _) = ScU32 m"
| "chain_indexed (C_Approved m _ _) = ScU32 m"
| "chain_indexed (C_Raised r _) = ScAddress r"
| "chain_indexed (C_Settled a _ _ _ _) = ScAddress a"
| "chain_indexed (C_Timeout f _ _) = ScAddress f"
| "chain_indexed (C_Created m _ _) = ScU32 m"
| "chain_indexed (C_Paused a _ _) = ScAddress a"

fun chain_fields :: "chain_event \<Rightarrow> (string \<times> scval) list" where
  "chain_fields (C_Initialized f r a t n c) =
     [(''arbitrator'', ScAddress a), (''count'', ScU32 c), (''recipient'', ScAddress r), (''token'', ScAddress t),
      (''total'', sc_i128 n)]"
| "chain_fields (C_Deposited f n) = [(''amount'', sc_i128 n)]"
| "chain_fields (C_Submitted m r p t) = [(''at'', ScU64 t), (''proof'', ScBytes p), (''recipient'', ScAddress r)]"
| "chain_fields (C_Approved m r n) = [(''amount'', sc_i128 n), (''recipient'', ScAddress r)]"
| "chain_fields (C_Raised r t) = [(''at'', ScU64 t)]"
| "chain_fields (C_Settled a f r fa ra) =
     [(''funder_amt'', sc_i128 fa), (''funder_bps'', ScU32 f), (''recip_amt'', sc_i128 ra), (''recip_bps'', ScU32 r)]"
| "chain_fields (C_Timeout f n t) = [(''amount'', sc_i128 n), (''at'', ScU64 t)]"
| "chain_fields (C_Created m n d) = [(''amount'', sc_i128 n), (''desc'', ScBytes d)]"
| "chain_fields (C_Paused a p t) = [(''at'', ScU64 t), (''paused'', ScBool p)]"

fun chain_amounts :: "chain_event \<Rightarrow> int list" where
  "chain_amounts (C_Initialized f r a t n c) = [n]"
| "chain_amounts (C_Deposited f n) = [n]"
| "chain_amounts (C_Approved m r n) = [n]"
| "chain_amounts (C_Settled a f r fa ra) = [fa, ra]"
| "chain_amounts (C_Timeout f n t) = [n]"
| "chain_amounts (C_Created m n d) = [n]"
| "chain_amounts _ = []"

definition published :: "string \<Rightarrow> event_base \<Rightarrow> chain_event \<Rightarrow> raw_event" where
  "published label base e =
     \<lparr>raw_contractId = Some (ev_contractId base), raw_topic = None,
      raw_topics = Some [ScSymbol label, chain_indexed e],
      raw_value = Some (ScValue (ScMap (Some (map (\<lambda>(k, v). (ScSymbol k, v)) (chain_fields e))))),
      raw_ledger = ev_ledger base, raw_txHash = ev_txHash base\<rparr>"

definition u32_num :: "32 word \<Rightarrow> jsnum" where
  "u32_num w = Fin (of_nat (unat w))"

text \<open>The domain event of a contract event; \<open>toDomainEvent\<close> has none for a milestone created and for
  an emergency pause.\<close>

fun chain_domain :: "event_base \<Rightarrow> chain_event \<Rightarrow> astra_event option" where
  "chain_domain b (C_Initialized f r a t n c) = Some (EscrowInitialized b f r a t n (u32_num c))"
| "chain_domain b (C_Deposited f n) = Some (FundsDeposited b f n)"
| "chain_domain b (C_Submitted m r p t) = Some (ProofSubmitted b (u32_num m) r (bytesToHex p) (uint t))"
| "chain_domain b (C_Approved m r n) = Some (MilestoneReleased b (u32_num m) r n)"
| "chain_domain b (C_Raised r t) = Some (DisputeRaised b r (uint t))"
| "chain_domain b (C_Settled a f r fa ra) = Some (DisputeResolved b a (u32_num f) (u32_num r) fa ra)"
| "chain_domain b (C_Timeout f n t) = Some (TimeoutRefunded b f n (uint t))"
| "chain_domain b (C_Created m n d) = None"
| "chain_domain b (C_Paused a p t) = None"

definition amount_ok :: "int \<Rightarrow> bool" where
  "amount_ok n = (0 \<le> n \<and> n < 2 ^ 127)"

lemma decode_amount: "amount_ok n \<Longrightarrow> decodeScVal X (sc_i128 n) = Inr (BigInt n)"
  using decode_i128 [of n X] by (simp add: amount_ok_def)

lemma decode_symbol_entries:
  assumes "list_all2 (\<lambda>(k, v) (j, y). j = k \<and> decodeScVal X v = Inr y) kvs kys" "distinct (map fst r @ map fst kvs)"
  shows "decodeEntries X r (map (\<lambda>(k, v). (ScSymbol k, v)) kvs) = Inr (r @ kys)"
  using assms
proof (induction kvs kys arbitrary: r rule: list_all2_induct)
  case (Cons kv kvs jy kys)
  obtain k v y where kv: "kv = (k, v)" "jy = (k, y)" "decodeScVal X v = Inr y"
    using Cons.hyps(1) by (cases kv; cases jy) auto
  have "jm_get k r = None" using Cons.prems kv by (auto simp: jm_get_None_iff)
  then have "jm_set k y r = r @ [(k, y)]" by (rule jm_set_absent)
  moreover have "decodeEntries X (r @ [(k, y)]) (map (\<lambda>(k, v). (ScSymbol k, v)) kvs) = Inr ((r @ [(k, y)]) @ kys)"
    by (rule Cons.IH) (use Cons.prems kv in auto)
  ultimately show ?case by (simp add: kv map_key_def)
qed simp

fun decoded_fields :: "chain_event \<Rightarrow> (string \<times> jsval) list" where
  "decoded_fields (C_Initialized f r a t n c) =
     [(''arbitrator'', Str a), (''count'', Num (u32_num c)), (''recipient'', Str r), (''token'', Str t), (''total'', BigInt n)]"
| "decoded_fields (C_Deposited f n) = [(''amount'', BigInt n)]"
| "decoded_fields (C_Submitted m r p t) = [(''at'', BigInt (uint t)), (''proof'', Bytes p), (''recipient'', Str r)]"
| "decoded_fields (C_Approved m r n) = [(''amount'', BigInt n), (''recipient'', Str r)]"
| "decoded_fields (C_Raised r t) = [(''at'', BigInt (uint t))]"
| "decoded_fields (C_Settled a f r fa ra) =
     [(''funder_amt'', BigInt fa), (''funder_bps'', Num (u32_num f)), (''recip_amt'', BigInt ra), (''recip_bps'', Num (u32_num r))]"
| "decoded_fields (C_Timeout f n t) = [(''amount'', BigInt n), (''at'', BigInt (uint t))]"
| "decoded_fields (C_Created m n d) = [(''amount'', BigInt n), (''desc'', Bytes d)]"
| "decoded_fields (C_Paused a p t) = [(''at'', BigInt (uint t)), (''paused'', Bool p)]"

lemma decode_fields:
  assumes "list_all amount_ok (chain_amounts e)"
  shows "decodeScVal X (ScMap (Some (map (\<lambda>(k, v). (ScSymbol k, v)) (chain_fields e)))) = Inr (Obj (decoded_fields e))"
proof -
  have "list_all2 (\<lambda>(k, v) (j, y). j = k \<and> decodeScVal X v = Inr y) (chain_fields e) (decoded_fields e)"
    using assms by (cases e) (simp_all add: decode_amount u32_num_def)
  moreover have "distinct (map fst (chain_fields e))" by (cases e) simp_all
  ultimately show ?thesis using decode_symbol_entries [of X "chain_fields e" "decoded_fields e" "[]"] by simp
qed

fun decoded_indexed :: "chain_event \<Rightarrow> jsval" where
  "decoded_indexed (C_Initialized f _ _ _ _ _) = Str f"
| "decoded_indexed (C_Deposited f _) = Str f"
| "decoded_indexed (C_Submitted m _ _ _) = Num (u32_num m)"
| "decoded_indexed (C_Approved m _ _) = Num (u32_num m)"
| "decoded_indexed (C_Raised r _) = Str r"
| "decoded_indexed (C_Settled a _ _ _ _) = Str a"
| "decoded_indexed (C_Timeout f _ _) = Str f"
| "decoded_indexed (C_Created m _ _) = Num (u32_num m)"
| "decoded_indexed (C_Paused a _ _) = Str a"

lemma decode_indexed: "decodeScVal X (chain_indexed e) = Inr (decoded_indexed e)"
  by (cases e) (simp_all add: u32_num_def)

lemma table_lookup_Str: "map_of t k = Some v \<Longrightarrow> table_lookup t k = Str v"
  by (simp add: table_lookup_def)

lemma coalesce_text: "coalesce (coalesce v (Str s)) w = coalesce v (Str s)"
  by (cases v) simp_all

lemma parse_published:
  assumes "list_all amount_ok (chain_amounts e)"
  shows "parseRawEvent X (published label b e) =
    Inr \<lparr>env_contractId = ev_contractId b,
         env_topic = coalesce (table_lookup TOPIC_ALIASES label) (Str label),
         env_topics = [Str label, decoded_indexed e], env_value = Obj (decoded_fields e),
         env_ledger = ev_ledger b, env_txHash = ev_txHash b\<rparr>"
  using decode_fields [OF assms, of X]
  by (simp add: parseRawEvent_def published_def deserializeTopics_def decode_indexed nth_value_def asText_def
      scValFromUnknown_def coalesce_text Let_def del: decodeScVal.simps(14))

lemma domain_of_published:
  assumes "list_all amount_ok (chain_amounts e)" "map_of TOPIC_ALIASES label = Some (chain_topic e)"
  shows "bindR (parseRawEvent X (published label b e)) toDomainEvent = Inr (chain_domain b e)"
proof -
  have "parseRawEvent X (published label b e) =
    Inr \<lparr>env_contractId = ev_contractId b, env_topic = Str (chain_topic e),
         env_topics = [Str label, decoded_indexed e], env_value = Obj (decoded_fields e),
         env_ledger = ev_ledger b, env_txHash = ev_txHash b\<rparr>"
    using parse_published [OF assms(1)] table_lookup_Str [OF assms(2)] by simp
  then show ?thesis
    by (cases e) (simp_all add: toDomainEvent_def event_data_def nth_value_def asBigEv_def asNumberEv_def asText_def
        text_or_def Let_def)
qed

text \<open>C3: Every list of events of the escrow contract, of any of its nine kinds, each published under a
  label the parser knows for its kind and with non-negative amounts, is decoded without error
  into exactly the list of domain events that say the same: same order, same parties,
  amounts, ids, hashes (as hex) and times, with the ledger and transaction they came from.
  The two kinds that have no domain event, a milestone created and an emergency pause, are
  dropped, and nothing else is.\<close>

theorem contract_events_decoded:
  assumes "list_all (\<lambda>(label, b, e). list_all amount_ok (chain_amounts e)
     \<and> map_of TOPIC_ALIASES label = Some (chain_topic e)) es"
  shows "parseContractEvents X (map (\<lambda>(label, b, e). published label b e) es) =
    Inr (List.map_filter (\<lambda>(label, b, e). chain_domain b e) es)"
proof -
  define env where "env = (\<lambda>(label, b, e). projr (parseRawEvent X (published label b e)))"
  have e: "parseRawEvent X (published label b e) = Inr (env (label, b, e))"
      "toDomainEvent (env (label, b, e)) = Inr (chain_domain b e)" if "(label, b, e) \<in> set es" for label b e
  proof -
    have ok: "list_all amount_ok (chain_amounts e)" "map_of TOPIC_ALIASES label = Some (chain_topic e)"
      using assms that by (auto simp: list_all_iff)
    show *: "parseRawEvent X (published label b e) = Inr (env (label, b, e))"
      using parse_published [OF ok(1)] by (simp add: env_def)
    show "toDomainEvent (env (label, b, e)) = Inr (chain_domain b e)"
      using domain_of_published [OF ok, of X b] * by simp
  qed
  have "mapR (parseRawEvent X) (map (\<lambda>(label, b, e). published label b e) es) = Inr (map env es)"
    using e(1) by (induction es) auto
  moreover have "mapR toDomainEvent (map env es) = Inr (map (\<lambda>(label, b, e). chain_domain b e) es)"
    using e(2) by (induction es) auto
  moreover have "List.map_filter (\<lambda>d. d) (map (\<lambda>(label, b, e). chain_domain b e) es) =
      List.map_filter (\<lambda>(label, b, e). chain_domain b e) es"
    by (simp add: List.map_filter_def filter_map comp_def)
  ultimately show ?thesis by (simp add: parseContractEvents_def)
qed

definition sample_base :: event_base where
  "sample_base = \<lparr>ev_contractId = ''C'', ev_ledger = None, ev_txHash = None\<rparr>"

theorem contract_events_decoded_witness:
  "parseContractEvents sample_xdr (map (\<lambda>(label, b, e). published label b e)
      [(''proof'', sample_base, C_Submitted 3 ''GR'' [255] 50), (''created'', sample_base, C_Created 3 50 [171]),
       (''paused'', sample_base, C_Paused ''GA'' True 60), (''DisputeSettled'', sample_base, C_Settled ''GA'' 4000 6000 4 6)])
   = Inr [ProofSubmitted sample_base (u32_num 3) ''GR'' (bytesToHex [255]) (uint (50 :: 64 word)),
          DisputeResolved sample_base ''GA'' (u32_num 4000) (u32_num 6000) 4 6]"
  by (subst contract_events_decoded) (simp_all add: amount_ok_def TOPIC_ALIASES_def List.map_filter_simps)

text \<open>An event whose first topic is not one of the known labels is dropped, whatever it carries, and
  that includes the snake_case names (such as \<open>milestone_submitted\<close>); an event without topics
  gets the empty topic, never \<open>unknown\<close>, and is dropped too.\<close>

theorem unknown_topic_dropped:
  assumes "parseRawEvent X event = Inr env"
  shows "(raw_topics event = Some (ScSymbol label # ts) \<and> map_of TOPIC_ALIASES label = None \<longrightarrow> toDomainEvent env = Inr None)
     \<and> (raw_topics event = Some [] \<longrightarrow> env_topic env = Str [] \<and> toDomainEvent env = Inr None)"
proof -
  have canonical: "env_topic env \<notin> Str ` snd ` set TOPIC_ALIASES \<Longrightarrow> toDomainEvent env = Inr None"
    by (simp add: toDomainEvent_def TOPIC_ALIASES_def)
  have "env_topic env \<notin> Str ` snd ` set TOPIC_ALIASES"
    if t: "raw_topics event = Some (ScSymbol label # ts)" and none: "map_of TOPIC_ALIASES label = None"
  proof -
    have "env_topic env = coalesce (table_lookup TOPIC_ALIASES label) (Str label)"
      using assms t
      by (auto simp: parseRawEvent_def deserializeTopics_def bindR_Inr_iff nth_value_def asText_def coalesce_text Let_def)
    moreover have "label \<notin> snd ` set TOPIC_ALIASES"
      using none by (auto simp: TOPIC_ALIASES_def split: if_splits)
    ultimately show ?thesis using none by (auto simp: table_lookup_def)
  qed
  moreover have "env_topic env = Str []" if "raw_topics event = Some []"
    using assms that
    by (auto simp: parseRawEvent_def deserializeTopics_def bindR_Inr_iff nth_value_def asText_def table_lookup_def
        TOPIC_ALIASES_def PROTOTYPE_MEMBERS_def)
  moreover have "Str [] \<notin> Str ` snd ` set TOPIC_ALIASES" by (simp add: TOPIC_ALIASES_def)
  ultimately show ?thesis using canonical by auto
qed

theorem unknown_topic_dropped_witness:
  "bindR (parseRawEvent sample_xdr (published ''milestone_submitted'' sample_base (C_Submitted 3 ''GR'' [255] 50))) toDomainEvent = Inr None"
proof -
  have "list_all amount_ok (chain_amounts (C_Submitted 3 ''GR'' [255] 50))" by simp
  then obtain env where env: "parseRawEvent sample_xdr (published ''milestone_submitted'' sample_base (C_Submitted 3 ''GR'' [255] 50)) = Inr env"
    using parse_published by blast
  have "map_of TOPIC_ALIASES ''milestone_submitted'' = None" by (simp add: TOPIC_ALIASES_def)
  then show ?thesis
    using unknown_topic_dropped [OF env, of "''milestone_submitted''" "[ScU32 3]"] env by (simp add: published_def)
qed

end
