(* ===== verification/EventWatcher.thy ===== *)
theory EventWatcher
  imports EventParser
begin

text \<open>
  packages/sdk/src/events.ts: the older decoder of contract events (\<open>decodeContractEvents\<close>,
  \<open>parseAstraFlowEvent\<close>) and the watcher that polls the RPC server. \<open>scValToNative\<close>,
  \<open>toXDR\<close> and the answers of the RPC server are parameters. The asynchronous methods are
  split where they await: a step relation on the watcher, its pending calls and the live
  intervals of the timer gives their interleavings. Handlers are numbered, and act on an
  environment state.
\<close>

section \<open>Decoding\<close>

definition TOPIC_LABELS :: "(string \<times> string) list" where
  "TOPIC_LABELS =
    [(''init'', ''EscrowInitialized''), (''EscrowInitialized'', ''EscrowInitialized''),
     (''deposit'', ''FundsDeposited''), (''FundsDeposited'', ''FundsDeposited''),
     (''proof'', ''ProofSubmitted''), (''ProofSubmitted'', ''ProofSubmitted''),
     (''release'', ''MilestoneReleased''), (''MilestoneReleased'', ''MilestoneReleased''),
     (''dispute'', ''DisputeRaised''), (''DisputeRaised'', ''DisputeRaised''),
     (''DisputeResolved'', ''DisputeResolved'')]"

record sc_lib =
  sc_native :: "scval \<Rightarrow> jsval js"
  sc_xdr :: "scval \<Rightarrow> string"

text \<open>The label is \<open>undefined\<close> where \<open>JSON.stringify\<close> of the native value is.\<close>

definition readTopic :: "sc_lib \<Rightarrow> scval \<Rightarrow> jsval" where
  "readTopic S t =
     (case sc_native S t of
        Inl _ \<Rightarrow> Str (sc_xdr S t)
      | Inr native \<Rightarrow>
          (case native of
             Str s \<Rightarrow> Str s
           | Num _ \<Rightarrow> Str (js_string native)
           | BigInt _ \<Rightarrow> Str (js_string native)
           | _ \<Rightarrow> (case json_stringify native of
                     Inl _ \<Rightarrow> Str (sc_xdr S t)
                   | Inr None \<Rightarrow> Undefined
                   | Inr (Some s) \<Rightarrow> Str s)))"

definition readPayload :: "sc_lib \<Rightarrow> scval \<Rightarrow> jsval" where
  "readPayload S v =
     (case sc_native S v of
        Inl _ \<Rightarrow> Str (sc_xdr S v)
      | Inr native \<Rightarrow> (case native of Bytes bs \<Rightarrow> Str (bytesToHex bs) | _ \<Rightarrow> native))"

text \<open>\<open>asRecord\<close>: an array and whatever is not an object give the empty object.\<close>

definition asRecord :: "jsval \<Rightarrow> jsval" where
  "asRecord value =
     (case value of Obj _ \<Rightarrow> value | Bytes _ \<Rightarrow> value | ErrV _ \<Rightarrow> value | _ \<Rightarrow> Obj [])"

definition big :: "jsval \<Rightarrow> int js" where
  "big value =
     (case value of
        BigInt n \<Rightarrow> Inr n
      | Num n \<Rightarrow> js_bigint (Num n)
      | Str s \<Rightarrow> if s \<noteq> [] then js_bigint (Str s) else Inr 0
      | _ \<Rightarrow> Inr 0)"

record ledger_event =
  le_contractId :: "string option"
  le_topic :: "scval list option"
  le_topics :: "scval list option"
  le_value :: "scval option"
  le_ledger :: "jsnum option"
  le_txHash :: "string option"

record decoded_event =
  de_contractId :: string
  de_topic :: jsval
  de_labels :: "jsval list"
  de_data :: jsval
  de_ledger :: "jsnum option"
  de_txHash :: "string option"

definition primary_topic :: "jsval list \<Rightarrow> jsval" where
  "primary_topic labels =
     (let first = nth_value labels 0 in
      coalesce (coalesce (table_lookup TOPIC_LABELS (js_string (coalesce first (Str [])))) first) (Str ''unknown''))"

definition decodeContractEvent :: "sc_lib \<Rightarrow> ledger_event \<Rightarrow> decoded_event" where
  "decodeContractEvent S event =
     (let topics = (case le_topics event of Some ts \<Rightarrow> ts | None \<Rightarrow> or_default (le_topic event) []);
          labels = map (readTopic S) topics
      in \<lparr>de_contractId = or_default (le_contractId event) [],
          de_topic = primary_topic labels,
          de_labels = labels,
          de_data = (case le_value event of Some v \<Rightarrow> readPayload S v | None \<Rightarrow> Null),
          de_ledger = le_ledger event,
          de_txHash = le_txHash event\<rparr>)"

definition decodeContractEvents :: "sc_lib \<Rightarrow> ledger_event list \<Rightarrow> decoded_event list" where
  "decodeContractEvents S events = map (decodeContractEvent S) events"

definition parseAstraFlowEvent :: "decoded_event \<Rightarrow> astra_event option js" where
  "parseAstraFlowEvent decoded =
     (let data = js_prop (asRecord (de_data decoded));
          base = \<lparr>ev_contractId = de_contractId decoded, ev_ledger = de_ledger decoded,
                  ev_txHash = de_txHash decoded\<rparr>;
          milestone = js_number (coalesce (coalesce (data ''milestone'') (data ''milestoneId'')) (Num (Fin 0)));
          recipient = js_string (coalesce (data ''recipient'') (Str []))
      in if de_topic decoded = Str ''ProofSubmitted'' then
           bindR (big (data ''at'')) (\<lambda>t.
             Inr (Some (ProofSubmitted base milestone recipient
               (js_string (coalesce (coalesce (data ''proof'') (data ''proofHash'')) (Str []))) t)))
         else if de_topic decoded = Str ''MilestoneReleased'' then
           bindR (big (data ''amount'')) (\<lambda>amount.
             Inr (Some (MilestoneReleased base milestone recipient amount)))
         else if de_topic decoded = Str ''DisputeRaised'' then
           bindR (big (data ''at'')) (\<lambda>t.
             Inr (Some (DisputeRaised base
               (js_string (coalesce (coalesce (data ''raised_by'') (data ''raisedBy'')) (Str []))) t)))
         else if de_topic decoded = Str ''DisputeResolved'' then
           bindR (big (coalesce (data ''funder_amt'') (data ''funderAmount''))) (\<lambda>fa.
           bindR (big (coalesce (data ''recip_amt'') (data ''recipientAmount''))) (\<lambda>ra.
             Inr (Some (DisputeResolved base (js_string (coalesce (data ''arbitrator'') (Str [])))
               (js_number (coalesce (coalesce (data ''funder_bps'') (data ''funderBps'')) (Num (Fin 0))))
               (js_number (coalesce (coalesce (data ''recip_bps'') (data ''recipientBps'')) (Num (Fin 0)))) fa ra))))
         else Inr None)"

section \<open>The watcher\<close>

record watcher_options =
  wo_contractId :: string
  wo_network :: "network_name option"
  wo_rpcUrl :: "string option"
  wo_pollIntervalMs :: "jsnum option"
  wo_startLedger :: "jsnum option"

record watcher =
  wa_rpcUrl :: string
  wa_contractId :: string
  wa_pollIntervalMs :: jsnum
  wa_cursor :: "string option"
  wa_startLedger :: "jsnum option"
  wa_timer :: "nat option"
  wa_handlers :: "nat list"

text \<open>The \<open>rpc.Server\<close> constructor may refuse the URL.\<close>

definition new_watcher :: "(string \<Rightarrow> unit js) \<Rightarrow> watcher_options \<Rightarrow> watcher js" where
  "new_watcher connect options =
     (let url = or_default (wo_rpcUrl options) (net_rpcUrl (NETWORKS (or_default (wo_network options) Testnet))) in
      bindR (connect url) (\<lambda>_.
        Inr \<lparr>wa_rpcUrl = url, wa_contractId = wo_contractId options,
             wa_pollIntervalMs = or_default (wo_pollIntervalMs options) (Fin 4000),
             wa_cursor = None, wa_startLedger = wo_startLedger options, wa_timer = None, wa_handlers = []\<rparr>))"

definition watcher_on :: "nat \<Rightarrow> watcher \<Rightarrow> watcher" where
  "watcher_on h w =
     w\<lparr>wa_handlers := if h \<in> set (wa_handlers w) then wa_handlers w else wa_handlers w @ [h]\<rparr>"

definition watcher_off :: "nat \<Rightarrow> watcher \<Rightarrow> watcher" where
  "watcher_off h w = w\<lparr>wa_handlers := filter (\<lambda>x. x \<noteq> h) (wa_handlers w)\<rparr>"

datatype page_start = FromCursor string | FromLedger jsnum

record page_request =
  rq_start :: page_start
  rq_limit :: nat
  rq_contractIds :: "string list"

definition poll_request :: "watcher \<Rightarrow> page_request" where
  "poll_request w =
     \<lparr>rq_start = (case wa_cursor w of
          Some c \<Rightarrow> if c \<noteq> [] then FromCursor c else FromLedger (or_default (wa_startLedger w) (Fin 1))
        | None \<Rightarrow> FromLedger (or_default (wa_startLedger w) (Fin 1))),
      rq_limit = 100, rq_contractIds = [wa_contractId w]\<rparr>"

record events_page =
  pg_cursor :: "string option"
  pg_latestLedger :: "jsnum option"
  pg_events :: "ledger_event list"

definition take_page :: "events_page \<Rightarrow> watcher \<Rightarrow> watcher" where
  "take_page page w =
     w\<lparr>wa_cursor := pg_cursor page,
       wa_startLedger := (case pg_latestLedger page of Some n \<Rightarrow> Some n | None \<Rightarrow> wa_startLedger w)\<rparr>"

definition own_event :: "watcher \<Rightarrow> ledger_event \<Rightarrow> ledger_event" where
  "own_event w event =
     \<lparr>le_contractId = Some (or_default (le_contractId event) (wa_contractId w)), le_topic = None,
      le_topics = le_topic event, le_value = le_value event, le_ledger = le_ledger event,
      le_txHash = le_txHash event\<rparr>"

definition page_events :: "sc_lib \<Rightarrow> watcher \<Rightarrow> events_page \<Rightarrow> astra_event list js" where
  "page_events S w page =
     bindR (mapR parseAstraFlowEvent (decodeContractEvents S (map (own_event w) (pg_events page))))
       (\<lambda>typed. Inr (List.map_filter (\<lambda>e. e) typed))"

fun is_watched :: "astra_event \<Rightarrow> bool" where
  "is_watched (MilestoneReleased _ _ _ _) = True"
| "is_watched (DisputeRaised _ _ _) = True"
| "is_watched (DisputeResolved _ _ _ _ _ _) = True"
| "is_watched (ProofSubmitted _ _ _ _ _) = True"
| "is_watched _ = False"

text \<open>The handler calls of a page: event by event, each to the handlers in the order of the set.\<close>

definition handler_calls :: "nat list \<Rightarrow> astra_event list \<Rightarrow> (nat \<times> astra_event) list" where
  "handler_calls hs events = concat (map (\<lambda>e. map (\<lambda>h. (h, e)) hs) (filter is_watched events))"

type_synonym 's handler_sem = "nat \<Rightarrow> astra_event \<Rightarrow> 's \<Rightarrow> unit js \<times> 's"

fun call_handlers :: "'s handler_sem \<Rightarrow> (nat \<times> astra_event) list \<Rightarrow> 's \<Rightarrow> unit js \<times> 's" where
  "call_handlers run [] s = (Inr (), s)"
| "call_handlers run ((h, e) # calls) s =
     (case run h e s of
        (Inl err, s') \<Rightarrow> (Inl err, s')
      | (Inr _, s') \<Rightarrow> call_handlers run calls s')"

text \<open>What \<open>poll\<close> does once the page has arrived.\<close>

definition poll_page :: "sc_lib \<Rightarrow> 's handler_sem \<Rightarrow> events_page \<Rightarrow> watcher \<Rightarrow> 's
    \<Rightarrow> astra_event list js \<times> watcher \<times> 's" where
  "poll_page S run page w s =
     (let w' = take_page page w in
      case page_events S w' page of
        Inl err \<Rightarrow> (Inl err, w', s)
      | Inr typed \<Rightarrow>
          (case call_handlers run (handler_calls (wa_handlers w') typed) s of
             (Inl err, s') \<Rightarrow> (Inl err, w', s')
           | (Inr _, s') \<Rightarrow> (Inr typed, w', s')))"

section \<open>Delivery\<close>

lemma parse_watched: "parseAstraFlowEvent d = Inr (Some e) \<Longrightarrow> is_watched e"
  by (auto simp: parseAstraFlowEvent_def Let_def bindR_Inr_iff split: if_splits)

lemma page_events_watched:
  assumes "page_events S w page = Inr typed"
  shows "list_all is_watched typed"
proof -
  obtain ds where ds: "mapR parseAstraFlowEvent (decodeContractEvents S (map (own_event w) (pg_events page))) = Inr ds"
      "typed = List.map_filter (\<lambda>e. e) ds"
    using assms by (auto simp: page_events_def bindR_Inr_iff)
  have "is_watched e" if "Some e \<in> set ds" for e
    using that ds(1) mapR_nth mapR_length parse_watched by (metis in_set_conv_nth)
  then show ?thesis by (auto simp: ds(2) list_all_iff List.map_filter_def)
qed

lemma handler_calls_all:
  "list_all is_watched events \<Longrightarrow> handler_calls hs events = concat (map (\<lambda>e. map (\<lambda>h. (h, e)) hs) events)"
  by (induction events) (simp_all add: handler_calls_def)

lemma call_handlers_log:
  assumes "\<And>h e s. run h e s = (Inr (), s @ [(h, e)])"
  shows "call_handlers run calls s = (Inr (), s @ calls)"
  by (induction calls arbitrary: s) (auto simp: assms)

lemma call_handlers_append:
  "call_handlers run (xs @ ys) s =
     (case call_handlers run xs s of (Inl e, s') \<Rightarrow> (Inl e, s') | (Inr _, s') \<Rightarrow> call_handlers run ys s')"
  by (induction xs arbitrary: s) (auto split: prod.splits sum.splits)

text \<open>The effect of one \<open>poll\<close> on the environment, whatever the handlers do.\<close>

lemma poll_page_watcher: "fst (snd (poll_page S run page w s)) = take_page page w"
  by (auto simp: poll_page_def Let_def split: sum.splits prod.splits)

lemma handlers_take_page [simp]: "wa_handlers (take_page page w) = wa_handlers w"
  by (simp add: take_page_def)

lemma own_event_take_page [simp]: "own_event (take_page page w) = own_event w"
  by (simp add: own_event_def take_page_def fun_eq_iff)

text \<open>C33: A poll of handlers that record their calls, when it ends well, has called every handler, in
  the order they registered, with every event it returns, event by event, and with nothing
  else. The events it returns are those of the page, in the order of the page and as often
  as they stand there: every event of the page is parsed without error, and those that the
  parser drops are left out. All of them are of the four kinds the watcher reports.\<close>

theorem poll_delivers:
  assumes "poll_page S (\<lambda>h e seen. (Inr (), seen @ [(h, e)])) page w seen = (Inr typed, w', seen')"
  shows "seen' = seen @ concat (map (\<lambda>e. map (\<lambda>h. (h, e)) (wa_handlers w)) typed)
     \<and> list_all is_watched typed
     \<and> (\<exists>parsed. map (\<lambda>raw. parseAstraFlowEvent (decodeContractEvent S (own_event w raw))) (pg_events page) = map Inr parsed
          \<and> typed = List.map_filter (\<lambda>e. e) parsed)"
proof -
  have ok: "page_events S (take_page page w) page = Inr typed"
    and seen': "seen' = seen @ handler_calls (wa_handlers w) typed"
    using assms by (auto simp: poll_page_def Let_def call_handlers_log split: sum.splits)
  obtain ds where ds: "mapR parseAstraFlowEvent (decodeContractEvents S (map (own_event w) (pg_events page))) = Inr ds"
      "typed = List.map_filter (\<lambda>e. e) ds"
    using ok by (auto simp: page_events_def bindR_Inr_iff)
  have "list_all2 (\<lambda>raw d. parseAstraFlowEvent (decodeContractEvent S (own_event w raw)) = Inr d) (pg_events page) ds"
    using ds(1) by (simp add: mapR_Inr_iff decodeContractEvents_def list_all2_map1)
  then have "map (\<lambda>raw. parseAstraFlowEvent (decodeContractEvent S (own_event w raw))) (pg_events page) = map Inr ds"
    by (induction rule: list_all2_induct) simp_all
  then show ?thesis
    using seen' ds(2) page_events_watched [OF ok] by (auto simp: handler_calls_all)
qed

text \<open>One event whose fields cannot be converted loses its whole page: the poll fails without
  calling any handler, for any event of the page, and the watcher has already moved its cursor
  behind the page, so that the next request does not ask for those events again.\<close>

theorem bad_event_loses_page:
  assumes "raw \<in> set (pg_events page)"
    and "parseAstraFlowEvent (decodeContractEvent S (own_event w raw)) = Inl err"
    and "pg_cursor page = Some c" "c \<noteq> []"
  shows "\<exists>err' w'. poll_page S run page w s = (Inl err', w', s) \<and> rq_start (poll_request w') = FromCursor c"
proof -
  have "\<not> is_ok (mapR parseAstraFlowEvent (decodeContractEvents S (map (own_event w) (pg_events page))))"
    using assms(1,2) unfolding mapR_is_ok decodeContractEvents_def by (auto intro!: bexI [of _ raw])
  then obtain err' where "page_events S (take_page page w) page = Inl err'"
    by (auto simp: page_events_def bindR_Inl_iff is_ok_def split: sum.splits)
  then have "poll_page S run page w s = (Inl err', take_page page w, s)" by (simp add: poll_page_def Let_def)
  moreover have "rq_start (poll_request (take_page page w)) = FromCursor c"
    using assms(3,4) by (simp add: poll_request_def take_page_def)
  ultimately show ?thesis by blast
qed

definition sample_sc :: sc_lib where
  "sample_sc = \<lparr>sc_native = decodeScVal sample_xdr, sc_xdr = (\<lambda>_. ''AAAA'')\<rparr>"

definition sample_watcher :: watcher where
  "sample_watcher = \<lparr>wa_rpcUrl = ''https://rpc'', wa_contractId = ''C'', wa_pollIntervalMs = Fin 4000, wa_cursor = None,
     wa_startLedger = Some (Fin 7), wa_timer = None, wa_handlers = [0, 1]\<rparr>"

definition sample_ledger_event :: "string \<Rightarrow> (string \<times> scval) list \<Rightarrow> ledger_event" where
  "sample_ledger_event label kvs =
     \<lparr>le_contractId = None, le_topic = Some [ScSymbol label], le_topics = None,
      le_value = Some (ScMap (Some (map (\<lambda>(k, v). (ScSymbol k, v)) kvs))), le_ledger = Some (Fin 8), le_txHash = None\<rparr>"

definition sample_page :: events_page where
  "sample_page = \<lparr>pg_cursor = Some ''c1'', pg_latestLedger = Some (Fin 9), pg_events =
     [sample_ledger_event ''dispute'' [(''raised_by'', ScString ''GA''), (''at'', ScU64 5)],
      sample_ledger_event ''dispute'' [(''at'', ScBool True)],
      sample_ledger_event ''dispute'' [(''at'', ScString ''-'')]]\<rparr>"

theorem bad_event_loses_page_witness:
  "\<exists>err w'. poll_page sample_sc (\<lambda>h e seen. (Inr (), seen @ [(h, e)])) sample_page sample_watcher [] = (Inl err, w', [])
     \<and> rq_start (poll_request w') = FromCursor ''c1''"
proof -
  have "string_to_bigint ''-'' = None"
    by (simp add: string_to_bigint_def trim_def trim_left_def is_ws_def radix_prefix_def starts_with_def split_sign_def
        all_digits_def)
  then have bad: "parseAstraFlowEvent (decodeContractEvent sample_sc (own_event sample_watcher
      (sample_ledger_event ''dispute'' [(''at'', ScString ''-'')]))) = Inl SyntaxErr"
    by (simp add: parseAstraFlowEvent_def decodeContractEvent_def own_event_def sample_ledger_event_def sample_sc_def
        readTopic_def readPayload_def primary_topic_def nth_value_def table_lookup_def TOPIC_LABELS_def asRecord_def
        big_def map_key_def Let_def)
  show ?thesis
    by (rule bad_event_loses_page [OF _ bad]) (simp_all add: sample_page_def)
qed

theorem poll_delivers_witness:
  "\<exists>w' seen. poll_page sample_sc (\<lambda>h e seen. (Inr (), seen @ [(h, e)])) (sample_page\<lparr>pg_events := take 1 (pg_events sample_page)\<rparr>)
      sample_watcher [] = (Inr [DisputeRaised \<lparr>ev_contractId = ''C'', ev_ledger = Some (Fin 8), ev_txHash = None\<rparr> ''GA'' 5], w', seen)
     \<and> map fst seen = [0, 1]"
proof -
  let ?e = "DisputeRaised \<lparr>ev_contractId = ''C'', ev_ledger = Some (Fin 8), ev_txHash = None\<rparr> ''GA'' 5"
  have "parseAstraFlowEvent (decodeContractEvent sample_sc (own_event sample_watcher
      (sample_ledger_event ''dispute'' [(''raised_by'', ScString ''GA''), (''at'', ScU64 5)]))) = Inr (Some ?e)"
    by (simp add: parseAstraFlowEvent_def decodeContractEvent_def own_event_def sample_ledger_event_def sample_sc_def
        sample_watcher_def readTopic_def readPayload_def primary_topic_def nth_value_def table_lookup_def TOPIC_LABELS_def
        asRecord_def big_def map_key_def Let_def)
  then have "page_events sample_sc (take_page (sample_page\<lparr>pg_events := take 1 (pg_events sample_page)\<rparr>) sample_watcher)
      (sample_page\<lparr>pg_events := take 1 (pg_events sample_page)\<rparr>) = Inr [?e]"
    by (simp add: page_events_def sample_page_def decodeContractEvents_def List.map_filter_simps)
  then have p: "poll_page sample_sc (\<lambda>h e seen. (Inr (), seen @ [(h, e)])) (sample_page\<lparr>pg_events := take 1 (pg_events sample_page)\<rparr>)
      sample_watcher [] = (Inr [?e], take_page (sample_page\<lparr>pg_events := take 1 (pg_events sample_page)\<rparr>) sample_watcher,
        [] @ handler_calls (wa_handlers sample_watcher) [?e])"
    by (simp add: poll_page_def Let_def call_handlers_log)
  show ?thesis
    using poll_delivers [OF p] p by (auto simp: sample_watcher_def)
qed

section \<open>The contract's events seen by the watcher\<close>

definition chain_payload :: "chain_event \<Rightarrow> scval" where
  "chain_payload e = ScMap (Some (map (\<lambda>(k, v). (ScSymbol k, v)) (chain_fields e)))"

definition on_ledger :: "string \<Rightarrow> event_base \<Rightarrow> chain_event \<Rightarrow> ledger_event" where
  "on_ledger label b e =
     \<lparr>le_contractId = Some (ev_contractId b), le_topic = Some [ScSymbol label, chain_indexed e], le_topics = None,
      le_value = Some (chain_payload e), le_ledger = ev_ledger b, le_txHash = ev_txHash b\<rparr>"

definition native_agrees :: "sc_lib \<Rightarrow> xdr_lib \<Rightarrow> string \<Rightarrow> chain_event \<Rightarrow> bool" where
  "native_agrees S X label e =
     list_all (\<lambda>v. sc_native S v = decodeScVal X v) [ScSymbol label, chain_indexed e, chain_payload e]"

lemma decode_on_ledger:
  assumes "native_agrees S X label e" "list_all amount_ok (chain_amounts e)"
  shows "\<exists>l. decodeContractEvent S (own_event w (on_ledger label b e)) =
     \<lparr>de_contractId = ev_contractId b, de_topic = coalesce (table_lookup TOPIC_LABELS label) (Str label),
      de_labels = [Str label, l], de_data = Obj (decoded_fields e), de_ledger = ev_ledger b, de_txHash = ev_txHash b\<rparr>"
proof -
  have "sc_native S (ScSymbol label) = Inr (Str label)"
    and v: "sc_native S (chain_payload e) = Inr (Obj (decoded_fields e))"
    using assms(1) decode_fields [OF assms(2), of X] by (simp_all add: native_agrees_def chain_payload_def del: decodeScVal.simps(14))
  then have "readTopic S (ScSymbol label) = Str label" "readPayload S (chain_payload e) = Obj (decoded_fields e)"
    by (simp_all add: readTopic_def readPayload_def)
  then show ?thesis
    by (simp add: decodeContractEvent_def own_event_def on_ledger_def primary_topic_def nth_value_def Let_def coalesce_text)
qed

text \<open>The watcher's topic for an event, and what its report keeps of the event.\<close>

fun watcher_topic :: "chain_event \<Rightarrow> string option" where
  "watcher_topic (C_Submitted _ _ _ _) = Some ''ProofSubmitted''"
| "watcher_topic (C_Approved _ _ _) = Some ''MilestoneReleased''"
| "watcher_topic (C_Raised _ _) = Some ''DisputeRaised''"
| "watcher_topic (C_Settled _ _ _ _ _) = Some ''DisputeResolved''"
| "watcher_topic _ = None"

fun reported_as :: "event_base \<Rightarrow> chain_event \<Rightarrow> astra_event \<Rightarrow> bool" where
  "reported_as b (C_Submitted m r p t) (ProofSubmitted b' m' r' h t') = (b' = b \<and> m' = Fin 0 \<and> r' = r \<and> t' = uint t)"
| "reported_as b (C_Approved m r n) ev = (ev = MilestoneReleased b (Fin 0) r n)"
| "reported_as b (C_Raised r t) ev = (ev = DisputeRaised b [] (uint t))"
| "reported_as b (C_Settled a f r fa ra) ev = (ev = DisputeResolved b [] (u32_num f) (u32_num r) fa ra)"
| "reported_as b _ ev = False"

text \<open>What the watcher makes of the events the escrow contract publishes. The indexed field of an
  event is a topic, which the watcher does not read: every release and every proof is reported
  for milestone 0, and a dispute without the party that raised or settled it. Under the
  names of the contract's current events for proofs, releases and settlements, in CamelCase
  or snake_case, the event is dropped.\<close>

theorem watcher_reads_contract_event:
  assumes "native_agrees S X label e" "list_all amount_ok (chain_amounts e)"
  shows "(map_of TOPIC_LABELS label = None \<longrightarrow>
        parseAstraFlowEvent (decodeContractEvent S (own_event w (on_ledger label b e))) = Inr None)
    \<and> (map_of TOPIC_LABELS label \<noteq> None \<and> map_of TOPIC_LABELS label = watcher_topic e \<longrightarrow>
        (\<exists>ev. parseAstraFlowEvent (decodeContractEvent S (own_event w (on_ledger label b e))) = Inr (Some ev)
           \<and> reported_as b e ev))
    \<and> list_all (\<lambda>l. map_of TOPIC_LABELS l = None)
      [''MilestoneSubmitted'', ''MilestoneApproved'', ''DisputeSettled'', ''milestone_submitted'', ''milestone_approved'',
       ''dispute_raised'', ''dispute_settled'']"
proof -
  define d where "d = decodeContractEvent S (own_event w (on_ledger label b e))"
  have topic: "de_topic d = coalesce (table_lookup TOPIC_LABELS label) (Str label)"
    and rest: "de_contractId d = ev_contractId b" "de_data d = Obj (decoded_fields e)" "de_ledger d = ev_ledger b"
      "de_txHash d = ev_txHash b"
    using decode_on_ledger [OF assms, of w b] by (auto simp: d_def)
  have "parseAstraFlowEvent d = Inr None" if none: "map_of TOPIC_LABELS label = None"
  proof -
    have "label \<notin> snd ` set TOPIC_LABELS" using none by (auto simp: TOPIC_LABELS_def split: if_splits)
    then show ?thesis
      using none by (auto simp: topic parseAstraFlowEvent_def table_lookup_def TOPIC_LABELS_def Let_def)
  qed
  moreover have "\<exists>ev. parseAstraFlowEvent d = Inr (Some ev) \<and> reported_as b e ev"
    if known: "map_of TOPIC_LABELS label = Some t" "watcher_topic e = Some t" for t
  proof -
    have "de_topic d = Str t" using known(1) by (simp add: topic table_lookup_def)
    then show ?thesis
      using known(2) by (cases e) (auto simp: rest parseAstraFlowEvent_def asRecord_def big_def Let_def)
  qed
  moreover have "list_all (\<lambda>l. map_of TOPIC_LABELS l = None)
      [''MilestoneSubmitted'', ''MilestoneApproved'', ''DisputeSettled'', ''milestone_submitted'', ''milestone_approved'',
       ''dispute_raised'', ''dispute_settled'']"
    by (simp add: TOPIC_LABELS_def)
  ultimately show ?thesis unfolding d_def by fastforce
qed

theorem watcher_reads_contract_event_witness:
  "\<exists>ev. parseAstraFlowEvent (decodeContractEvent sample_sc (own_event sample_watcher
        (on_ledger ''release'' sample_base (C_Approved 3 ''GR'' 50)))) = Inr (Some ev)
     \<and> ev = MilestoneReleased sample_base (Fin 0) ''GR'' 50"
proof -
  have "native_agrees sample_sc sample_xdr ''release'' (C_Approved 3 ''GR'' 50)"
    by (simp add: native_agrees_def sample_sc_def)
  moreover have "map_of TOPIC_LABELS ''release'' = Some ''MilestoneReleased''" by (simp add: TOPIC_LABELS_def)
  ultimately show ?thesis
    using watcher_reads_contract_event [of sample_sc sample_xdr "''release''" "C_Approved 3 ''GR'' 50" sample_watcher sample_base]
    by (simp add: amount_ok_def)
qed

section \<open>Interleavings of the watcher's calls\<close>

text \<open>
  A call that awaits an answer of the server: \<open>start\<close> waiting for the latest ledger, \<open>start\<close>
  waiting for its first page, or a poll made by the timer. \<open>rt_intervals\<close> are the intervals
  the event loop has not been told to clear.
\<close>

datatype waiting = Start_Ledger | Start_Page page_request | Tick_Page page_request

fun is_start :: "waiting \<Rightarrow> bool" where
  "is_start (Tick_Page _) = False"
| "is_start _ = True"

record 's runtime =
  rt_watcher :: watcher
  rt_waiting :: "waiting list"
  rt_intervals :: "nat list"
  rt_fresh :: nat
  rt_env :: 's

definition idle_runtime :: "watcher \<Rightarrow> 's \<Rightarrow> 's runtime" where
  "idle_runtime w s = \<lparr>rt_watcher = w, rt_waiting = [], rt_intervals = [], rt_fresh = 0, rt_env = s\<rparr>"

definition drop_nth :: "nat \<Rightarrow> 'a list \<Rightarrow> 'a list" where
  "drop_nth i xs = take i xs @ drop (Suc i) xs"

definition start_call :: "'s runtime \<Rightarrow> 's runtime" where
  "start_call rt =
     (let w = rt_watcher rt in
      if wa_timer w \<noteq> None then rt
      else if \<not> (case wa_startLedger w of Some n \<Rightarrow> truthy (Num n) | None \<Rightarrow> False)
      then rt\<lparr>rt_waiting := rt_waiting rt @ [Start_Ledger]\<rparr>
      else rt\<lparr>rt_waiting := rt_waiting rt @ [Start_Page (poll_request w)]\<rparr>)"

definition start_ledger :: "int \<Rightarrow> nat \<Rightarrow> 's runtime \<Rightarrow> 's runtime" where
  "start_ledger sequence i rt =
     (let w = (rt_watcher rt)\<lparr>wa_startLedger := Some (Fin (of_int (max 1 (sequence - 1))))\<rparr> in
      rt\<lparr>rt_watcher := w, rt_waiting := (rt_waiting rt)[i := Start_Page (poll_request w)]\<rparr>)"

text \<open>\<open>start\<close> after its first page: only a poll that did not fail sets the interval.\<close>

definition start_page :: "sc_lib \<Rightarrow> 's handler_sem \<Rightarrow> events_page \<Rightarrow> nat \<Rightarrow> 's runtime \<Rightarrow> 's runtime" where
  "start_page S run page i rt =
     (case poll_page S run page (rt_watcher rt) (rt_env rt) of (r, w, s) \<Rightarrow>
        let rt' = rt\<lparr>rt_watcher := w, rt_env := s, rt_waiting := drop_nth i (rt_waiting rt)\<rparr> in
        case r of
          Inl _ \<Rightarrow> rt'
        | Inr _ \<Rightarrow> rt'\<lparr>rt_watcher := w\<lparr>wa_timer := Some (rt_fresh rt)\<rparr>,
                      rt_intervals := rt_intervals rt @ [rt_fresh rt], rt_fresh := Suc (rt_fresh rt)\<rparr>)"

definition tick_page :: "sc_lib \<Rightarrow> 's handler_sem \<Rightarrow> events_page \<Rightarrow> nat \<Rightarrow> 's runtime \<Rightarrow> 's runtime" where
  "tick_page S run page i rt =
     (case poll_page S run page (rt_watcher rt) (rt_env rt) of (_, w, s) \<Rightarrow>
        rt\<lparr>rt_watcher := w, rt_env := s, rt_waiting := drop_nth i (rt_waiting rt)\<rparr>)"

definition stop_call :: "'s runtime \<Rightarrow> 's runtime" where
  "stop_call rt =
     (case wa_timer (rt_watcher rt) of
        None \<Rightarrow> rt
      | Some k \<Rightarrow> rt\<lparr>rt_watcher := (rt_watcher rt)\<lparr>wa_timer := None\<rparr>,
                    rt_intervals := filter (\<lambda>j. j \<noteq> k) (rt_intervals rt)\<rparr>)"

datatype watcher_action = A_Start | A_Answer nat | A_Fail nat | A_Tick nat | A_Stop | A_On nat | A_Off nat

inductive watcher_step :: "sc_lib \<Rightarrow> 's handler_sem \<Rightarrow> watcher_action \<Rightarrow> 's runtime \<Rightarrow> 's runtime \<Rightarrow> bool"
  for S :: sc_lib and run :: "'s handler_sem" where
  Step_Start: "watcher_step S run A_Start rt (start_call rt)"
| Step_Ledger: "i < length (rt_waiting rt) \<Longrightarrow> rt_waiting rt ! i = Start_Ledger \<Longrightarrow>
     watcher_step S run (A_Answer i) rt (start_ledger sequence i rt)"
| Step_First: "i < length (rt_waiting rt) \<Longrightarrow> rt_waiting rt ! i = Start_Page q \<Longrightarrow>
     watcher_step S run (A_Answer i) rt (start_page S run page i rt)"
| Step_Page: "i < length (rt_waiting rt) \<Longrightarrow> rt_waiting rt ! i = Tick_Page q \<Longrightarrow>
     watcher_step S run (A_Answer i) rt (tick_page S run page i rt)"
| Step_Fail: "i < length (rt_waiting rt) \<Longrightarrow>
     watcher_step S run (A_Fail i) rt (rt\<lparr>rt_waiting := drop_nth i (rt_waiting rt)\<rparr>)"
| Step_Tick: "k \<in> set (rt_intervals rt) \<Longrightarrow>
     watcher_step S run (A_Tick k) rt
       (rt\<lparr>rt_waiting := rt_waiting rt @ [Tick_Page (poll_request (rt_watcher rt))]\<rparr>)"
| Step_Stop: "watcher_step S run A_Stop rt (stop_call rt)"
| Step_On: "watcher_step S run (A_On h) rt (rt\<lparr>rt_watcher := watcher_on h (rt_watcher rt)\<rparr>)"
| Step_Off: "watcher_step S run (A_Off h) rt (rt\<lparr>rt_watcher := watcher_off h (rt_watcher rt)\<rparr>)"

inductive_simps watcher_tick_iff: "watcher_step S run (A_Tick k) rt rt'"

definition starting :: "'s runtime \<Rightarrow> bool" where
  "starting rt = list_ex is_start (rt_waiting rt)"

text \<open>Runs; a serial one calls \<open>start\<close> only when no earlier \<open>start\<close> is still waiting.\<close>

inductive watcher_runs :: "sc_lib \<Rightarrow> 's handler_sem \<Rightarrow> bool \<Rightarrow> 's runtime \<Rightarrow> 's runtime \<Rightarrow> bool"
  for S :: sc_lib and run :: "'s handler_sem" and serial :: bool and rt0 :: "'s runtime" where
  Runs_Refl: "watcher_runs S run serial rt0 rt0"
| Runs_Step: "watcher_runs S run serial rt0 rt \<Longrightarrow> watcher_step S run act rt rt' \<Longrightarrow>
     serial \<and> act = A_Start \<longrightarrow> \<not> starting rt \<Longrightarrow> watcher_runs S run serial rt0 rt'"

section \<open>The timer\<close>

text \<open>The interval of the timer is the only live one, and no call of \<open>start\<close> waits while it is set.\<close>

definition timer_inv :: "'s runtime \<Rightarrow> bool" where
  "timer_inv rt \<longleftrightarrow>
     rt_intervals rt = (case wa_timer (rt_watcher rt) of None \<Rightarrow> [] | Some k \<Rightarrow> [k])
     \<and> length (filter is_start (rt_waiting rt)) \<le> (if wa_timer (rt_watcher rt) = None then 1 else 0)"

lemma starting_iff: "starting rt \<longleftrightarrow> 0 < length (filter is_start (rt_waiting rt))"
  by (induction "rt_waiting rt" arbitrary: rt) (auto simp: starting_def list_ex_iff filter_empty_conv)

lemma filter_split_nth:
  assumes "i < length xs"
  shows "length (filter P xs) =
     length (filter P (take i xs)) + (if P (xs ! i) then 1 else 0) + length (filter P (drop (Suc i) xs))"
proof -
  have "length (filter P xs) = length (filter P (take i xs @ xs ! i # drop (Suc i) xs))"
    using id_take_nth_drop [OF assms] by simp
  then show ?thesis by simp
qed

lemma filter_drop_nth:
  "i < length xs \<Longrightarrow> length (filter P (drop_nth i xs)) = length (filter P xs) - (if P (xs ! i) then 1 else 0)"
  by (simp add: drop_nth_def filter_split_nth)

lemma filter_update_same:
  "i < length xs \<Longrightarrow> P (xs ! i) = P y \<Longrightarrow> length (filter P (xs[i := y])) = length (filter P xs)"
  by (simp add: upd_conv_take_nth_drop filter_split_nth [of i xs])

lemma timer_poll_page:
  "poll_page S run page w s = (r, w', s') \<Longrightarrow> wa_timer w' = wa_timer w"
  using poll_page_watcher [of S run page w s] by (simp add: take_page_def)

lemma timer_inv_step:
  assumes "watcher_step S run act rt rt'" "timer_inv rt" "act = A_Start \<longrightarrow> \<not> starting rt"
  shows "timer_inv rt'"
  using assms
proof cases
  case Step_Start
  then show ?thesis
    using assms(2,3) by (auto simp: start_call_def timer_inv_def starting_iff Let_def)
next
  case (Step_Ledger i sequence)
  then show ?thesis
    using assms(2) by (auto simp: start_ledger_def timer_inv_def Let_def filter_update_same)
next
  case (Step_First i q page)
  obtain r w s where p: "poll_page S run page (rt_watcher rt) (rt_env rt) = (r, w, s)" by (metis prod_cases3)
  have "0 < length (filter is_start (rt_waiting rt))"
    using Step_First nth_mem [of i "rt_waiting rt"] by (force simp: filter_empty_conv)
  then have "wa_timer (rt_watcher rt) = None" using assms(2) by (auto simp: timer_inv_def split: if_splits)
  then show ?thesis
    using Step_First assms(2) timer_poll_page [OF p]
    by (cases r) (simp_all add: start_page_def p timer_inv_def filter_drop_nth Let_def)
next
  case (Step_Page i q page)
  obtain r w s where p: "poll_page S run page (rt_watcher rt) (rt_env rt) = (r, w, s)" by (metis prod_cases3)
  then show ?thesis
    using Step_Page assms(2) timer_poll_page [OF p] by (simp add: tick_page_def timer_inv_def filter_drop_nth)
next
  case (Step_Fail i)
  then show ?thesis
    using assms(2) by (auto simp: timer_inv_def filter_drop_nth)
next
  case Step_Stop
  then show ?thesis
    using assms(2) by (cases "wa_timer (rt_watcher rt)") (auto simp: stop_call_def timer_inv_def)
qed (auto simp: timer_inv_def watcher_on_def watcher_off_def)

lemma timer_inv_runs:
  assumes "watcher_runs S run True (idle_runtime w s) rt" "wa_timer w = None"
  shows "timer_inv rt"
  using assms
proof (induction rule: watcher_runs.induct)
  case Runs_Refl
  then show ?case by (simp add: timer_inv_def idle_runtime_def)
next
  case (Runs_Step rt act rt')
  then show ?case by (auto intro: timer_inv_step)
qed

text \<open>As long as \<open>start\<close> is not called again while an earlier call still waits, the watcher has at
  most one live interval, the one \<open>stop\<close> clears: after \<open>stop\<close> no poll can be made by a timer,
  and a second \<open>start\<close> while the timer runs changes nothing.\<close>

theorem one_interval:
  assumes "watcher_runs S run True (idle_runtime w s) rt" "wa_timer w = None"
  shows "length (rt_intervals rt) \<le> 1
     \<and> (\<nexists>k rt'. watcher_step S run (A_Tick k) (stop_call rt) rt')
     \<and> (rt_intervals rt \<noteq> [] \<longrightarrow> start_call rt = rt)"
  using timer_inv_runs [OF assms]
  by (cases "wa_timer (rt_watcher rt)")
     (auto simp: timer_inv_def watcher_tick_iff stop_call_def start_call_def Let_def)

definition empty_page :: events_page where
  "empty_page = \<lparr>pg_cursor = None, pg_latestLedger = None, pg_events = []\<rparr>"

lemma poll_empty_page: "poll_page S run empty_page w s = (Inr [], take_page empty_page w, s)"
  by (simp add: poll_page_def page_events_def decodeContractEvents_def handler_calls_def empty_page_def
      List.map_filter_simps Let_def)

lemma start_call_waits:
  assumes "wa_timer (rt_watcher rt) = None" "wa_startLedger (rt_watcher rt) = Some n" "truthy (Num n)"
  shows "start_call rt = rt\<lparr>rt_waiting := rt_waiting rt @ [Start_Page (poll_request (rt_watcher rt))]\<rparr>"
  using assms by (simp add: start_call_def Let_def)

text \<open>An empty first page that arrives for the call of \<open>start\<close> in place 0.\<close>

lemma start_page_empty:
  "start_page S run empty_page 0 rt =
     rt\<lparr>rt_watcher := (take_page empty_page (rt_watcher rt))\<lparr>wa_timer := Some (rt_fresh rt)\<rparr>,
        rt_waiting := tl (rt_waiting rt), rt_intervals := rt_intervals rt @ [rt_fresh rt], rt_fresh := Suc (rt_fresh rt)\<rparr>"
  by (simp add: start_page_def poll_empty_page drop_nth_def drop_Suc Let_def)

text \<open>\<open>stop\<close> does not stop a watcher that is still starting. When \<open>start\<close> is called twice
  before the first call has its page, both calls set an interval, and the one set first is
  never cleared: after \<open>stop\<close> the watcher has no timer and goes on polling. And a \<open>stop\<close>
  made while \<open>start\<close> waits has no effect: the call sets its interval afterwards.\<close>

theorem stop_leaves_interval:
  assumes "wa_timer w = None" "wa_startLedger w = Some n" "truthy (Num n)"
  shows "(\<exists>rt. watcher_runs S run False (idle_runtime w s) rt \<and> wa_timer (rt_watcher (stop_call rt)) = None
       \<and> (\<exists>k rt'. watcher_step S run (A_Tick k) (stop_call rt) rt'))
    \<and> (\<exists>rt rt'. watcher_runs S run True (idle_runtime w s) rt \<and> starting rt
       \<and> watcher_step S run (A_Answer 0) (stop_call rt) rt' \<and> (\<exists>k rt''. watcher_step S run (A_Tick k) rt' rt''))"
proof -
  let ?rt0 = "idle_runtime w s"
  define rt1 where "rt1 = start_call ?rt0"
  define rt2 where "rt2 = start_call rt1"
  define rt3 where "rt3 = start_page S run empty_page 0 rt2"
  define rt4 where "rt4 = start_page S run empty_page 0 rt3"
  have rt1: "rt1 = ?rt0\<lparr>rt_waiting := [Start_Page (poll_request w)]\<rparr>"
    unfolding rt1_def using assms by (subst start_call_waits [where n = n]) (simp_all add: idle_runtime_def)
  have rt2: "rt2 = ?rt0\<lparr>rt_waiting := [Start_Page (poll_request w), Start_Page (poll_request w)]\<rparr>"
    unfolding rt2_def using assms by (subst start_call_waits [where n = n]) (simp_all add: rt1 idle_runtime_def)
  have rt3: "rt3 = ?rt0\<lparr>rt_watcher := (take_page empty_page w)\<lparr>wa_timer := Some 0\<rparr>, rt_waiting := [Start_Page (poll_request w)],
      rt_intervals := [0], rt_fresh := 1\<rparr>"
    by (simp add: rt3_def start_page_empty rt2 idle_runtime_def)
  have rt4: "rt_intervals rt4 = [0, 1]" "wa_timer (rt_watcher rt4) = Some 1"
    by (simp_all add: rt4_def start_page_empty rt3 idle_runtime_def)
  have r1: "watcher_runs S run b ?rt0 rt1" for b
    unfolding rt1_def by (rule Runs_Step [OF Runs_Refl Step_Start]) (simp add: starting_def idle_runtime_def)
  have r2: "watcher_runs S run False ?rt0 rt2"
    unfolding rt2_def by (rule Runs_Step [OF r1 Step_Start]) simp
  have r3: "watcher_runs S run False ?rt0 rt3"
    unfolding rt3_def by (rule Runs_Step [OF r2 Step_First]) (simp_all add: rt2)
  have r4: "watcher_runs S run False ?rt0 rt4"
    unfolding rt4_def by (rule Runs_Step [OF r3 Step_First]) (simp_all add: rt3)
  have "wa_timer (rt_watcher (stop_call rt4)) = None" "rt_intervals (stop_call rt4) = [0]"
    using rt4 by (simp_all add: stop_call_def)
  then have "\<exists>rt. watcher_runs S run False ?rt0 rt \<and> wa_timer (rt_watcher (stop_call rt)) = None
       \<and> (\<exists>k rt'. watcher_step S run (A_Tick k) (stop_call rt) rt')"
    using r4 by (intro exI [of _ rt4]) (simp add: watcher_tick_iff)
  moreover have "stop_call rt1 = rt1" using assms(1) by (simp add: rt1 stop_call_def idle_runtime_def)
  moreover have "watcher_step S run (A_Answer 0) rt1 (start_page S run empty_page 0 rt1)"
    by (rule Step_First) (simp_all add: rt1)
  moreover have "\<exists>k rt''. watcher_step S run (A_Tick k) (start_page S run empty_page 0 rt1) rt''"
    by (auto simp: watcher_tick_iff start_page_empty)
  moreover have "starting rt1" by (simp add: starting_def rt1)
  ultimately show ?thesis using r1 [of True] by metis
qed

theorem one_interval_witness:
  "\<exists>rt. rt_intervals rt = [0 :: nat] \<and> start_call rt = rt
     \<and> (\<nexists>k rt'. watcher_step sample_sc (\<lambda>_ _ s. (Inr (), s)) (A_Tick k) (stop_call (rt :: unit runtime)) rt')"
proof -
  let ?run = "\<lambda>_ _ s :: unit. (Inr (), s)"
  let ?rt1 = "start_call (idle_runtime sample_watcher ())"
  let ?rt2 = "start_page sample_sc ?run empty_page 0 ?rt1"
  have w: "?rt1 = (idle_runtime sample_watcher ())\<lparr>rt_waiting := [Start_Page (poll_request sample_watcher)]\<rparr>"
    by (subst start_call_waits [where n = "Fin 7"]) (simp_all add: idle_runtime_def sample_watcher_def)
  have "watcher_runs sample_sc ?run True (idle_runtime sample_watcher ()) ?rt1"
    by (rule Runs_Step [OF Runs_Refl Step_Start]) (simp add: starting_def idle_runtime_def)
  then have r: "watcher_runs sample_sc ?run True (idle_runtime sample_watcher ()) ?rt2"
    by (rule Runs_Step [OF _ Step_First]) (simp_all add: w)
  have "rt_intervals ?rt2 = [0]" unfolding w by (simp add: start_page_empty idle_runtime_def)
  with one_interval [OF r] show ?thesis by (intro exI [of _ ?rt2]) (simp add: sample_watcher_def)
qed

theorem stop_leaves_interval_witness:
  "\<exists>rt. watcher_runs sample_sc (\<lambda>_ _ s. (Inr (), s)) False (idle_runtime sample_watcher ()) rt
     \<and> wa_timer (rt_watcher (stop_call rt)) = None
     \<and> (\<exists>k rt'. watcher_step sample_sc (\<lambda>_ _ s. (Inr (), s)) (A_Tick k) (stop_call rt) rt')"
  using stop_leaves_interval [of sample_watcher "Fin 7" sample_sc "\<lambda>_ _ s. (Inr (), s)" "()"]
  by (simp add: sample_watcher_def)

end
