(* ===== verification/Indexer.thy ===== *)
theory Indexer
  imports IndexerStore EventWatcher
begin

text \<open>
  apps/server/src/services/indexer.ts, second part: the effect of contract events and of
  recorded proofs on the stored escrows, the queries of the API, and the indexer's start and
  stop. Readings of the clock are arguments: \<open>now 0\<close>, \<open>now 1\<close>, ... are what the places
  of the code that call \<open>isoNow\<close> read.
\<close>

section \<open>Milestones\<close>

text \<open>
  \<open>milestones.sort((a, b) => a.milestoneId - b.milestoneId)\<close> as a stable insertion sort: what
  every stable sort computes where the comparison is consistent, that is for numeric ids.
\<close>

definition id_num :: "jsnum option \<Rightarrow> jsnum" where
  "id_num v = (case v of Some n \<Rightarrow> n | None \<Rightarrow> Fin 0)"

definition after_id :: "stored_milestone \<Rightarrow> stored_milestone \<Rightarrow> bool" where
  "after_id a b = num_lt (id_num (milestoneId b)) (id_num (milestoneId a))"

fun insert_milestone :: "stored_milestone \<Rightarrow> stored_milestone list \<Rightarrow> stored_milestone list" where
  "insert_milestone m [] = [m]"
| "insert_milestone m (x # xs) = (if after_id m x then x # insert_milestone m xs else m # x # xs)"

definition sort_milestones :: "stored_milestone list \<Rightarrow> stored_milestone list" where
  "sort_milestones ms = foldr insert_milestone ms []"

text \<open>\<open>item.milestoneId === milestoneId\<close>\<close>

definition has_id :: "jsnum \<Rightarrow> stored_milestone \<Rightarrow> bool" where
  "has_id n m = (milestoneId m = Some n \<and> n \<noteq> NaN)"

definition default_milestone :: "jsnum \<Rightarrow> stored_milestone" where
  "default_milestone n =
     \<lparr>milestoneId = Some n, payoutAmount = 0, descriptionHash = [], isApproved = False, completedAt = 0,
      status = MS_Pending, submittedAt = None, proofHash = None\<rparr>"

text \<open>The patch, a partial milestone, is the function that overwrites its fields.\<close>

definition upsertMilestone ::
    "stored_milestone list \<Rightarrow> jsnum \<Rightarrow> (stored_milestone \<Rightarrow> stored_milestone) \<Rightarrow> stored_milestone list" where
  "upsertMilestone ms n patch =
     (if \<not> list_ex (has_id n) ms
      then sort_milestones (ms @ [patch (default_milestone n)])
      else map (\<lambda>m. if has_id n m then patch m else m) ms)"

definition proof_patch :: "string \<Rightarrow> int \<Rightarrow> stored_milestone \<Rightarrow> stored_milestone" where
  "proof_patch hash t m = m\<lparr>status := MS_Under_Review, proofHash := Some hash, submittedAt := Some t\<rparr>"

definition release_patch :: "int \<Rightarrow> stored_milestone \<Rightarrow> stored_milestone" where
  "release_patch ledger m = m\<lparr>status := MS_Released, isApproved := True, completedAt := ledger\<rparr>"

definition dispute_patch :: "stored_milestone \<Rightarrow> stored_milestone" where
  "dispute_patch m = (if status m = MS_Released then m else m\<lparr>status := MS_Disputed\<rparr>)"

section \<open>Events\<close>

fun event_topic :: "astra_event \<Rightarrow> string" where
  "event_topic (EscrowInitialized _ _ _ _ _ _ _) = ''EscrowInitialized''"
| "event_topic (FundsDeposited _ _ _) = ''FundsDeposited''"
| "event_topic (ProofSubmitted _ _ _ _ _) = ''ProofSubmitted''"
| "event_topic (MilestoneReleased _ _ _ _) = ''MilestoneReleased''"
| "event_topic (DisputeRaised _ _ _) = ''DisputeRaised''"
| "event_topic (DisputeResolved _ _ _ _ _ _) = ''DisputeResolved''"
| "event_topic (TimeoutRefunded _ _ _ _) = ''TimeoutRefunded''"

fun event_common :: "astra_event \<Rightarrow> event_base" where
  "event_common (EscrowInitialized b _ _ _ _ _ _) = b"
| "event_common (FundsDeposited b _ _) = b"
| "event_common (ProofSubmitted b _ _ _ _) = b"
| "event_common (MilestoneReleased b _ _ _) = b"
| "event_common (DisputeRaised b _ _) = b"
| "event_common (DisputeResolved b _ _ _ _ _) = b"
| "event_common (TimeoutRefunded b _ _ _) = b"

text \<open>The object the timeline keeps of an event: its BigInts are texts.\<close>

fun event_members :: "astra_event \<Rightarrow> (string \<times> jsval) list" where
  "event_members (EscrowInitialized _ f r a t n c) =
     [(''funder'', Str f), (''recipient'', Str r), (''arbitrator'', Str a), (''token'', Str t),
      (''total'', Str (int_dec n)), (''count'', Num c)]"
| "event_members (FundsDeposited _ f n) = [(''funder'', Str f), (''amount'', Str (int_dec n))]"
| "event_members (ProofSubmitted _ m r h t) =
     [(''milestoneId'', Num m), (''recipient'', Str r), (''proofHash'', Str h), (''at'', Str (int_dec t))]"
| "event_members (MilestoneReleased _ m r n) =
     [(''milestoneId'', Num m), (''recipient'', Str r), (''amount'', Str (int_dec n))]"
| "event_members (DisputeRaised _ r t) = [(''raisedBy'', Str r), (''at'', Str (int_dec t))]"
| "event_members (DisputeResolved _ a f r fa ra) =
     [(''arbitrator'', Str a), (''funderBps'', Num f), (''recipientBps'', Num r),
      (''funderAmount'', Str (int_dec fa)), (''recipientAmount'', Str (int_dec ra))]"
| "event_members (TimeoutRefunded _ f n t) =
     [(''funder'', Str f), (''amount'', Str (int_dec n)), (''at'', Str (int_dec t))]"

definition event_object :: "astra_event \<Rightarrow> jsval" where
  "event_object e =
     Obj ([(''topic'', Str (event_topic e)), (''contractId'', Str (ev_contractId (event_common e))),
           (''ledger'', case ev_ledger (event_common e) of Some n \<Rightarrow> Num n | None \<Rightarrow> Undefined),
           (''txHash'', opt_str (ev_txHash (event_common e)))] @ event_members e)"

text \<open>\<open>JSON.parse(JSON.stringify(v))\<close>\<close>

definition json_clone :: "jsval \<Rightarrow> jsval js" where
  "json_clone v =
     bindR (json_stringify v) (\<lambda>t. case t of Some s \<Rightarrow> json_parse s | None \<Rightarrow> Inl SyntaxErr)"

definition unknown_escrow :: "string \<Rightarrow> string \<Rightarrow> indexed_escrow" where
  "unknown_escrow contractId now =
     \<lparr>ie_id = contractId, ie_address = contractId, ie_role = Funder, ie_state = ES_Active,
      ie_config = \<lparr>cfg_funder = [], cfg_recipient = [], cfg_arbitrator = [], cfg_asset = [], cfg_totalAmount = 0,
        cfg_releaseThreshold = Fin 0, cfg_lockSecs = None\<rparr>,
      ie_milestones = [], ie_lockedBalance = 0, ie_updatedAt = now\<rparr>"

text \<open>The \<open>switch\<close> of \<open>applyEvent\<close>.\<close>

fun event_effect :: "astra_event \<Rightarrow> indexed_escrow \<Rightarrow> indexed_escrow js" where
  "event_effect (ProofSubmitted b m r h t) e =
     Inr (e\<lparr>ie_milestones := upsertMilestone (ie_milestones e) m (proof_patch h t)\<rparr>)"
| "event_effect (MilestoneReleased b m r amount) e =
     bindR (js_bigint (Num (or_default (ev_ledger b) (Fin 0)))) (\<lambda>ledger.
       let ms = upsertMilestone (ie_milestones e) m (release_patch ledger);
           locked = (if ie_lockedBalance e > amount then ie_lockedBalance e - amount else 0)
       in Inr (e\<lparr>ie_milestones := ms, ie_lockedBalance := locked,
                 ie_state := (if list_all (\<lambda>m. status m = MS_Released) ms then ES_Completed else ie_state e)\<rparr>))"
| "event_effect (DisputeRaised b r t) e =
     Inr (e\<lparr>ie_state := ES_Disputed, ie_milestones := map dispute_patch (ie_milestones e)\<rparr>)"
| "event_effect (DisputeResolved b a f r fa ra) e = Inr (e\<lparr>ie_state := ES_Completed, ie_lockedBalance := 0\<rparr>)"
| "event_effect _ e = Inr e"

definition applyEvent :: "(nat \<Rightarrow> string) \<Rightarrow> astra_event \<Rightarrow> indexer_db \<Rightarrow> unit js \<times> indexer_db" where
  "applyEvent now event db =
     (let b = event_common event in
      case cache_get (ev_contractId b) db of
        Inl err \<Rightarrow> (Inl err, db)
      | Inr existing \<Rightarrow>
          (case event_effect event (or_default existing (unknown_escrow (ev_contractId b) (now 0))) of
             Inl err \<Rightarrow> (Inl err, db)
           | Inr e \<Rightarrow>
               let db' = cache_upsert (e\<lparr>ie_updatedAt := now 1\<rparr>) db in
               (case json_clone (event_object event) of
                  Inl err \<Rightarrow> (Inl err, db')
                | Inr payload \<Rightarrow>
                    (case appendTimeline
                       \<lparr>te_id = 0, te_escrowId = ev_contractId b, te_topic = event_topic event, te_ledger = ev_ledger b,
                        te_txHash = ev_txHash b, te_payload = payload, te_createdAt = now 2\<rparr> db' of
                       (Inl err, db'') \<Rightarrow> (Inl err, db'')
                     | (Inr _, db'') \<Rightarrow> (Inr (), db'')))))"

section \<open>Queries and proofs\<close>

definition listEscrows :: "row_order \<Rightarrow> list_query \<Rightarrow> indexer_db \<Rightarrow> (indexed_escrow list \<times> nat \<times> int \<times> int) js" where
  "listEscrows order_by q db =
     (let page = clamp_page (or_default (lq_page q) 1); sz = clamp_size (or_default (lq_pageSize q) 20) in
      bindR (cache_list order_by (q\<lparr>lq_page := Some page, lq_pageSize := Some sz\<rparr>) db) (\<lambda>(items, n).
        Inr (items, n, page, sz)))"

definition address_query :: "string \<Rightarrow> list_query" where
  "address_query address = \<lparr>lq_address = Some address, lq_state = None, lq_page = Some 1, lq_pageSize = Some 100\<rparr>"

definition listEscrowsForAddress :: "row_order \<Rightarrow> string \<Rightarrow> indexer_db \<Rightarrow> indexed_escrow list js" where
  "listEscrowsForAddress order_by address db =
     bindR (listEscrows order_by (address_query address) db) (\<lambda>(items, _).
       if items \<noteq> [] then Inr items
       else bindR (cache_get ''demo-escrow'' db) (\<lambda>demo.
         case demo of
           None \<Rightarrow> Inr []
         | Some d \<Rightarrow> Inr [d\<lparr>ie_address := address, ie_role := Funder,
                          ie_config := (ie_config d)\<lparr>cfg_funder := address\<rparr>\<rparr>]))"

definition getEscrowById :: "string \<Rightarrow> indexer_db \<Rightarrow> indexed_escrow option js" where
  "getEscrowById k db = cache_get k db"

definition getEscrowTimeline :: "string \<Rightarrow> int \<Rightarrow> int \<Rightarrow> indexer_db \<Rightarrow> (timeline_entry list \<times> nat \<times> int \<times> int) js" where
  "getEscrowTimeline k page pageSize db =
     bindR (cache_timeline k page pageSize db) (\<lambda>(items, n). Inr (items, n, page, pageSize))"

text \<open>
  \<open>recordProof\<close>: \<open>millis\<close> is \<open>Date.now()\<close>, an integer. The escrow it writes to is the stored one,
  else the first the address has a part in (or the demo escrow), else the seed.
\<close>

definition proof_base :: "row_order \<Rightarrow> (nat \<Rightarrow> string) \<Rightarrow> string \<Rightarrow> indexer_db \<Rightarrow> indexed_escrow js" where
  "proof_base order_by now address db =
     bindR (cache_get address db) (\<lambda>stored.
       case stored of
         Some e \<Rightarrow> Inr e
       | None \<Rightarrow> bindR (listEscrowsForAddress order_by address db) (\<lambda>es.
           Inr (case es of e # _ \<Rightarrow> e | [] \<Rightarrow> seedEscrow (now 0))))"

definition proof_entry :: "string \<Rightarrow> jsnum \<Rightarrow> string \<Rightarrow> string \<Rightarrow> timeline_entry" where
  "proof_entry escrowId m hash created =
     \<lparr>te_id = 0, te_escrowId = escrowId, te_topic = ''ProofSubmitted'', te_ledger = None, te_txHash = None,
      te_payload = Obj [(''milestoneId'', Num m), (''proofHash'', Str hash), (''source'', Str ''github-webhook'')],
      te_createdAt = created\<rparr>"

definition recordProof :: "row_order \<Rightarrow> (nat \<Rightarrow> string) \<Rightarrow> int \<Rightarrow> string \<Rightarrow> jsnum \<Rightarrow> string \<Rightarrow> indexer_db
    \<Rightarrow> indexed_escrow js \<times> indexer_db" where
  "recordProof order_by now millis address m hash db =
     (case proof_base order_by now address db of
        Inl err \<Rightarrow> (Inl err, db)
      | Inr current \<Rightarrow>
          let e = current\<lparr>ie_id := (if ie_id current = ''demo-escrow'' then address else ie_id current),
                ie_address := address,
                ie_milestones := upsertMilestone (ie_milestones current) m (proof_patch hash (millis div 1000)),
                ie_updatedAt := now 1\<rparr>;
              db' = cache_upsert e db
          in (case appendTimeline (proof_entry (ie_id e) m hash (now 2)) db' of
                (Inl err, db'') \<Rightarrow> (Inl err, db'')
              | (Inr _, db'') \<Rightarrow> (Inr e, db'')))"

section \<open>Milestone lists\<close>

definition id_key :: "stored_milestone \<Rightarrow> rat" where
  "id_key m = (case milestoneId m of Some (Fin q) \<Rightarrow> q | _ \<Rightarrow> 0)"

definition safe_id :: "stored_milestone \<Rightarrow> bool" where
  "safe_id m = (\<exists>n. milestoneId m = Some n \<and> safe_num n)"

text \<open>The ids of an escrow's milestones are safe integers in ascending order, none twice.\<close>

definition milestones_ok :: "stored_milestone list \<Rightarrow> bool" where
  "milestones_ok ms = (list_all safe_id ms \<and> sorted_wrt (\<lambda>a b. id_key a < id_key b) ms)"

definition milestone_at :: "jsnum \<Rightarrow> stored_milestone list \<Rightarrow> stored_milestone option" where
  "milestone_at n ms = find (has_id n) ms"

lemma safe_id_key: "safe_id m \<Longrightarrow> milestoneId m = Some (Fin (id_key m))"
  by (auto simp: safe_id_def safe_num_def id_key_def)

lemma after_id_key: "safe_id a \<Longrightarrow> safe_id b \<Longrightarrow> after_id a b \<longleftrightarrow> id_key b < id_key a"
  by (simp add: after_id_def id_num_def safe_id_key)

lemma insert_milestone_insort:
  "list_all safe_id xs \<Longrightarrow> safe_id m \<Longrightarrow> insert_milestone m xs = insort_key id_key m xs"
  by (induction xs) (auto simp: after_id_key)

lemma sort_milestones_sort_key: "list_all safe_id ms \<Longrightarrow> sort_milestones ms = sort_key id_key ms"
proof (induction ms)
  case Nil
  then show ?case by (simp add: sort_milestones_def)
next
  case (Cons m ms)
  moreover have "list_all safe_id (sort_key id_key ms)" using Cons.prems by (simp add: list_all_iff)
  ultimately show ?case
    using insert_milestone_insort [of "sort_key id_key ms" m] by (simp add: sort_milestones_def)
qed

lemma has_id_key: "safe_num n \<Longrightarrow> safe_id m \<Longrightarrow> has_id n m \<longleftrightarrow> n = Fin (id_key m)"
  by (auto simp: has_id_def safe_id_key safe_num_def)

lemma strictly_sorted_sort:
  assumes "distinct (map id_key ms)"
  shows "sorted_wrt (\<lambda>a b. id_key a < id_key b) (sort_key id_key ms)"
proof -
  have "distinct (map id_key (sort_key id_key ms))"
    using assms by (simp add: distinct_map)
  then have "sorted_wrt (<) (map id_key (sort_key id_key ms))"
    using sorted_sort_key [of id_key ms] by (simp add: strict_sorted_iff)
  then show ?thesis by (simp add: sorted_wrt_map)
qed

lemma milestones_distinct: "milestones_ok ms \<Longrightarrow> distinct (map id_key ms)"
  using strict_sorted_iff [of "map id_key ms"] by (simp add: milestones_ok_def sorted_wrt_map)

lemma find_unique:
  assumes "x \<in> set xs" "P x" "\<And>y. y \<in> set xs \<Longrightarrow> P y \<Longrightarrow> y = x"
  shows "find P xs = Some x"
proof -
  have "find P xs \<noteq> None" using assms(1,2) by (auto simp: find_None_iff)
  then obtain y where y: "find P xs = Some y" by blast
  then have "y \<in> set xs \<and> P y" by (auto simp: find_Some_iff)
  then show ?thesis using y assms(3) by blast
qed

lemma milestone_at_mem:
  assumes "milestones_ok ms" "safe_num n"
  shows "milestone_at n ms = Some m \<longleftrightarrow> m \<in> set ms \<and> has_id n m"
proof
  assume "milestone_at n ms = Some m"
  then show "m \<in> set ms \<and> has_id n m" by (auto simp: milestone_at_def find_Some_iff)
next
  assume m: "m \<in> set ms \<and> has_id n m"
  have "y = m" if "y \<in> set ms" "has_id n y" for y
  proof -
    have "safe_id y" "safe_id m" using that m assms(1) by (auto simp: milestones_ok_def list_all_iff)
    then have "id_key y = id_key m" using that(2) m has_id_key [OF assms(2)] by simp
    moreover have "inj_on id_key (set ms)" using milestones_distinct [OF assms(1)] by (simp add: distinct_map)
    ultimately show ?thesis using that(1) m by (meson inj_onD)
  qed
  then show "milestone_at n ms = Some m" using m by (auto simp: milestone_at_def intro: find_unique)
qed

lemma milestone_at_None: "milestone_at n ms = None \<longleftrightarrow> \<not> list_ex (has_id n) ms"
  by (auto simp: milestone_at_def find_None_iff list_ex_iff)

text \<open>The milestones after the update, as a set: one is replaced, or the default one added.\<close>

lemma upsertMilestone_set:
  assumes "milestones_ok ms" "safe_num n" "\<And>m. milestoneId (patch m) = milestoneId m"
  shows "milestones_ok (upsertMilestone ms n patch) \<and> set (upsertMilestone ms n patch) =
      (case milestone_at n ms of
         None \<Rightarrow> insert (patch (default_milestone n)) (set ms)
       | Some m \<Rightarrow> insert (patch m) (set ms - {m}))"
proof (cases "list_ex (has_id n) ms")
  case False
  let ?d = "patch (default_milestone n)"
  have d: "safe_id ?d" "n = Fin (id_key ?d)"
    using assms(2) by (auto simp: safe_id_def assms(3) default_milestone_def safe_num_def id_key_def)
  have "id_key ?d \<notin> id_key ` set ms"
  proof
    assume "id_key ?d \<in> id_key ` set ms"
    then obtain m where m: "m \<in> set ms" "id_key m = id_key ?d" by auto
    then have "safe_id m" using assms(1) by (simp add: milestones_ok_def list_all_iff)
    then have "has_id n m" using has_id_key [OF assms(2)] d(2) m(2) by simp
    then show False using False m(1) by (auto simp: list_ex_iff)
  qed
  then have dist: "distinct (map id_key (ms @ [?d]))" using milestones_distinct [OF assms(1)] by simp
  have all: "list_all safe_id (ms @ [?d])" using d(1) assms(1) by (simp add: milestones_ok_def)
  have "milestones_ok (sort_milestones (ms @ [?d]))"
    using strictly_sorted_sort [OF dist] all
    by (simp only: milestones_ok_def sort_milestones_sort_key [OF all]) (auto simp: list_all_iff)
  moreover have "set (sort_milestones (ms @ [?d])) = insert ?d (set ms)"
    by (simp only: sort_milestones_sort_key [OF all]) simp
  moreover have "milestone_at n ms = None" using False by (simp add: milestone_at_None)
  ultimately show ?thesis using False by (simp add: upsertMilestone_def)
next
  case True
  then obtain m where m: "milestone_at n ms = Some m" using milestone_at_None by blast
  then have m': "m \<in> set ms" using milestone_at_mem [OF assms(1,2)] by auto
  let ?f = "\<lambda>m. if has_id n m then patch m else m"
  have key: "id_key (patch m) = id_key m" "safe_id (patch m) = safe_id m" for m
    by (simp_all add: id_key_def safe_id_def assms(3))
  have only: "has_id n y \<longleftrightarrow> y = m" if "y \<in> set ms" for y
    using milestone_at_mem [OF assms(1,2)] m that by (metis option.inject)
  have "milestones_ok (map ?f ms)"
    using assms(1) by (auto simp: milestones_ok_def list_all_iff key sorted_wrt_map if_distrib cong: if_cong)
  moreover have "set (map ?f ms) = insert (patch m) (set ms - {m})"
    using only m' by (auto simp: image_iff)
  ultimately show ?thesis using True m by (simp add: upsertMilestone_def)
qed

lemma upsertMilestone_ok:
  "milestones_ok ms \<Longrightarrow> safe_num n \<Longrightarrow> (\<And>m. milestoneId (patch m) = milestoneId m) \<Longrightarrow>
     milestones_ok (upsertMilestone ms n patch)"
  by (rule conjunct1 [OF upsertMilestone_set])

lemma upsertMilestone_at:
  assumes "milestones_ok ms" "safe_num n" "\<And>m. milestoneId (patch m) = milestoneId m"
  shows "milestone_at n (upsertMilestone ms n patch) = Some (patch (or_default (milestone_at n ms) (default_milestone n)))"
proof -
  note mem = upsertMilestone_set [where patch = patch, OF assms]
  have "has_id n (patch m) = has_id n m" for m by (simp add: has_id_def assms(3))
  moreover have "has_id n (default_milestone n)"
    using assms(2) by (auto simp: has_id_def default_milestone_def safe_num_def)
  ultimately have "patch (or_default (milestone_at n ms) (default_milestone n)) \<in> set (upsertMilestone ms n patch)
      \<and> has_id n (patch (or_default (milestone_at n ms) (default_milestone n)))"
    using mem milestone_at_mem [OF assms(1,2)] by (cases "milestone_at n ms") auto
  then show ?thesis using milestone_at_mem [OF conjunct1 [OF mem] assms(2)] by blast
qed

lemma upsertMilestone_at_other:
  assumes "milestones_ok ms" "safe_num n" "\<And>m. milestoneId (patch m) = milestoneId m" "safe_num j" "j \<noteq> n"
  shows "milestone_at j (upsertMilestone ms n patch) = milestone_at j ms"
proof -
  note mem = upsertMilestone_set [where patch = patch, OF assms(1-3)]
  have "m \<in> set (upsertMilestone ms n patch) \<and> has_id j m \<longleftrightarrow> m \<in> set ms \<and> has_id j m" for m
    using mem assms(5) milestone_at_mem [OF assms(1,2)]
    by (auto simp: has_id_def default_milestone_def assms(3) split: option.splits)
  then show ?thesis
    using milestone_at_mem [OF assms(1,4)] milestone_at_mem [OF conjunct1 [OF mem] assms(4)]
    by (metis not_None_eq)
qed

text \<open>\<open>upsertMilestone\<close> changes exactly the milestone with the given id, or adds it with the
  default fields under the patch; the list stays in ascending order of the ids, without
  duplicates.\<close>

theorem upsertMilestone_spec:
  assumes "milestones_ok ms" "safe_num n" "\<And>m. milestoneId (patch m) = milestoneId m"
  shows "milestones_ok (upsertMilestone ms n patch)
     \<and> milestone_at n (upsertMilestone ms n patch) = Some (patch (or_default (milestone_at n ms) (default_milestone n)))
     \<and> (\<forall>j. safe_num j \<and> j \<noteq> n \<longrightarrow> milestone_at j (upsertMilestone ms n patch) = milestone_at j ms)"
  using upsertMilestone_ok [where patch = patch, OF assms] upsertMilestone_at [where patch = patch, OF assms]
    upsertMilestone_at_other [where patch = patch, OF assms] by blast

section \<open>The invariant of the indexer\<close>

definition escrow_ok :: "indexed_escrow \<Rightarrow> bool" where
  "escrow_ok e \<longleftrightarrow> milestones_ok (ie_milestones e) \<and> 0 \<le> ie_lockedBalance e
     \<and> safe_num (cfg_releaseThreshold (ie_config e))"

text \<open>Every stored row is the row of a good escrow, and the timeline has the ids 1, 2, ... without gaps.\<close>

definition store_inv :: "indexer_db \<Rightarrow> bool" where
  "store_inv db \<longleftrightarrow> db_sound db
     \<and> (\<forall>k e. cache_get k db = Inr (Some e) \<longrightarrow> escrow_ok e)
     \<and> map tr_id (db_timeline db) = map Suc [0..<db_seq db]"

fun event_numbers :: "astra_event \<Rightarrow> jsnum list" where
  "event_numbers (EscrowInitialized _ _ _ _ _ _ c) = [c]"
| "event_numbers (ProofSubmitted _ m _ _ _) = [m]"
| "event_numbers (MilestoneReleased _ m _ _) = [m]"
| "event_numbers (DisputeResolved _ _ f r _ _) = [f, r]"
| "event_numbers _ = []"

definition event_ok :: "astra_event \<Rightarrow> bool" where
  "event_ok e \<longleftrightarrow> list_all safe_num (event_numbers e) \<and> pred_option safe_num (ev_ledger (event_common e))"

lemma escrow_ok_storable: "escrow_ok e \<Longrightarrow> escrow_storable e"
  by (auto simp: escrow_ok_def escrow_storable_def milestones_ok_def list_all_iff safe_id_def milestone_storable_def)

lemma safe_num_small [simp]: "safe_num (Fin 0)" "safe_num (Fin 1)" "safe_num (Fin (numeral k)) = (numeral k < (2 :: int) ^ 53)"
proof -
  show "safe_num (Fin 0)" unfolding safe_num_def by (rule exI [of _ 0]) simp
  show "safe_num (Fin 1)" unfolding safe_num_def by (rule exI [of _ 1]) simp
  have "(Fin (numeral k) = Fin (of_int i)) = (i = numeral k)" for i
    by (metis jsnum.inject(2) of_int_eq_iff of_int_numeral)
  then show "safe_num (Fin (numeral k)) = (numeral k < (2 :: int) ^ 53)" by (simp add: safe_num_def)
qed

lemma patch_ids [simp]:
  "milestoneId (proof_patch h t m) = milestoneId m" "milestoneId (release_patch l m) = milestoneId m"
  "milestoneId (dispute_patch m) = milestoneId m"
  by (simp_all add: proof_patch_def release_patch_def dispute_patch_def)

lemma event_effect_ok:
  assumes "event_ok ev" "escrow_ok e"
  shows "\<exists>e'. event_effect ev e = Inr e' \<and> escrow_ok e' \<and> ie_id e' = ie_id e"
proof -
  have ms: "milestones_ok (ie_milestones e)" using assms(2) by (simp add: escrow_ok_def)
  have "js_bigint (Num (or_default l (Fin 0))) = Inr (\<lfloor>case or_default l (Fin 0) of Fin q \<Rightarrow> q | _ \<Rightarrow> 0\<rfloor>)"
    if "pred_option safe_num l" for l
    using that is_integer_of_int [of 0] by (cases l) (auto simp: safe_num_def)
  moreover have "milestones_ok (map dispute_patch (ie_milestones e))"
    using ms by (auto simp: milestones_ok_def list_all_iff sorted_wrt_map safe_id_def id_key_def)
  ultimately show ?thesis
    using assms upsertMilestone_ok [OF ms]
    by (cases ev) (auto simp: event_ok_def escrow_ok_def Let_def simp del: js_bigint.simps)
qed

lemma json_clone_plain: "json_plain v \<Longrightarrow> json_clone v = Inr (json_strip v)"
  using json_roundtrip [of v] by (auto simp: json_clone_def)

lemma event_object_plain: "event_ok ev \<Longrightarrow> json_plain (event_object ev)"
  by (cases ev; cases "ev_ledger (event_common ev)"; cases "ev_txHash (event_common ev)")
     (auto simp: event_object_def event_ok_def safe_num_def opt_str_def)

lemma append_plain:
  assumes "json_plain (te_payload entry)"
  shows "\<exists>row. appendTimeline entry db =
     (Inr (entry\<lparr>te_id := Suc (db_seq db)\<rparr>),
      db\<lparr>db_seq := Suc (db_seq db), db_timeline := db_timeline db @ [row]\<rparr>)
     \<and> tr_id row = Suc (db_seq db) \<and> tr_escrow_id row = te_escrowId entry \<and> tr_topic row = te_topic entry"
  using stringify_reads_back(1) [OF assms] by (auto simp: appendTimeline_def Let_def)

lemma store_inv_upsert:
  assumes "store_inv db" "escrow_ok e"
  shows "store_inv (cache_upsert e db)"
proof -
  have "cache_get k (cache_upsert e db) = (if k = ie_id e then Inr (Some e) else cache_get k db)" for k
    using escrows.read_store [OF _ escrow_ok_storable [OF assms(2)]] assms(1)
    by (simp add: store_inv_def db_sound_def cache_get_read cache_upsert_store)
  then show ?thesis
    using assms db_sound_upsert escrow_ok_storable by (simp add: store_inv_def) (simp add: cache_upsert_def)
qed

lemma store_inv_append:
  assumes "store_inv db" "json_plain (te_payload entry)"
  shows "\<exists>r. fst (appendTimeline entry db) = Inr r \<and> store_inv (snd (appendTimeline entry db))
     \<and> length (db_timeline (snd (appendTimeline entry db))) = Suc (length (db_timeline db))
     \<and> db_escrows (snd (appendTimeline entry db)) = db_escrows db"
proof -
  obtain row where "appendTimeline entry db =
     (Inr (entry\<lparr>te_id := Suc (db_seq db)\<rparr>), db\<lparr>db_seq := Suc (db_seq db), db_timeline := db_timeline db @ [row]\<rparr>)"
      "tr_id row = Suc (db_seq db)"
    using append_plain [OF assms(2), of db] by blast
  then show ?thesis
    using assms(1) by (simp add: store_inv_def db_sound_def cache_get_def)
qed

lemma unknown_escrow_ok: "escrow_ok (unknown_escrow c now)"
  by (simp add: escrow_ok_def unknown_escrow_def milestones_ok_def)

lemma seed_escrow_ok: "escrow_ok (seedEscrow now)"
proof -
  have "safe_num (Fin (of_nat 1))" "safe_num (Fin (of_nat 2))" "safe_num (Fin (of_nat 3))" by simp_all
  then have "milestones_ok (ie_milestones (seedEscrow now))"
    by (simp add: milestones_ok_def seedEscrow_def seedMilestone_def safe_id_def id_key_def)
  then show ?thesis by (simp add: escrow_ok_def seedEscrow_def)
qed

lemma store_inv_get:
  assumes "store_inv db"
  obtains x where "cache_get k db = Inr x" "\<And>e. x = Some e \<Longrightarrow> escrow_ok e \<and> ie_id e = k"
proof -
  have sound: "db_sound db" using assms by (simp add: store_inv_def)
  show thesis
    by (rule cache_get_sound [OF sound, of k]) (use assms that in \<open>auto simp: store_inv_def\<close>)
qed

text \<open>One event: it is applied without error, one row is added to the timeline.\<close>

lemma applyEvent_step:
  assumes "store_inv db" "event_ok ev"
  shows "fst (applyEvent now ev db) = Inr () \<and> store_inv (snd (applyEvent now ev db))
     \<and> length (db_timeline (snd (applyEvent now ev db))) = Suc (length (db_timeline db))
     \<and> (\<forall>k. cache_get k (snd (applyEvent now ev db)) =
          (if k = ev_contractId (event_common ev)
           then bindR (cache_get k db) (\<lambda>x. bindR (event_effect ev (or_default x (unknown_escrow k (now 0)))) (\<lambda>e.
                  Inr (Some (e\<lparr>ie_updatedAt := now 1\<rparr>))))
           else cache_get k db))"
proof -
  let ?c = "ev_contractId (event_common ev)"
  obtain x where x: "cache_get ?c db = Inr x" "\<And>e. x = Some e \<Longrightarrow> escrow_ok e \<and> ie_id e = ?c"
    using store_inv_get [OF assms(1)] by blast
  have "escrow_ok (or_default x (unknown_escrow ?c (now 0))) \<and> ie_id (or_default x (unknown_escrow ?c (now 0))) = ?c"
    using x(2) unknown_escrow_ok by (cases x) (simp_all add: unknown_escrow_def)
  then obtain e where e: "event_effect ev (or_default x (unknown_escrow ?c (now 0))) = Inr e" "escrow_ok e" "ie_id e = ?c"
    using event_effect_ok [OF assms(2)] by metis
  let ?e = "e\<lparr>ie_updatedAt := now 1\<rparr>"
  let ?db = "cache_upsert ?e db"
  let ?entry = "\<lparr>te_id = 0, te_escrowId = ?c, te_topic = event_topic ev, te_ledger = ev_ledger (event_common ev),
      te_txHash = ev_txHash (event_common ev), te_payload = json_strip (event_object ev), te_createdAt = now 2\<rparr>"
  have ok: "escrow_ok ?e" using e(2) by (simp add: escrow_ok_def)
  have inv: "store_inv ?db" by (rule store_inv_upsert [OF assms(1) ok])
  have plain: "json_plain (te_payload ?entry)"
    using json_plain_strip(1) [OF event_object_plain [OF assms(2)]] by simp
  obtain r where r: "fst (appendTimeline ?entry ?db) = Inr r" "store_inv (snd (appendTimeline ?entry ?db))"
      "length (db_timeline (snd (appendTimeline ?entry ?db))) = Suc (length (db_timeline ?db))"
      "db_escrows (snd (appendTimeline ?entry ?db)) = db_escrows ?db"
    using store_inv_append [OF inv plain] by blast
  have applied: "applyEvent now ev db = (Inr (), snd (appendTimeline ?entry ?db))"
    using r(1) by (auto simp: applyEvent_def x(1) e(1) json_clone_plain [OF event_object_plain [OF assms(2)]] Let_def
        split: prod.split)
  have "cache_get k ?db = (if k = ?c then Inr (Some ?e) else cache_get k db)" for k
    using escrows.read_store [OF _ escrow_ok_storable [OF ok]] assms(1) e(3)
    by (simp add: store_inv_def db_sound_def cache_get_read cache_upsert_store)
  then have "cache_get k (snd (appendTimeline ?entry ?db)) = (if k = ?c then Inr (Some ?e) else cache_get k db)" for k
    using r(4) by (simp add: cache_get_def)
  then show ?thesis using applied r(2,3) x(1) e(1) by (simp add: cache_upsert_def)
qed

definition run_events :: "((nat \<Rightarrow> string) \<times> astra_event) list \<Rightarrow> indexer_db \<Rightarrow> indexer_db" where
  "run_events evs db = fold (\<lambda>(now, ev) d. snd (applyEvent now ev d)) evs db"

lemma store_inv_new_cache: "store_inv (new_cache now empty_db)"
proof -
  have "cache_get k (new_cache now empty_db) = Inr (Some e) \<Longrightarrow> e = seedEscrow now" for k e
    using cache_get_sound [OF db_sound_empty, of k] escrows.read_store [OF db_sound_empty [unfolded db_sound_def] seed_storable]
    by (simp add: new_cache_def empty_db_def cache_get_read cache_upsert_def escrows.store_def escrows.read_def
        deserialize_row_of seed_storable split: if_splits)
  then show ?thesis
    using seed_escrow_ok db_sound_new_cache [OF db_sound_empty]
    by (auto simp: store_inv_def new_cache_def empty_db_def cache_upsert_def)
qed

lemma run_events_inv:
  "store_inv db \<Longrightarrow> list_all (\<lambda>(now, ev). event_ok ev) evs \<Longrightarrow>
     store_inv (run_events evs db) \<and> length (db_timeline (run_events evs db)) = length (db_timeline db) + length evs"
  unfolding run_events_def
proof (induction evs arbitrary: db)
  case (Cons x evs)
  obtain now ev where x: "x = (now, ev)" by (cases x)
  then show ?case
    using applyEvent_step [OF Cons.prems(1), of ev now] Cons.prems(2) Cons.IH [of "snd (applyEvent now ev db)"] by simp
qed simp

text \<open>C4: From a fresh database, whatever events with safe integer ids and ledgers (amounts, of either
  sign, and texts are not restricted) the indexer applies, in whatever order: none fails, each adds one row to the timeline, whose ids are
  1, 2, 3, ...; every stored escrow can be read back, has its milestones in ascending order of
  their ids without duplicates, and a locked balance that is not negative; and the next such
  event is applied without error too.\<close>

theorem indexer_invariant:
  assumes "list_all (\<lambda>(now, ev). event_ok ev) evs"
  shows "(let db = run_events evs (new_cache now0 empty_db) in
       map tr_id (db_timeline db) = map Suc [0..<length evs]
     \<and> (\<forall>k. \<exists>x. cache_get k db = Inr x \<and> pred_option (\<lambda>e. milestones_ok (ie_milestones e) \<and> 0 \<le> ie_lockedBalance e) x)
     \<and> (\<forall>now ev. event_ok ev \<longrightarrow> fst (applyEvent now ev db) = Inr ()))"
proof -
  let ?db = "run_events evs (new_cache now0 empty_db)"
  have inv: "store_inv ?db" and len: "length (db_timeline ?db) = length evs"
    using run_events_inv [OF store_inv_new_cache assms, of now0] by (simp_all add: new_cache_def empty_db_def cache_upsert_def)
  have ids: "map tr_id (db_timeline ?db) = map Suc [0..<db_seq ?db]" using inv by (simp add: store_inv_def)
  have "db_seq ?db = length evs" using len arg_cong [OF ids, of length] by simp
  then have "map tr_id (db_timeline ?db) = map Suc [0..<length evs]" using ids by simp
  moreover have "\<exists>x. cache_get k ?db = Inr x \<and> pred_option (\<lambda>e. milestones_ok (ie_milestones e) \<and> 0 \<le> ie_lockedBalance e) x" for k
    by (rule store_inv_get [OF inv, of k]) (auto simp: escrow_ok_def option.pred_set)
  moreover have "fst (applyEvent now ev ?db) = Inr ()" if "event_ok ev" for now ev
    using applyEvent_step [OF inv that] by simp
  ultimately show ?thesis by (simp add: Let_def)
qed

section \<open>Releases\<close>

lemma js_bigint_ledger:
  "pred_option safe_num l \<Longrightarrow> \<exists>i. js_bigint (Num (or_default l (Fin 0))) = Inr i"
  using is_integer_of_int [of 0] by (cases l) (auto simp: safe_num_def)

lemma release_get:
  assumes "store_inv db" "event_ok (MilestoneReleased b m r n)" "cache_get (ev_contractId b) db = Inr (Some e)"
  obtains e' ledger where "cache_get (ev_contractId b) (snd (applyEvent now (MilestoneReleased b m r n) db)) = Inr (Some e')"
    "ie_milestones e' = upsertMilestone (ie_milestones e) m (release_patch ledger)"
    "ie_lockedBalance e' = (if ie_lockedBalance e > n then ie_lockedBalance e - n else 0)"
    "ie_state e' = (if list_all (\<lambda>m. status m = MS_Released) (ie_milestones e') then ES_Completed else ie_state e)"
proof -
  obtain i where "js_bigint (Num (or_default (ev_ledger b) (Fin 0))) = Inr i"
    using assms(2) js_bigint_ledger by (auto simp: event_ok_def)
  then show thesis
    using applyEvent_step [OF assms(1,2), of now] assms(3) that by (simp add: Let_def del: js_bigint.simps)
qed

lemma stored_escrow_ok: "store_inv db \<Longrightarrow> cache_get k db = Inr (Some e) \<Longrightarrow> escrow_ok e"
  by (simp add: store_inv_def)

text \<open>A release event marks its milestone released and approved, deducts the amount from the
  locked balance, never below zero, and completes the escrow exactly when every milestone the
  indexer knows of is released. Applying it is not idempotent: an event that is delivered twice
  deducts its amount twice.\<close>

theorem release_effect:
  assumes "store_inv db" "event_ok (MilestoneReleased b m r n)" "0 \<le> n" "cache_get (ev_contractId b) db = Inr (Some e)"
  shows "\<exists>e1 e2. cache_get (ev_contractId b) (run_events [(now, MilestoneReleased b m r n)] db) = Inr (Some e1)
     \<and> cache_get (ev_contractId b) (run_events [(now, MilestoneReleased b m r n), (now', MilestoneReleased b m r n)] db) = Inr (Some e2)
     \<and> ie_lockedBalance e1 = max 0 (ie_lockedBalance e - n)
     \<and> ie_lockedBalance e2 = max 0 (ie_lockedBalance e - 2 * n)
     \<and> pred_option (\<lambda>x. status x = MS_Released \<and> isApproved x) (milestone_at m (ie_milestones e1))
     \<and> milestone_at m (ie_milestones e1) \<noteq> None
     \<and> (ie_state e1 = ES_Completed \<longleftrightarrow>
          list_all (\<lambda>x. status x = MS_Released) (ie_milestones e1) \<or> ie_state e = ES_Completed)"
proof -
  let ?ev = "MilestoneReleased b m r n"
  obtain e1 l where e1: "cache_get (ev_contractId b) (snd (applyEvent now ?ev db)) = Inr (Some e1)"
      "ie_milestones e1 = upsertMilestone (ie_milestones e) m (release_patch l)"
      "ie_lockedBalance e1 = (if ie_lockedBalance e > n then ie_lockedBalance e - n else 0)"
      "ie_state e1 = (if list_all (\<lambda>m. status m = MS_Released) (ie_milestones e1) then ES_Completed else ie_state e)"
    using release_get [OF assms(1,2,4)] by blast
  have inv: "store_inv (snd (applyEvent now ?ev db))" using applyEvent_step [OF assms(1,2)] by blast
  obtain e2 l' where e2: "cache_get (ev_contractId b) (snd (applyEvent now' ?ev (snd (applyEvent now ?ev db)))) = Inr (Some e2)"
      "ie_lockedBalance e2 = (if ie_lockedBalance e1 > n then ie_lockedBalance e1 - n else 0)"
    using release_get [OF inv assms(2) e1(1)] by blast
  have m: "milestones_ok (ie_milestones e)" "safe_num m"
    using stored_escrow_ok [OF assms(1,4)] assms(2) by (simp_all add: escrow_ok_def event_ok_def)
  have "milestone_at m (ie_milestones e1) =
      Some (release_patch l (or_default (milestone_at m (ie_milestones e)) (default_milestone m)))"
    unfolding e1(2) by (rule upsertMilestone_at [OF m]) simp
  moreover have "ie_lockedBalance e2 = max 0 (ie_lockedBalance e - 2 * n)" "ie_lockedBalance e1 = max 0 (ie_lockedBalance e - n)"
    using e1(3) e2(2) assms(3) by auto
  ultimately show ?thesis
    using e1(1,4) e2(1) by (auto simp: run_events_def release_patch_def)
qed

text \<open>A release event for an escrow the indexer has not seen before marks it completed, since the
  only milestone it knows of is the released one, and it stays completed when proofs for other
  milestones arrive afterwards, although those are under review.\<close>

theorem first_release_completes:
  assumes "store_inv db" "event_ok (MilestoneReleased b m r n)" "event_ok (ProofSubmitted b m' r' h t)"
    and "cache_get (ev_contractId b) db = Inr None" "m' \<noteq> m"
  shows "\<exists>e. cache_get (ev_contractId b)
         (run_events [(now, MilestoneReleased b m r n), (now', ProofSubmitted b m' r' h t)] db) = Inr (Some e)
     \<and> ie_state e = ES_Completed
     \<and> map_option status (milestone_at m' (ie_milestones e)) = Some MS_Under_Review"
proof -
  let ?db1 = "snd (applyEvent now (MilestoneReleased b m r n) db)"
  obtain i where i: "js_bigint (Num (or_default (ev_ledger b) (Fin 0))) = Inr i"
    using assms(2) js_bigint_ledger by (auto simp: event_ok_def)
  have ms: "upsertMilestone [] m (release_patch i) = [release_patch i (default_milestone m)]"
    by (simp add: upsertMilestone_def sort_milestones_def)
  have m: "safe_num m" "safe_num m'" using assms(2,3) by (simp_all add: event_ok_def)
  obtain e1 where e1: "cache_get (ev_contractId b) ?db1 = Inr (Some e1)" "ie_state e1 = ES_Completed"
      "ie_milestones e1 = [release_patch i (default_milestone m)]"
    using applyEvent_step [OF assms(1,2), of now] assms(4) i ms
    by (simp add: unknown_escrow_def release_patch_def Let_def del: js_bigint.simps)
  have "milestones_ok [release_patch i (default_milestone m)]"
    using m(1) by (simp add: milestones_ok_def safe_id_def default_milestone_def)
  then have "milestone_at m' (upsertMilestone (ie_milestones e1) m' (proof_patch h t)) =
      Some (proof_patch h t (or_default (milestone_at m' (ie_milestones e1)) (default_milestone m')))"
    unfolding e1(3) by (rule upsertMilestone_at [OF _ m(2)]) simp
  moreover have "store_inv ?db1" using applyEvent_step [OF assms(1,2)] by blast
  ultimately show ?thesis
    using applyEvent_step [OF _ assms(3), of ?db1 now'] e1(1,2) by (simp add: run_events_def proof_patch_def)
qed

section \<open>Proofs\<close>

lemma listEscrowsForAddress_none:
  assumes "store_inv db" "sql_order order_by" "filter (escrow_matches (address_query a)) (stored_escrows db) = []"
    and "cache_get ''demo-escrow'' db = Inr (Some demo)"
  shows "listEscrowsForAddress order_by a db =
     Inr [demo\<lparr>ie_address := a, ie_role := Funder, ie_config := (ie_config demo)\<lparr>cfg_funder := a\<rparr>\<rparr>]"
proof -
  have "db_sound db" using assms(1) by (simp add: store_inv_def)
  then have "filter (row_matches (address_query a)) (map snd (db_escrows db)) =
      map escrow_row_of (filter (escrow_matches (address_query a)) (stored_escrows db))"
    by (simp add: stored_escrows_rows(1) filter_map comp_def row_matches_of)
  then have "filter (row_matches (address_query a)) (map snd (db_escrows db)) = []" using assms(3) by simp
  moreover have "mset (order_by []) = mset []" using assms(2) by (simp only: sql_order_def)
  then have "order_by [] = []" by simp
  ultimately have "cache_list order_by (address_query a) db = Inr ([], 0)"
    by (simp add: cache_list_def page_window_def address_query_def clamp_page_def clamp_size_def first_offset Let_def)
  moreover have "(address_query a)\<lparr>lq_page := Some 1, lq_pageSize := Some 100\<rparr> = address_query a"
    by (simp add: address_query_def)
  ultimately show ?thesis
    using assms(4) by (simp add: listEscrowsForAddress_def listEscrows_def clamp_page_def clamp_size_def address_query_def Let_def)
qed

text \<open>What \<open>recordProof\<close> writes, given the escrow it starts from.\<close>

lemma recordProof_on:
  assumes "store_inv db" "safe_num m" "proof_base order_by now a db = Inr e0" "escrow_ok e0"
  shows "\<exists>e. fst (recordProof order_by now millis a m h db) = Inr e \<and> store_inv (snd (recordProof order_by now millis a m h db))
     \<and> cache_get (ie_id e) (snd (recordProof order_by now millis a m h db)) = Inr (Some e)
     \<and> length (db_timeline (snd (recordProof order_by now millis a m h db))) = Suc (length (db_timeline db))
     \<and> e = e0\<lparr>ie_id := (if ie_id e0 = ''demo-escrow'' then a else ie_id e0), ie_address := a,
              ie_milestones := upsertMilestone (ie_milestones e0) m (proof_patch h (millis div 1000)), ie_updatedAt := now 1\<rparr>"
proof -
  let ?e = "e0\<lparr>ie_id := (if ie_id e0 = ''demo-escrow'' then a else ie_id e0), ie_address := a,
              ie_milestones := upsertMilestone (ie_milestones e0) m (proof_patch h (millis div 1000)), ie_updatedAt := now 1\<rparr>"
  let ?db = "cache_upsert ?e db"
  let ?entry = "proof_entry (ie_id ?e) m h (now 2)"
  have ok: "escrow_ok ?e" using assms(2,4) upsertMilestone_ok by (simp add: escrow_ok_def)
  have inv: "store_inv ?db" by (rule store_inv_upsert [OF assms(1) ok])
  have "json_plain (te_payload ?entry)" using assms(2) by (auto simp: proof_entry_def safe_num_def)
  then obtain r where r: "fst (appendTimeline ?entry ?db) = Inr r" "store_inv (snd (appendTimeline ?entry ?db))"
      "length (db_timeline (snd (appendTimeline ?entry ?db))) = Suc (length (db_timeline ?db))"
      "db_escrows (snd (appendTimeline ?entry ?db)) = db_escrows ?db"
    using store_inv_append [OF inv] by blast
  have rec: "recordProof order_by now millis a m h db = (Inr ?e, snd (appendTimeline ?entry ?db))"
    using r(1) assms(3) by (auto simp: recordProof_def Let_def split: prod.split)
  have "cache_get (ie_id ?e) ?db = Inr (Some ?e)"
    using escrows.read_store [OF _ escrow_ok_storable [OF ok]] assms(1)
    by (simp add: store_inv_def db_sound_def cache_get_read cache_upsert_store)
  then have "cache_get (ie_id ?e) (snd (appendTimeline ?entry ?db)) = Inr (Some ?e)"
    using r(4) by (simp add: cache_get_def)
  then show ?thesis using rec r(2,3) by (simp add: cache_upsert_def)
qed

lemma recordProof_known:
  assumes "store_inv db" "safe_num m" "cache_get a db = Inr (Some e0)" "a \<noteq> ''demo-escrow''"
  shows "\<exists>e db'. recordProof order_by now millis a m h db = (Inr e, db') \<and> cache_get a db' = Inr (Some e)
     \<and> ie_state e = ie_state e0 \<and> ie_lockedBalance e = ie_lockedBalance e0 \<and> ie_config e = ie_config e0
     \<and> milestone_at m (ie_milestones e) =
         Some (proof_patch h (millis div 1000) (or_default (milestone_at m (ie_milestones e0)) (default_milestone m)))
     \<and> (\<forall>j. safe_num j \<and> j \<noteq> m \<longrightarrow> milestone_at j (ie_milestones e) = milestone_at j (ie_milestones e0))"
proof -
  have ok: "escrow_ok e0" "ie_id e0 = a"
    using store_inv_get [OF assms(1), of a] assms(3) by (force, force)
  have base: "proof_base order_by now a db = Inr e0" using assms(3) by (simp add: proof_base_def)
  have ms: "milestones_ok (ie_milestones e0)" using ok(1) by (simp add: escrow_ok_def)
  obtain e where e: "fst (recordProof order_by now millis a m h db) = Inr e"
      "cache_get (ie_id e) (snd (recordProof order_by now millis a m h db)) = Inr (Some e)"
      "e = e0\<lparr>ie_id := a, ie_address := a,
              ie_milestones := upsertMilestone (ie_milestones e0) m (proof_patch h (millis div 1000)), ie_updatedAt := now 1\<rparr>"
    using recordProof_on [OF assms(1,2) base ok(1), of millis h] ok(2) assms(4) by auto
  then show ?thesis
    using upsertMilestone_at [OF ms assms(2), of "proof_patch h (millis div 1000)"]
      upsertMilestone_at_other [OF ms assms(2), of "proof_patch h (millis div 1000)"]
    by (intro exI [of _ e] exI [of _ "snd (recordProof order_by now millis a m h db)"]) (auto simp: prod_eq_iff)
qed

text \<open>C39: \<open>recordProof\<close> for a stored escrow sets the proof and the status Under Review of the given
  milestone and of no other, also when the milestone was released already, and keeps its
  approval flag. For an address no stored escrow knows it makes up an escrow: the demo
  escrow's milestones, balance, state and parties are stored under the address, with the
  address as the funder.\<close>

theorem recordProof_spec:
  assumes "store_inv db" "sql_order order_by" "safe_num m"
  shows "(\<forall>e0. cache_get a db = Inr (Some e0) \<and> a \<noteq> ''demo-escrow'' \<longrightarrow>
       (\<exists>e db'. recordProof order_by now millis a m h db = (Inr e, db') \<and> cache_get a db' = Inr (Some e)
          \<and> ie_state e = ie_state e0 \<and> ie_lockedBalance e = ie_lockedBalance e0 \<and> ie_config e = ie_config e0
          \<and> milestone_at m (ie_milestones e) =
              Some (proof_patch h (millis div 1000) (or_default (milestone_at m (ie_milestones e0)) (default_milestone m)))
          \<and> (\<forall>j. safe_num j \<and> j \<noteq> m \<longrightarrow> milestone_at j (ie_milestones e) = milestone_at j (ie_milestones e0))))
     \<and> (\<forall>demo. cache_get a db = Inr None \<and> filter (escrow_matches (address_query a)) (stored_escrows db) = []
          \<and> cache_get ''demo-escrow'' db = Inr (Some demo) \<longrightarrow>
       (\<exists>e db'. recordProof order_by now millis a m h db = (Inr e, db') \<and> cache_get a db' = Inr (Some e)
          \<and> ie_state e = ie_state demo \<and> ie_lockedBalance e = ie_lockedBalance demo
          \<and> ie_config e = (ie_config demo)\<lparr>cfg_funder := a\<rparr>
          \<and> (\<forall>j. safe_num j \<and> j \<noteq> m \<longrightarrow> milestone_at j (ie_milestones e) = milestone_at j (ie_milestones demo))))"
proof (intro conjI allI impI)
  fix e0
  assume "cache_get a db = Inr (Some e0) \<and> a \<noteq> ''demo-escrow''"
  then show "\<exists>e db'. recordProof order_by now millis a m h db = (Inr e, db') \<and> cache_get a db' = Inr (Some e)
          \<and> ie_state e = ie_state e0 \<and> ie_lockedBalance e = ie_lockedBalance e0 \<and> ie_config e = ie_config e0
          \<and> milestone_at m (ie_milestones e) =
              Some (proof_patch h (millis div 1000) (or_default (milestone_at m (ie_milestones e0)) (default_milestone m)))
          \<and> (\<forall>j. safe_num j \<and> j \<noteq> m \<longrightarrow> milestone_at j (ie_milestones e) = milestone_at j (ie_milestones e0))"
    by (intro recordProof_known [OF assms(1,3)]) simp_all
next
  fix demo
  assume demo: "cache_get a db = Inr None \<and> filter (escrow_matches (address_query a)) (stored_escrows db) = []
      \<and> cache_get ''demo-escrow'' db = Inr (Some demo)"
  let ?d = "demo\<lparr>ie_address := a, ie_role := Funder, ie_config := (ie_config demo)\<lparr>cfg_funder := a\<rparr>\<rparr>"
  have ok: "escrow_ok demo" "ie_id demo = ''demo-escrow''"
    using store_inv_get [OF assms(1), of "''demo-escrow''"] demo by (force, force)
  then have ok': "escrow_ok ?d" by (simp add: escrow_ok_def)
  have base: "proof_base order_by now a db = Inr ?d"
    using demo listEscrowsForAddress_none [OF assms(1,2)] by (simp add: proof_base_def)
  have ms: "milestones_ok (ie_milestones demo)" using ok(1) by (simp add: escrow_ok_def)
  obtain e where e: "fst (recordProof order_by now millis a m h db) = Inr e"
      "cache_get (ie_id e) (snd (recordProof order_by now millis a m h db)) = Inr (Some e)"
      "e = ?d\<lparr>ie_id := a, ie_address := a,
              ie_milestones := upsertMilestone (ie_milestones demo) m (proof_patch h (millis div 1000)), ie_updatedAt := now 1\<rparr>"
    using recordProof_on [OF assms(1,3) base ok', of millis h] ok(2) by auto
  then show "\<exists>e db'. recordProof order_by now millis a m h db = (Inr e, db') \<and> cache_get a db' = Inr (Some e)
          \<and> ie_state e = ie_state demo \<and> ie_lockedBalance e = ie_lockedBalance demo
          \<and> ie_config e = (ie_config demo)\<lparr>cfg_funder := a\<rparr>
          \<and> (\<forall>j. safe_num j \<and> j \<noteq> m \<longrightarrow> milestone_at j (ie_milestones e) = milestone_at j (ie_milestones demo))"
    using upsertMilestone_at_other [OF ms assms(3), of "proof_patch h (millis div 1000)"]
    by (intro exI [of _ e] exI [of _ "snd (recordProof order_by now millis a m h db)"]) (auto simp: prod_eq_iff)
qed

section \<open>Examples\<close>

definition sample_clock :: "nat \<Rightarrow> string" where
  "sample_clock i = ''2026-01-01T00:00:00.000Z''"

lemma sample_store_inv: "store_inv sample_db"
  by (simp add: sample_db_def store_inv_new_cache)

lemma sample_db_get:
  "cache_get ''demo-escrow'' sample_db = Inr (Some (seedEscrow ''now''))"
  "cache_get ''C'' sample_db = Inr None"
proof -
  have "cache_get ''demo-escrow'' sample_db = Inr (Some (seedEscrow ''now'')) \<and> cache_get ''C'' sample_db = Inr None"
    using escrows.read_store [OF db_sound_empty [unfolded db_sound_def] seed_storable]
    by (simp add: sample_db_def new_cache_def empty_db_def cache_get_read cache_upsert_def escrows.store_def)
      (simp add: escrows.read_def jm_get_def escrow_row_of_def seedEscrow_def)
  then show "cache_get ''demo-escrow'' sample_db = Inr (Some (seedEscrow ''now''))" "cache_get ''C'' sample_db = Inr None"
    by simp_all
qed

definition sample_release :: "string \<Rightarrow> astra_event" where
  "sample_release c = MilestoneReleased \<lparr>ev_contractId = c, ev_ledger = Some (Fin 7), ev_txHash = None\<rparr> (Fin 2) ''GR'' 1500000000"

definition sample_proof :: "string \<Rightarrow> astra_event" where
  "sample_proof c = ProofSubmitted \<lparr>ev_contractId = c, ev_ledger = None, ev_txHash = Some ''ff''\<rparr> (Fin 5) ''GR'' ''ab'' 60"

theorem upsertMilestone_spec_witness:
  "milestones_ok (upsertMilestone [] (Fin 3) (release_patch 9))
   \<and> milestone_at (Fin 3) (upsertMilestone [] (Fin 3) (release_patch 9)) = Some (release_patch 9 (default_milestone (Fin 3)))"
  using upsertMilestone_spec [of "[]" "Fin 3" "release_patch 9"] by (simp add: milestones_ok_def milestone_at_def)

theorem indexer_invariant_witness:
  "map tr_id (db_timeline (run_events [(sample_clock, sample_release ''C''), (sample_clock, sample_proof ''C'')]
       (new_cache ''now'' empty_db))) = [1, 2]"
proof -
  have "list_all (\<lambda>(now, ev). event_ok ev) [(sample_clock, sample_release ''C''), (sample_clock, sample_proof ''C'')]"
    by (simp add: event_ok_def sample_release_def sample_proof_def)
  from indexer_invariant [OF this, of "''now''"] show ?thesis by (simp add: Let_def upt_rec numeral_2_eq_2)
qed

theorem release_effect_witness:
  "\<exists>e1 e2. cache_get ''demo-escrow'' (run_events [(sample_clock, sample_release ''demo-escrow'')] sample_db) = Inr (Some e1)
     \<and> cache_get ''demo-escrow'' (run_events [(sample_clock, sample_release ''demo-escrow''),
          (sample_clock, sample_release ''demo-escrow'')] sample_db) = Inr (Some e2)
     \<and> ie_lockedBalance e1 = 1500000000 \<and> ie_lockedBalance e2 = 0"
proof -
  let ?b = "\<lparr>ev_contractId = ''demo-escrow'', ev_ledger = Some (Fin 7), ev_txHash = None\<rparr>"
  have "event_ok (MilestoneReleased ?b (Fin 2) ''GR'' 1500000000)" by (simp add: event_ok_def)
  moreover have "cache_get (ev_contractId ?b) sample_db = Inr (Some (seedEscrow ''now''))" by (simp add: sample_db_get)
  moreover have "ie_lockedBalance (seedEscrow ''now'') = 3000000000" by (simp add: seedEscrow_def)
  ultimately show ?thesis
    using release_effect [OF sample_store_inv, of ?b "Fin 2" "''GR''" 1500000000 "seedEscrow ''now''" sample_clock sample_clock]
    by (auto simp: sample_release_def)
qed

theorem first_release_completes_witness:
  "\<exists>e. cache_get ''C'' (run_events [(sample_clock, sample_release ''C''), (sample_clock,
        ProofSubmitted \<lparr>ev_contractId = ''C'', ev_ledger = Some (Fin 7), ev_txHash = None\<rparr> (Fin 5) ''GR'' ''ab'' 60)] sample_db) =
       Inr (Some e) \<and> ie_state e = ES_Completed"
proof -
  let ?b = "\<lparr>ev_contractId = ''C'', ev_ledger = Some (Fin 7), ev_txHash = None\<rparr>"
  have "event_ok (MilestoneReleased ?b (Fin 2) ''GR'' 1500000000)" "event_ok (ProofSubmitted ?b (Fin 5) ''GR'' ''ab'' 60)"
    by (simp_all add: event_ok_def)
  then show ?thesis
    using first_release_completes [OF sample_store_inv, of ?b "Fin 2" "''GR''" 1500000000 "Fin 5" "''GR''" "''ab''" 60 sample_clock sample_clock]
    by (auto simp: sample_release_def sample_db_get)
qed

theorem recordProof_spec_witness:
  "\<exists>e db'. recordProof stable_order sample_clock 60000 ''C'' (Fin 1) ''ab'' sample_db = (Inr e, db')
     \<and> cache_get ''C'' db' = Inr (Some e) \<and> ie_lockedBalance e = 3000000000"
proof -
  have "filter (escrow_matches (address_query ''C'')) (stored_escrows sample_db) = []"
    by (simp add: sample_db_facts(2)) (simp add: escrow_matches_def address_query_def query_address_def seedEscrow_def)
  moreover have "ie_lockedBalance (seedEscrow ''now'') = 3000000000" by (simp add: seedEscrow_def)
  ultimately show ?thesis
    using recordProof_spec [OF sample_store_inv sql_order_stable, of "Fin 1" "''C''" sample_clock 60000 "''ab''"]
    by (simp add: sample_db_get) blast
qed

end
