(* ===== verification/IndexerService.thy ===== *)
theory IndexerService
  imports Indexer
begin

text \<open>
  apps/server/src/services/indexer.ts, last part: the module's cache and watcher, with
  \<open>getCache\<close>, \<open>startIndexer\<close> and \<open>stopIndexer\<close>, and the indexer as the handler of the SDK's
  watcher. The contents of the database file when it is opened are an argument.
\<close>

text \<open>The fields of apps/server/src/lib/env.ts that the indexer reads.\<close>

record server_env =
  sv_STELLAR_NETWORK :: network_name
  sv_ESCROW_CONTRACT_ID :: "string option"
  sv_SOROBAN_RPC_URL :: "string option"
  sv_INDEXER_POLL_MS :: jsnum

record service =
  sv_cache :: "indexer_db option"
  sv_watcher :: "indexer_db runtime option"

definition getCache :: "string \<Rightarrow> indexer_db \<Rightarrow> service \<Rightarrow> indexer_db \<times> service" where
  "getCache now disk sv =
     (case sv_cache sv of
        Some db \<Rightarrow> (db, sv)
      | None \<Rightarrow> (new_cache now disk, sv\<lparr>sv_cache := Some (new_cache now disk)\<rparr>))"

definition watcher_options_of :: "string \<Rightarrow> server_env \<Rightarrow> watcher_options" where
  "watcher_options_of contractId env =
     \<lparr>wo_contractId = contractId, wo_network = Some (sv_STELLAR_NETWORK env), wo_rpcUrl = sv_SOROBAN_RPC_URL env,
      wo_pollIntervalMs = Some (sv_INDEXER_POLL_MS env), wo_startLedger = None\<rparr>"

text \<open>\<open>startIndexer\<close> up to the first await of \<open>watcher.start()\<close>. Handler 0 is \<open>applyEvent\<close>.\<close>

definition startIndexer :: "(string \<Rightarrow> unit js) \<Rightarrow> server_env \<Rightarrow> string \<Rightarrow> indexer_db \<Rightarrow> service \<Rightarrow> unit js \<times> service" where
  "startIndexer connect env now disk sv0 =
     (case getCache now disk sv0 of (db, sv) \<Rightarrow>
        let contractId = or_default (sv_ESCROW_CONTRACT_ID env) [] in
        if contractId = [] \<or> sv_watcher sv \<noteq> None then (Inr (), sv)
        else case new_watcher connect (watcher_options_of contractId env) of
            Inl e \<Rightarrow> (Inl e, sv)
          | Inr w \<Rightarrow> (Inr (), sv\<lparr>sv_watcher := Some (start_call (idle_runtime (watcher_on 0 w) db))\<rparr>))"

text \<open>What \<open>stopIndexer\<close> leaves of the watcher goes on without the module.\<close>

definition stopIndexer :: "service \<Rightarrow> service \<times> indexer_db runtime option" where
  "stopIndexer sv = (sv\<lparr>sv_watcher := None\<rparr>, map_option stop_call (sv_watcher sv))"

definition indexer_handler :: "(nat \<Rightarrow> string) \<Rightarrow> indexer_db handler_sem" where
  "indexer_handler now h ev db = applyEvent now ev db"

text \<open>
  When the first request of the watcher fails, the indexer does not run and cannot be started
  again: the module still holds the watcher, so \<open>startIndexer\<close> returns at once, and no request
  is waiting and no interval is live.
\<close>

theorem failed_start_sticks:
  assumes "startIndexer connect env now disk \<lparr>sv_cache = None, sv_watcher = None\<rparr> = (Inr (), sv)"
    and "or_default (sv_ESCROW_CONTRACT_ID env) [] \<noteq> []"
  shows "\<exists>rt. sv_watcher sv = Some rt
     \<and> watcher_step S run (A_Fail 0) rt (rt\<lparr>rt_waiting := []\<rparr>) \<and> rt_intervals rt = []
     \<and> startIndexer connect env now disk (sv\<lparr>sv_watcher := Some (rt\<lparr>rt_waiting := []\<rparr>)\<rparr>) =
         (Inr (), sv\<lparr>sv_watcher := Some (rt\<lparr>rt_waiting := []\<rparr>)\<rparr>)"
proof -
  obtain w where w: "new_watcher connect (watcher_options_of (or_default (sv_ESCROW_CONTRACT_ID env) []) env) = Inr w"
      "sv = \<lparr>sv_cache = Some (new_cache now disk), sv_watcher = Some (start_call (idle_runtime (watcher_on 0 w) (new_cache now disk)))\<rparr>"
    using assms by (auto simp: startIndexer_def getCache_def Let_def split: sum.splits)
  let ?rt = "start_call (idle_runtime (watcher_on 0 w) (new_cache now disk))"
  have "wa_timer w = None" "wa_startLedger w = None"
    using w(1) by (auto simp: new_watcher_def watcher_options_of_def bindR_Inr_iff Let_def)
  then have rt: "rt_waiting ?rt = [Start_Ledger]" "rt_intervals ?rt = []"
    by (simp_all add: start_call_def idle_runtime_def watcher_on_def Let_def)
  have "drop_nth 0 (rt_waiting ?rt) = []" by (simp add: rt drop_nth_def)
  then have "watcher_step S run (A_Fail 0) ?rt (?rt\<lparr>rt_waiting := []\<rparr>)"
    using Step_Fail [of 0 ?rt S run] by (simp add: rt)
  moreover have "startIndexer connect env now disk (sv\<lparr>sv_watcher := Some (?rt\<lparr>rt_waiting := []\<rparr>)\<rparr>) =
         (Inr (), sv\<lparr>sv_watcher := Some (?rt\<lparr>rt_waiting := []\<rparr>)\<rparr>)"
    by (simp add: startIndexer_def getCache_def w(2) Let_def)
  ultimately show ?thesis using rt(2) w(2) by (intro exI [of _ ?rt]) simp
qed

section \<open>The indexer behind the watcher\<close>

lemma poll_one_release:
  assumes "page_events S (take_page page w) page = Inr [MilestoneReleased b m r n]" "wa_handlers w = [0]"
    and "store_inv db" "event_ok (MilestoneReleased b m r n)"
  shows "poll_page S (indexer_handler now) page w db =
     (Inr [MilestoneReleased b m r n], take_page page w, run_events [(now, MilestoneReleased b m r n)] db)"
proof -
  have "applyEvent now (MilestoneReleased b m r n) db = (Inr (), snd (applyEvent now (MilestoneReleased b m r n) db))"
    using applyEvent_step [OF assms(3,4), of now] by (simp add: prod_eq_iff)
  then show ?thesis
    using assms(1,2) by (auto simp: poll_page_def handler_calls_def indexer_handler_def run_events_def Let_def split: prod.split)
qed

lemma page_events_contract:
  "wa_contractId w = wa_contractId w' \<Longrightarrow> page_events S w page = page_events S w' page"
proof -
  assume "wa_contractId w = wa_contractId w'"
  then have "own_event w = own_event w'" by (simp add: own_event_def fun_eq_iff)
  then show ?thesis by (simp add: page_events_def)
qed

end
