(* ===== verification/EscrowLife.thy ===== *)
theory EscrowLife
  imports IndexerService
begin

text \<open>
  An abstract specification of the indexer: what it is to know of one escrow is the state, the locked
  balance and the status of each milestone, and each contract event changes them in one step. The
  stored rows of apps/server/src/services/indexer.ts, kept as text and updated by \<open>applyEvent\<close>,
  implement it.
\<close>

section \<open>The specification\<close>

record escrow_view =
  sp_status :: "jsnum \<rightharpoonup> milestone_status"
  sp_locked :: int
  sp_state :: escrow_state

definition fresh_view :: escrow_view where
  "fresh_view = \<lparr>sp_status = Map.empty, sp_locked = 0, sp_state = ES_Active\<rparr>"

fun spec_step :: "astra_event \<Rightarrow> escrow_view \<Rightarrow> escrow_view" where
  "spec_step (ProofSubmitted b m r h t) v = v\<lparr>sp_status := (sp_status v)(m \<mapsto> MS_Under_Review)\<rparr>"
| "spec_step (MilestoneReleased b m r n) v =
     (let st = (sp_status v)(m \<mapsto> MS_Released) in
      v\<lparr>sp_status := st, sp_locked := max 0 (sp_locked v - n),
        sp_state := (if ran st \<subseteq> {MS_Released} then ES_Completed else sp_state v)\<rparr>)"
| "spec_step (DisputeRaised b r t) v =
     v\<lparr>sp_state := ES_Disputed,
       sp_status := (\<lambda>k. map_option (\<lambda>s. if s = MS_Released then s else MS_Disputed) (sp_status v k))\<rparr>"
| "spec_step (DisputeResolved b a f r fa ra) v = v\<lparr>sp_state := ES_Completed, sp_locked := 0\<rparr>"
| "spec_step _ v = v"

text \<open>The life of one milestone.\<close>

fun life :: "jsnum \<Rightarrow> astra_event \<Rightarrow> milestone_status option \<Rightarrow> milestone_status option" where
  "life k (ProofSubmitted b m r h t) s = (if m = k then Some MS_Under_Review else s)"
| "life k (MilestoneReleased b m r n) s = (if m = k then Some MS_Released else s)"
| "life k (DisputeRaised b r t) s = map_option (\<lambda>s. if s = MS_Released then s else MS_Disputed) s"
| "life k _ s = s"

lemma spec_life: "sp_status (fold spec_step evs v) k = fold (life k) evs (sp_status v k)"
proof (induction evs arbitrary: v)
  case (Cons ev evs)
  have "sp_status (spec_step ev v) k = life k ev (sp_status v k)"
    by (cases ev) (simp_all add: Let_def)
  then show ?case using Cons.IH [of "spec_step ev v"] by simp
qed simp

text \<open>What the releases of a run pay out, while no dispute is resolved.\<close>

fun released_amount :: "astra_event \<Rightarrow> int" where
  "released_amount (MilestoneReleased b m r n) = n"
| "released_amount _ = 0"

fun is_resolution :: "astra_event \<Rightarrow> bool" where
  "is_resolution (DisputeResolved b a f r fa ra) = True"
| "is_resolution _ = False"

lemma spec_locked:
  assumes "list_all (\<lambda>ev. \<not> is_resolution ev \<and> 0 \<le> released_amount ev) evs" "0 \<le> sp_locked v"
  shows "sp_locked (fold spec_step evs v) = max 0 (sp_locked v - sum_list (map released_amount evs))"
  using assms
proof (induction evs arbitrary: v)
  case (Cons ev evs)
  have "sp_locked (spec_step ev v) = max 0 (sp_locked v - released_amount ev)"
    using Cons.prems by (cases ev) (simp_all add: Let_def)
  moreover have "0 \<le> sum_list (map released_amount evs)"
    using Cons.prems(1) by (intro sum_list_nonneg) (auto simp: list_all_iff)
  ultimately show ?case using Cons.IH [of "spec_step ev v"] Cons.prems by (simp add: max_def)
qed simp

section \<open>What the store holds of it\<close>

definition view_of :: "indexed_escrow option \<Rightarrow> escrow_view" where
  "view_of x =
     (case x of
        None \<Rightarrow> fresh_view
      | Some e \<Rightarrow> \<lparr>sp_status = (\<lambda>k. map_option status (milestone_at k (ie_milestones e))),
                  sp_locked = ie_lockedBalance e, sp_state = ie_state e\<rparr>)"

definition stored :: "string \<Rightarrow> indexer_db \<Rightarrow> indexed_escrow option" where
  "stored c db = (case cache_get c db of Inr x \<Rightarrow> x | Inl _ \<Rightarrow> None)"

lemma unsafe_at: "milestones_ok ms \<Longrightarrow> \<not> safe_num k \<Longrightarrow> milestone_at k ms = None"
  unfolding milestone_at_None by (auto simp: milestones_ok_def list_all_iff list_ex_iff has_id_def safe_id_def)

lemma patched_status:
  assumes "milestones_ok ms" "safe_num m" "\<And>x. milestoneId (patch x) = milestoneId x" "\<And>x. status (patch x) = s"
  shows "(\<lambda>k. map_option status (milestone_at k (upsertMilestone ms m patch))) =
     (\<lambda>k. map_option status (milestone_at k ms))(m \<mapsto> s)"
proof
  fix k
  consider "k = m" | "k \<noteq> m" "safe_num k" | "\<not> safe_num k" using assms(2) by auto
  then show "map_option status (milestone_at k (upsertMilestone ms m patch)) =
     ((\<lambda>k. map_option status (milestone_at k ms))(m \<mapsto> s)) k"
  proof cases
    case 1
    then show ?thesis using upsertMilestone_at [where patch = patch, OF assms(1-3)] assms(4) by simp
  next
    case 2
    then show ?thesis using upsertMilestone_at_other [where patch = patch, OF assms(1-3)] by simp
  next
    case 3
    then show ?thesis
      using unsafe_at [OF assms(1)] unsafe_at [OF upsertMilestone_ok [where patch = patch, OF assms(1-3)]] assms(2) by auto
  qed
qed

lemma disputed_status:
  "milestone_at k (map dispute_patch ms) = map_option dispute_patch (milestone_at k ms)"
proof -
  have "has_id k (dispute_patch m) = has_id k m" for m by (simp add: has_id_def)
  then show ?thesis by (induction ms) (simp_all add: milestone_at_def)
qed

lemma all_released:
  assumes "milestones_ok ms"
  shows "ran (\<lambda>k. map_option status (milestone_at k ms)) \<subseteq> {MS_Released} \<longleftrightarrow> list_all (\<lambda>m. status m = MS_Released) ms"
proof
  assume all: "ran (\<lambda>k. map_option status (milestone_at k ms)) \<subseteq> {MS_Released}"
  have "status m = MS_Released" if "m \<in> set ms" for m
  proof -
    have "safe_id m" using assms that by (simp add: milestones_ok_def list_all_iff)
    then obtain n where n: "milestoneId m = Some n" "safe_num n" by (auto simp: safe_id_def)
    then have "has_id n m" by (auto simp: has_id_def safe_num_def)
    then have "milestone_at n ms = Some m" using milestone_at_mem [OF assms n(2)] that by simp
    then have "status m \<in> ran (\<lambda>k. map_option status (milestone_at k ms))" by (intro ranI [of _ n]) simp
    then show ?thesis using all by auto
  qed
  then show "list_all (\<lambda>m. status m = MS_Released) ms" by (simp add: list_all_iff)
next
  assume all: "list_all (\<lambda>m. status m = MS_Released) ms"
  then show "ran (\<lambda>k. map_option status (milestone_at k ms)) \<subseteq> {MS_Released}"
    by (auto simp: ran_def milestone_at_def find_Some_iff list_all_iff)
qed

text \<open>One event on a good escrow is one step of the specification.\<close>

lemma effect_refines:
  assumes "event_ok ev" "escrow_ok e" "event_effect ev e = Inr e'"
  shows "view_of (Some (e'\<lparr>ie_updatedAt := t\<rparr>)) = spec_step ev (view_of (Some e))"
proof -
  have ms: "milestones_ok (ie_milestones e)" "0 \<le> ie_lockedBalance e" using assms(2) by (simp_all add: escrow_ok_def)
  show ?thesis
  proof (cases ev)
    case (ProofSubmitted b m r h u)
    then have "safe_num m" using assms(1) by (simp add: event_ok_def)
    from patched_status [OF ms(1) this, of "proof_patch h u" MS_Under_Review] show ?thesis
      using ProofSubmitted assms(3) by (auto simp: view_of_def proof_patch_def)
  next
    case (MilestoneReleased b m r n)
    then have m: "safe_num m" using assms(1) by (simp add: event_ok_def)
    obtain l where l: "js_bigint (Num (or_default (ev_ledger b) (Fin 0))) = Inr l"
      using assms(1) js_bigint_ledger MilestoneReleased by (auto simp: event_ok_def)
    let ?ms = "upsertMilestone (ie_milestones e) m (release_patch l)"
    have st: "(\<lambda>k. map_option status (milestone_at k ?ms)) =
        (\<lambda>k. map_option status (milestone_at k (ie_milestones e)))(m \<mapsto> MS_Released)"
      by (rule patched_status [OF ms(1) m]) (simp_all add: release_patch_def)
    have "milestones_ok ?ms" by (rule upsertMilestone_ok [OF ms(1) m]) simp
    note all = all_released [OF this, unfolded st]
    show ?thesis
      using assms(3) unfolding MilestoneReleased event_effect.simps l bindR_def
      by (auto simp: view_of_def st all Let_def)
  next
    case (DisputeRaised b r u)
    have "map_option status (map_option dispute_patch x) =
        map_option (\<lambda>s. if s = MS_Released then s else MS_Disputed) (map_option status x)" for x
      by (cases x) (simp_all add: dispute_patch_def)
    then show ?thesis using assms(3) DisputeRaised by (auto simp: view_of_def disputed_status simp del: option.map_comp)
  qed (use assms(3) in \<open>auto simp: view_of_def\<close>)
qed

lemma view_unknown: "view_of (Some (unknown_escrow c t)) = view_of None"
  by (simp add: view_of_def unknown_escrow_def fresh_view_def milestone_at_def)

lemma applyEvent_view:
  assumes "store_inv db" "event_ok ev"
  shows "view_of (stored c (snd (applyEvent now ev db))) =
     (if ev_contractId (event_common ev) = c then spec_step ev (view_of (stored c db)) else view_of (stored c db))"
    and "stored c (snd (applyEvent now ev db)) \<noteq> None \<longleftrightarrow> ev_contractId (event_common ev) = c \<or> stored c db \<noteq> None"
proof -
  obtain x where x: "cache_get c db = Inr x" "\<And>e. x = Some e \<Longrightarrow> escrow_ok e \<and> ie_id e = c"
    using store_inv_get [OF assms(1)] by blast
  have get: "cache_get c (snd (applyEvent now ev db)) =
      (if c = ev_contractId (event_common ev)
       then bindR (event_effect ev (or_default x (unknown_escrow c (now 0)))) (\<lambda>e. Inr (Some (e\<lparr>ie_updatedAt := now 1\<rparr>)))
       else Inr x)"
    using applyEvent_step [OF assms, of now] x(1) by (auto simp: bindR_def)
  have ok: "escrow_ok (or_default x (unknown_escrow c (now 0)))" using x(2) unknown_escrow_ok by (cases x) simp_all
  obtain e where e: "event_effect ev (or_default x (unknown_escrow c (now 0))) = Inr e"
    using event_effect_ok [OF assms(2) ok] by blast
  have view: "view_of (Some (or_default x (unknown_escrow c (now 0)))) = view_of x"
    by (cases x) (simp_all add: view_unknown)
  have new: "view_of (Some (e\<lparr>ie_updatedAt := now 1\<rparr>)) = spec_step ev (view_of x)"
    using effect_refines [OF assms(2) ok e] unfolding view .
  have st: "stored c (snd (applyEvent now ev db)) =
      (if ev_contractId (event_common ev) = c then Some (e\<lparr>ie_updatedAt := now 1\<rparr>) else x)" "stored c db = x"
    by (simp_all add: stored_def get e x(1))
  show "view_of (stored c (snd (applyEvent now ev db))) =
     (if ev_contractId (event_common ev) = c then spec_step ev (view_of (stored c db)) else view_of (stored c db))"
    using new unfolding st by simp
  show "stored c (snd (applyEvent now ev db)) \<noteq> None \<longleftrightarrow> ev_contractId (event_common ev) = c \<or> stored c db \<noteq> None"
    unfolding st by simp
qed

definition concerns :: "string \<Rightarrow> astra_event \<Rightarrow> bool" where
  "concerns c ev = (ev_contractId (event_common ev) = c)"

lemma run_events_view:
  assumes "store_inv db" "list_all (\<lambda>(now, ev). event_ok ev) evs"
  shows "view_of (stored c (run_events evs db)) = fold spec_step (filter (concerns c) (map snd evs)) (view_of (stored c db))"
    and "stored c (run_events evs db) \<noteq> None \<longleftrightarrow> list_ex (concerns c) (map snd evs) \<or> stored c db \<noteq> None"
proof -
  have "view_of (stored c (run_events evs db)) = fold spec_step (filter (concerns c) (map snd evs)) (view_of (stored c db))
     \<and> (stored c (run_events evs db) \<noteq> None \<longleftrightarrow> list_ex (concerns c) (map snd evs) \<or> stored c db \<noteq> None)"
    using assms unfolding run_events_def
  proof (induction evs arbitrary: db)
    case (Cons x evs)
    obtain now ev where x: "x = (now, ev)" by (cases x)
    then have ev: "event_ok ev" using Cons.prems(2) by simp
    show ?case
      using applyEvent_step [OF Cons.prems(1) ev, of now] applyEvent_view [OF Cons.prems(1) ev, of c now]
        Cons.IH [of "snd (applyEvent now ev db)"] Cons.prems(2)
      by (auto simp: x concerns_def)
  qed simp
  then show "view_of (stored c (run_events evs db)) = fold spec_step (filter (concerns c) (map snd evs)) (view_of (stored c db))"
    and "stored c (run_events evs db) \<noteq> None \<longleftrightarrow> list_ex (concerns c) (map snd evs) \<or> stored c db \<noteq> None" by blast+
qed

section \<open>Refinement\<close>

text \<open>C5: The indexer implements its specification: after any contract events with safe integer ids and ledgers,
  in any order and for any contracts, what the database holds of an escrow is what the
  specification makes of this escrow's own events alone, and the status of each milestone is what
  the life of this milestone makes of them.\<close>

theorem indexer_refines_spec:
  assumes "store_inv db" "list_all (\<lambda>(now, ev). event_ok ev) evs"
  shows "view_of (stored c (run_events evs db)) = fold spec_step (filter (concerns c) (map snd evs)) (view_of (stored c db))
     \<and> sp_status (view_of (stored c (run_events evs db))) k =
         fold (life k) (filter (concerns c) (map snd evs)) (sp_status (view_of (stored c db)) k)"
  unfolding run_events_view(1) [OF assms] by (simp add: spec_life)

theorem indexer_refines_spec_witness:
  "sp_status (view_of (stored ''demo-escrow'' (run_events
      [(sample_clock, sample_release ''demo-escrow''), (sample_clock, sample_proof ''C''), (sample_clock, sample_proof ''demo-escrow'')]
      sample_db))) (Fin 5) = Some MS_Under_Review"
proof -
  have "list_all (\<lambda>(now, ev). event_ok ev)
      [(sample_clock, sample_release ''demo-escrow''), (sample_clock, sample_proof ''C''), (sample_clock, sample_proof ''demo-escrow'')]"
    by (simp add: sample_release_def sample_proof_def event_ok_def)
  from indexer_refines_spec [OF sample_store_inv this, of "''demo-escrow''" "Fin 5"] show ?thesis
    by (simp add: concerns_def sample_release_def sample_proof_def)
qed

text \<open>C40: Until a dispute is resolved the locked balance of an escrow is what was locked less what its releases
  paid out, never below zero: the order of the events and the events of other escrows make no
  difference, and an event that is delivered twice is deducted twice.\<close>

theorem locked_balance_sums:
  assumes "store_inv db" "list_all (\<lambda>(now, ev). event_ok ev) evs" "stored c db = Some e"
    and "list_all (\<lambda>(now, ev). concerns c ev \<longrightarrow> \<not> is_resolution ev \<and> 0 \<le> released_amount ev) evs"
  shows "\<exists>e'. stored c (run_events evs db) = Some e'
     \<and> ie_lockedBalance e' = max 0 (ie_lockedBalance e - sum_list (map released_amount (filter (concerns c) (map snd evs))))"
proof -
  obtain e' where e': "stored c (run_events evs db) = Some e'"
    using run_events_view(2) [OF assms(1,2), of c] assms(3) by auto
  have "cache_get c db = Inr (Some e)" using assms(3) by (auto simp: stored_def split: sum.splits)
  then have "0 \<le> sp_locked (view_of (stored c db))"
    using stored_escrow_ok [OF assms(1)] assms(3) by (auto simp: view_of_def escrow_ok_def)
  moreover have "list_all (\<lambda>ev. \<not> is_resolution ev \<and> 0 \<le> released_amount ev) (filter (concerns c) (map snd evs))"
    using assms(4) by (auto simp: list_all_iff)
  ultimately have "sp_locked (view_of (stored c (run_events evs db))) =
      max 0 (sp_locked (view_of (stored c db)) - sum_list (map released_amount (filter (concerns c) (map snd evs))))"
    unfolding run_events_view(1) [OF assms(1,2)] by (rule spec_locked [rotated])
  then show ?thesis using e' assms(3) by (simp add: view_of_def)
qed

theorem locked_balance_sums_witness:
  "\<exists>e'. stored ''demo-escrow'' (run_events
      [(sample_clock, sample_release ''demo-escrow''), (sample_clock, sample_release ''C''), (sample_clock, sample_release ''demo-escrow'')]
      sample_db) = Some e' \<and> ie_lockedBalance e' = 0"
proof -
  let ?evs = "[(sample_clock, sample_release ''demo-escrow''), (sample_clock, sample_release ''C''), (sample_clock, sample_release ''demo-escrow'')]"
  have "list_all (\<lambda>(now, ev). event_ok ev) ?evs"
      "list_all (\<lambda>(now, ev). concerns ''demo-escrow'' ev \<longrightarrow> \<not> is_resolution ev \<and> 0 \<le> released_amount ev) ?evs"
    by (simp_all add: sample_release_def event_ok_def)
  moreover have "stored ''demo-escrow'' sample_db = Some (seedEscrow ''now'')" by (simp add: stored_def sample_db_get)
  ultimately show ?thesis
    using locked_balance_sums [OF sample_store_inv, of ?evs "''demo-escrow''" "seedEscrow ''now''"]
    by (auto simp: concerns_def sample_release_def seedEscrow_def)
qed

section \<open>A page of the watcher\<close>

lemma poll_runs:
  assumes "page_events S (take_page page w) page = Inr typed" "wa_handlers w = [0]"
    and "store_inv db" "list_all event_ok typed"
  shows "poll_page S (indexer_handler now) page w db = (Inr typed, take_page page w, run_events (map (Pair now) typed) db)"
proof -
  have run: "call_handlers (indexer_handler now) (map (Pair 0) evs) db = (Inr (), run_events (map (Pair now) evs) db)"
    if "store_inv db" "list_all event_ok evs" for evs db
    using that
  proof (induction evs arbitrary: db)
    case (Cons ev evs)
    obtain db' where step: "applyEvent now ev db = (Inr (), db')" "store_inv db'"
      using applyEvent_step [OF Cons.prems(1), of ev now] Cons.prems(2) by (cases "applyEvent now ev db") auto
    show ?case
      using Cons.IH [OF step(2)] Cons.prems(2) by (simp add: indexer_handler_def run_events_def step(1))
  qed (simp add: run_events_def)
  have "concat (map (\<lambda>e. map (\<lambda>h. (h, e)) [0]) evs) = map (Pair 0) evs" for evs :: "astra_event list"
    by (induction evs) simp_all
  then have "handler_calls (wa_handlers w) typed = map (Pair 0) typed"
    unfolding assms(2) handler_calls_all [OF page_events_watched [OF assms(1)]] by simp
  then show ?thesis using assms(1) run [OF assms(3,4)] by (simp add: poll_page_def Let_def)
qed

end
