(* ===== verification/Regex.thy ===== *)
theory Regex
  imports JsConvert
begin

text \<open>
  The regular expressions of the program, as syntax trees with the backtracking meaning
  JavaScript gives them: \<open>mt r s\<close> lists, best first, the ways \<open>r\<close> matches a prefix of
  what is left. A state is the consumed text (reversed), the text left and the captures.
  A repetition never continues after an empty iteration. Captures inside a repetition do
  not occur in the program.
\<close>

datatype re =
    Cls "char \<Rightarrow> bool"
  | Eps
  | Bol
  | Eol
  | Seq re re
  | Alt re re
  | Star re
  | Cap nat re

type_synonym mstate = "string \<times> string \<times> (nat \<times> string) list"

function mt :: "re \<Rightarrow> mstate \<Rightarrow> mstate list" where
  "mt (Cls p) (pre, rest, cs) =
     (case rest of [] \<Rightarrow> [] | c # r \<Rightarrow> if p c then [(c # pre, r, cs)] else [])"
| "mt Eps s = [s]"
| "mt Bol (pre, rest, cs) = (if pre = [] then [(pre, rest, cs)] else [])"
| "mt Eol (pre, rest, cs) = (if rest = [] then [(pre, rest, cs)] else [])"
| "mt (Seq a b) s = concat (map (mt b) (mt a s))"
| "mt (Alt a b) s = mt a s @ mt b s"
| "mt (Star a) s =
     concat (map (\<lambda>s'. if length (fst (snd s')) < length (fst (snd s)) then mt (Star a) s' else [])
       (mt a s)) @ [s]"
| "mt (Cap n a) (pre, rest, cs) =
     map (\<lambda>(pre', rest', cs'). (pre', rest', (n, take (length rest - length rest') rest) # cs'))
       (mt a (pre, rest, cs))"
  by pat_completeness auto
termination
  by (relation "measures [\<lambda>(r, s). size r, \<lambda>(r, s). length (fst (snd s))]") auto

declare mt.simps(7) [simp del]

fun exec_from :: "re \<Rightarrow> string \<Rightarrow> string \<Rightarrow> mstate option" where
  "exec_from r pre [] = (case mt r (pre, [], []) of m # _ \<Rightarrow> Some m | [] \<Rightarrow> None)"
| "exec_from r pre (c # cs) =
     (case mt r (pre, c # cs, []) of m # _ \<Rightarrow> Some m | [] \<Rightarrow> exec_from r (c # pre) cs)"

text \<open>\<open>re.exec(s)\<close> / \<open>s.match(re)\<close>: the captures of the first match; \<open>re.test(s)\<close>.\<close>

definition re_exec :: "re \<Rightarrow> string \<Rightarrow> (nat \<Rightarrow> string option) option" where
  "re_exec r s = map_option (\<lambda>(_, _, cs). map_of cs) (exec_from r [] s)"

definition re_test :: "re \<Rightarrow> string \<Rightarrow> bool" where
  "re_test r s = (exec_from r [] s \<noteq> None)"

section \<open>Notation of the sources\<close>

fun seqs :: "re list \<Rightarrow> re" where
  "seqs [] = Eps"
| "seqs [r] = r"
| "seqs (r # rs) = Seq r (seqs rs)"

fun alts :: "re list \<Rightarrow> re" where
  "alts [] = Eps"
| "alts [r] = r"
| "alts (r # rs) = Alt r (alts rs)"

definition Opt :: "re \<Rightarrow> re" where "Opt r = Alt r Eps"

definition Plus :: "re \<Rightarrow> re" where "Plus r = Seq r (Star r)"

fun Rep :: "nat \<Rightarrow> re \<Rightarrow> re" where
  "Rep 0 r = Eps"
| "Rep (Suc n) r = Seq r (Rep n r)"

text \<open>A literal text, with and without the \<open>i\<close> flag.\<close>

definition Lit :: "string \<Rightarrow> re" where
  "Lit s = seqs (map (\<lambda>c. Cls (\<lambda>x. x = c)) s)"

definition LitI :: "string \<Rightarrow> re" where
  "LitI s = seqs (map (\<lambda>c. Cls (\<lambda>x. to_lower x = to_lower c)) s)"

text \<open>\<open>\d\<close>, \<open>\s\<close>, \<open>\S\<close>, \<open>.\<close>\<close>

definition reDigit :: re where "reDigit = Cls is_dec"
definition reSpace :: re where "reSpace = Cls is_ws"
definition reNonSpace :: re where "reNonSpace = Cls (\<lambda>c. \<not> is_ws c)"
definition reDot :: re where "reDot = Cls (\<lambda>c. char_code c \<noteq> 10 \<and> char_code c \<noteq> 13)"

definition between :: "char \<Rightarrow> char \<Rightarrow> char \<Rightarrow> bool" where
  "between a b c = (char_code a \<le> char_code c \<and> char_code c \<le> char_code b)"

lemmas re_defs = Opt_def Plus_def Lit_def LitI_def reDigit_def reSpace_def reNonSpace_def
  reDot_def between_def

section \<open>Matching character runs\<close>

lemma mt_Rep_Cls:
  "mt (Rep n (Cls p)) (pre, rest, cs) =
     (if n \<le> length rest \<and> list_all p (take n rest)
      then [(rev (take n rest) @ pre, drop n rest, cs)] else [])"
proof (induction n arbitrary: pre rest)
  case 0
  then show ?case by simp
next
  case (Suc n)
  then show ?case by (cases rest) simp_all
qed

text \<open>An anchored expression matches only at the start of the text.\<close>

lemma exec_from_Bol:
  assumes "pre \<noteq> []"
  shows "exec_from (Seq Bol r) pre s = None"
  using assms by (induction s arbitrary: pre) auto

lemma re_test_Bol: "re_test (Seq Bol r) s \<longleftrightarrow> mt r ([], s, []) \<noteq> []"
  by (cases s) (auto simp: re_test_def exec_from_Bol split: list.splits)

lemma re_exec_Bol:
  "re_exec (Seq Bol r) s =
     (case mt r ([], s, []) of [] \<Rightarrow> None | (_, _, cs) # _ \<Rightarrow> Some (map_of cs))"
  by (cases s) (auto simp: re_exec_def exec_from_Bol split: list.splits)

text \<open>A run of a class to the end of the text: \<open>^[..]{n}$\<close> and \<open>^[..]+$\<close>.\<close>

lemma test_fixed_run:
  "re_test (Seq Bol (Seq (Rep n (Cls p)) Eol)) s \<longleftrightarrow> length s = n \<and> list_all p s"
  by (auto simp: re_test_Bol mt_Rep_Cls)

lemma test_head_fixed_run:
  "re_test (Seq Bol (Seq (Cls q) (Seq (Rep n (Cls p)) Eol))) s \<longleftrightarrow>
     (\<exists>c t. s = c # t \<and> q c \<and> length t = n \<and> list_all p t)"
  by (cases s) (auto simp: re_test_Bol mt_Rep_Cls)

lemma mt_Star_Cls:
  "mt (Star (Cls p)) (pre, rest, cs) =
     map (\<lambda>k. (rev (take k rest) @ pre, drop k rest, cs))
       (rev [0..<Suc (length (takeWhile p rest))])"
proof (induction rest arbitrary: pre)
  case Nil
  then show ?case by (simp add: mt.simps(7))
next
  case (Cons c rest)
  have shift: "[0..<Suc (Suc n)] = 0 # map Suc [0..<Suc n]" for n
    by (simp add: map_Suc_upt upt_conv_Cons del: upt_Suc)
  show ?case
  proof (cases "p c")
    case True
    then have "mt (Star (Cls p)) (pre, c # rest, cs) =
        mt (Star (Cls p)) (c # pre, rest, cs) @ [(pre, c # rest, cs)]"
      by (simp add: mt.simps(7) [of "Cls p" "(pre, c # rest, cs)"])
    with True Cons show ?thesis
      by (simp add: shift rev_map comp_def del: upt_Suc)
  next
    case False
    then show ?thesis by (simp add: mt.simps(7))
  qed
qed

text \<open>The first (longest) run a greedy star takes.\<close>

lemma mt_Star_Cls_hd:
  "mt (Star (Cls p)) (pre, rest, cs) =
     (rev (takeWhile p rest) @ pre, dropWhile p rest, cs) #
     map (\<lambda>k. (rev (take k rest) @ pre, drop k rest, cs))
       (rev [0..<length (takeWhile p rest)])"
proof -
  have "take (length (takeWhile p rest)) rest = takeWhile p rest"
    and "drop (length (takeWhile p rest)) rest = dropWhile p rest"
    by (simp_all flip: takeWhile_eq_take dropWhile_eq_drop)
  then show ?thesis by (simp add: mt_Star_Cls)
qed

section \<open>Literal text\<close>

text \<open>The text left starts with \<open>lit\<close>, up to letter case.\<close>

definition lit_at :: "string \<Rightarrow> string \<Rightarrow> bool" where
  "lit_at lit rest = (map to_lower (take (length lit) rest) = map to_lower lit)"

lemma mt_seqs_Cons: "mt (seqs (r # rs)) s = concat (map (mt (seqs rs)) (mt r s))"
proof (cases rs)
  case Nil
  have "concat (map (mt Eps) xs) = xs" for xs by (induction xs) simp_all
  with Nil show ?thesis by simp
qed simp

lemma mt_LitI:
  "mt (LitI lit) (pre, rest, cs) =
     (if lit_at lit rest
      then [(rev (take (length lit) rest) @ pre, drop (length lit) rest, cs)] else [])"
proof (induction lit arbitrary: pre rest)
  case Nil
  then show ?case by (simp add: LitI_def lit_at_def)
next
  case (Cons a lit)
  then show ?case
    by (cases rest) (auto simp: LitI_def lit_at_def mt_seqs_Cons simp del: seqs.simps)
qed

lemma mt_Opt: "mt (Opt r) s = mt r s @ [s]"
  by (simp add: Opt_def)

lemma lit_at_Nil [simp]: "lit_at [] rest"
  by (simp add: lit_at_def)

lemma lit_at_Cons [simp]:
  "lit_at (a # lit) (c # rest) \<longleftrightarrow> to_lower c = to_lower a \<and> lit_at lit rest"
  "\<not> lit_at (a # lit) []"
  by (auto simp: lit_at_def)

lemma exec_from_skip: "mt r (pre, c # s, []) = [] \<Longrightarrow> exec_from r pre (c # s) = exec_from r (c # pre) s"
  by simp

lemma exec_from_hit: "mt r (pre, s, []) = m # ms \<Longrightarrow> exec_from r pre s = Some m"
  by (cases s) simp_all

text \<open>A digit run captured by \<open>(\d+)\<close>, followed by something that is not a digit.\<close>

lemma run_append:
  "list_all p xs \<Longrightarrow> \<not> p y \<Longrightarrow> takeWhile p (xs @ y # ys) = xs \<and> dropWhile p (xs @ y # ys) = y # ys"
  by (induction xs) auto

lemma mt_digits_hd:
  assumes "is_dec d" "list_all is_dec ds" "\<not> is_dec y"
  shows "\<exists>ms. mt (Cap n (Plus reDigit)) (pre, d # ds @ y # ys, cs) =
     (rev ds @ d # pre, y # ys, (n, d # ds) # cs) # ms"
  using assms run_append [of is_dec ds y ys]
  by (simp add: Plus_def reDigit_def mt_Star_Cls_hd)

end
