(* ===== verification/Address.thy ===== *)
theory Address
  imports Regex Types
begin

text \<open>
  The check of Stellar addresses both builders make (\<open>assertAddress\<close> in builders/escrow.ts,
  \<open>requireAddress\<close> in builders/dispute.ts, the same code in both): a \<open>G\<close> or \<open>C\<close> followed by 55
  characters of the base-32 alphabet. The checksum of the strkey format is not checked.
\<close>

definition base32_char :: "char \<Rightarrow> bool" where
  "base32_char c = (between (CHR ''A'') (CHR ''Z'') c \<or> between (CHR ''2'') (CHR ''7'') c)"

definition STELLAR_ADDRESS_RE :: re where
  "STELLAR_ADDRESS_RE =
     Seq Bol (Seq (Cls (\<lambda>c. c = CHR ''G'' \<or> c = CHR ''C'')) (Seq (Rep 55 (Cls base32_char)) Eol))"

definition CONTRACT_ADDRESS_RE :: re where
  "CONTRACT_ADDRESS_RE = Seq Bol (Seq (Cls (\<lambda>c. c = CHR ''C'')) (Seq (Rep 55 (Cls base32_char)) Eol))"

definition assertAddress :: "string \<Rightarrow> string \<Rightarrow> bool \<Rightarrow> string js" where
  "assertAddress value label allowContract =
     (let trimmed = trim value in
      if \<not> re_test STELLAR_ADDRESS_RE trimmed \<and> \<not> (allowContract \<and> re_test CONTRACT_ADDRESS_RE trimmed)
      then Inl (astraErr (''Invalid '' @ label @ '' address'') ''BAD_ADDRESS'')
      else Inr trimmed)"

section \<open>What is accepted\<close>

definition stellar_address :: "string \<Rightarrow> bool" where
  "stellar_address s =
     (\<exists>c t. s = c # t \<and> (c = CHR ''G'' \<or> c = CHR ''C'') \<and> length t = 55 \<and> list_all base32_char t)"

lemma stellar_address_re: "re_test STELLAR_ADDRESS_RE s = stellar_address s"
  unfolding STELLAR_ADDRESS_RE_def test_head_fixed_run stellar_address_def by auto

lemma contract_address_re: "re_test CONTRACT_ADDRESS_RE s \<Longrightarrow> stellar_address s"
  unfolding CONTRACT_ADDRESS_RE_def test_head_fixed_run stellar_address_def by auto

lemma assertAddress_eq:
  "assertAddress value label allow =
     (if stellar_address (trim value) then Inr (trim value)
      else Inl (astraErr (''Invalid '' @ label @ '' address'') ''BAD_ADDRESS''))"
  using contract_address_re by (auto simp: assertAddress_def stellar_address_re Let_def)

lemma stellar_address_facts: "stellar_address s \<Longrightarrow> s \<noteq> [] \<and> length s = 56"
  by (auto simp: stellar_address_def)

text \<open>The address check returns the trimmed text exactly when it is a G or C followed by 55 base-32
  characters, else the error BAD_ADDRESS; the flag that is to admit contract addresses makes
  no difference, contract addresses are admitted for every party.\<close>

theorem assertAddress_spec:
  "assertAddress value label allow =
     (if stellar_address (trim value) then Inr (trim value)
      else Inl (astraErr (''Invalid '' @ label @ '' address'') ''BAD_ADDRESS''))
   \<and> assertAddress value label True = assertAddress value label False"
  by (simp add: assertAddress_eq)

end
