(* ===== verification/Errors.thy ===== *)
theory Errors
  imports Regex
begin

text \<open>
  packages/sdk/src/errors.ts: reading a failure of the RPC or of the contract into structured
  diagnostics, the SDK's error classes, and the two checks that turn an RPC answer into an
  exception. An error instance is the arguments of its constructor (\<open>js_error\<close>); the fields
  the constructor derives are the functions \<open>err_code\<close> and \<open>err_diagnostics\<close>.
\<close>

section \<open>Contract error codes\<close>

definition CONTRACT_ERROR_CODES :: "(nat \<times> string) list" where
  "CONTRACT_ERROR_CODES =
    [(1, ''AlreadyInit''), (2, ''NotInit''), (3, ''Unauthorized''), (4, ''BadState''),
     (5, ''NotFound''), (6, ''AlreadyPaid''), (7, ''NoDeposit''), (8, ''Locked''),
     (9, ''BadAmount''), (10, ''DupId''), (11, ''BadToken''), (12, ''BadRoles''),
     (13, ''BadSequence''), (14, ''AlreadySubmitted''), (15, ''BadSplit''), (16, ''TooEarly''),
     (17, ''NotAuthorized''), (18, ''MilestoneAlreadyCompleted''),
     (19, ''InvalidMilestoneSequence''), (20, ''DeadlineNotExceeded''),
     (21, ''InsufficientAllowance''), (22, ''ZeroAmountAllocated''), (23, ''ArbitratorCollision''),
     (24, ''DisputeLockActive''), (25, ''Paused''), (26, ''QuorumNotMet''),
     (27, ''AmendmentPending''), (28, ''VestingIncomplete''), (29, ''PenaltyOverflow''),
     (30, ''FeeOverflow''), (31, ''Reentrancy'')]"

definition decodeContractErrorCode :: "jsnum \<Rightarrow> string option" where
  "decodeContractErrorCode n =
     (case n of Fin q \<Rightarrow> if is_integer q \<and> 0 \<le> q then map_of CONTRACT_ERROR_CODES (nat \<lfloor>q\<rfloor>) else None
      | _ \<Rightarrow> None)"

section \<open>Diagnostics\<close>

datatype frame_source = FromContract | FromHost | FromRpc | FromAuth | FromUnknown

record diagnostic_frame =
  fr_source :: frame_source
  fr_code :: "jsnum option"
  fr_name :: "string option"
  fr_message :: string
  fr_raw :: string

record diagnostics =
  summary :: string
  frames :: "diagnostic_frame list"
  contractError :: "string option"
  contractErrorCode :: "jsnum option"
  simulationFailed :: bool
  authExpired :: bool
  retryable :: bool

text \<open>\<open>asString\<close>; \<open>None\<close> is the value \<open>undefined\<close>, which \<open>JSON.stringify\<close> may return.\<close>

definition asString :: "jsval \<Rightarrow> string option" where
  "asString v =
     (case v of
        Str s \<Rightarrow> Some s
      | ErrV e \<Rightarrow> Some (err_message e)
      | Num _ \<Rightarrow> Some (js_string v)
      | BigInt _ \<Rightarrow> Some (js_string v)
      | _ \<Rightarrow> (case json_stringify v of Inr r \<Rightarrow> r | Inl _ \<Rightarrow> Some (js_string v)))"

text \<open>\<open>a || b\<close> on what \<open>asString\<close> returns.\<close>

definition or_else :: "string option \<Rightarrow> string option \<Rightarrow> string option" where
  "or_else a b = (case a of Some s \<Rightarrow> if s = [] then b else a | None \<Rightarrow> b)"

lemma or_else_simps [simp]:
  "or_else None b = b" "or_else (Some []) b = b" "or_else (Some (c # s)) b = Some (c # s)"
  by (simp_all add: or_else_def)

definition CONTRACT_CODE_RE :: re where
  "CONTRACT_CODE_RE =
     Seq (Alt (seqs [LitI ''Error(Contract,'', Star reSpace, Opt (LitI ''#'')])
              (seqs [Opt (LitI ''#''), LitI ''Error(Contract,'', Star reSpace]))
         (Cap 1 (Plus reDigit))"

definition HOST_ERROR_RE :: re where
  "HOST_ERROR_RE =
     seqs [LitI ''Error('',
           Cap 1 (alts (map LitI [''Host'', ''WasmVm'', ''Value'', ''Context'', ''Storage'',
             ''Object'', ''Crypto'', ''Events''])),
           Opt (LitI '',''), Star reSpace, Cap 2 (Star (Cls (\<lambda>c. c \<noteq> CHR '')''))), LitI '')'']"

definition AUTH_EXPIRED_RE :: re where
  "AUTH_EXPIRED_RE =
     alts [seqs [LitI ''auth'', Opt (LitI ''entication''), LitI '' '',
             Alt (LitI ''expired'') (LitI ''invalid'')],
           LitI ''signature expired'', LitI ''txbadseq'', LitI ''tx_bad_seq'', LitI ''invalid seq'']"

definition RATE_LIMIT_RE :: re where
  "RATE_LIMIT_RE =
     alts (map LitI [''429'', ''rate limit'', ''try again'', ''timeout'', ''temporar'',
       ''econnreset'', ''enotfound'', ''eai_again''])"

definition SIMUL_RE :: re where
  "SIMUL_RE = LitI ''simul''"

definition contract_code_of :: "string \<Rightarrow> jsnum option" where
  "contract_code_of nested =
     map_option (\<lambda>m. parseInt 10 (case m 1 of Some d \<Rightarrow> d | None \<Rightarrow> [])) (re_exec CONTRACT_CODE_RE nested)"

definition is_finite :: "jsnum \<Rightarrow> bool" where
  "is_finite n = (case n of Fin _ \<Rightarrow> True | _ \<Rightarrow> False)"

text \<open>The code when it is a finite number.\<close>

definition finite_code :: "jsnum option \<Rightarrow> jsnum option" where
  "finite_code c = (case c of Some n \<Rightarrow> if is_finite n then Some n else None | None \<Rightarrow> None)"

definition contract_frame :: "string \<Rightarrow> jsnum \<Rightarrow> diagnostic_frame" where
  "contract_frame nested c =
     \<lparr>fr_source = FromContract,
      fr_code = Some c,
      fr_name = Some (case decodeContractErrorCode c of Some n \<Rightarrow> n
         | None \<Rightarrow> ''ContractError('' @ num_string c @ '')''),
      fr_message =
        (case decodeContractErrorCode c of
           Some n \<Rightarrow> ''Escrow contract rejected the invocation ('' @ n @ '', code '' @ num_string c @ '').''
         | None \<Rightarrow> ''Escrow contract rejected the invocation with code '' @ num_string c @ ''.''),
      fr_raw = nested\<rparr>"

definition host_frame :: "string \<Rightarrow> (nat \<Rightarrow> string option) \<Rightarrow> diagnostic_frame" where
  "host_frame nested m =
     (let kind = (case m 1 of Some k \<Rightarrow> k | None \<Rightarrow> ''undefined'');
          detail = (case m 2 of Some d \<Rightarrow> if d = [] then ''unspecified'' else d | None \<Rightarrow> ''unspecified'')
      in \<lparr>fr_source = FromHost, fr_code = None, fr_name = m 1,
          fr_message = trim (''Soroban host error '' @ kind @ '': '' @ detail), fr_raw = nested\<rparr>)"

definition rpc_frame :: "string \<Rightarrow> jsnum \<Rightarrow> diagnostic_frame" where
  "rpc_frame nested st =
     \<lparr>fr_source = FromRpc, fr_code = Some st, fr_name = None,
      fr_message = ''RPC responded with HTTP '' @ num_string st @ ''.'', fr_raw = nested\<rparr>"

definition auth_frame :: "string \<Rightarrow> diagnostic_frame" where
  "auth_frame nested =
     \<lparr>fr_source = FromAuth, fr_code = None, fr_name = Some ''AuthExpired'',
      fr_message = ''Transaction authorization expired or sequence became stale.'', fr_raw = nested\<rparr>"

definition unknown_frame :: "string \<Rightarrow> string \<Rightarrow> diagnostic_frame" where
  "unknown_frame nested raw =
     \<lparr>fr_source = FromUnknown, fr_code = None, fr_name = None,
      fr_message = (if nested = [] then ''Unknown transaction failure.'' else nested), fr_raw = raw\<rparr>"

definition rpc_status_of :: "jsval \<Rightarrow> jsnum" where
  "rpc_status_of v =
     js_number (coalesce (js_prop v ''status'') (coalesce (js_prop v ''statusCode'') (js_prop v ''httpStatus'')))"

definition status_failed :: "jsnum \<Rightarrow> bool" where
  "status_failed n = (case n of Fin q \<Rightarrow> 400 \<le> q | _ \<Rightarrow> False)"

text \<open>The text the patterns are tried on.\<close>

definition nested_text :: "jsval \<Rightarrow> string option" where
  "nested_text v =
     or_else (asString (js_prop v ''error''))
       (or_else (asString (js_prop v ''message''))
         (or_else (asString (js_prop v ''detail''))
           (or_else (asString (js_prop v ''resultXdr'')) (asString v))))"

definition diagnose :: "jsval \<Rightarrow> string \<Rightarrow> string \<Rightarrow> diagnostics" where
  "diagnose v raw nested =
     (let code = contract_code_of nested;
          st = rpc_status_of v;
          expired = re_test AUTH_EXPIRED_RE nested;
          fs = (case finite_code code of Some c \<Rightarrow> [contract_frame nested c] | None \<Rightarrow> [])
             @ (case re_exec HOST_ERROR_RE nested of Some m \<Rightarrow> [host_frame nested m] | None \<Rightarrow> [])
             @ (if status_failed st then [rpc_frame nested st] else [])
             @ (if expired then [auth_frame nested] else []);
          all = (if fs = [] then [unknown_frame nested raw] else fs)
      in \<lparr>summary = fr_message (hd all),
          frames = all,
          contractError = (case finite_code code of Some c \<Rightarrow> decodeContractErrorCode c | None \<Rightarrow> None),
          contractErrorCode = code,
          simulationFailed = (re_test SIMUL_RE nested \<or> js_prop v ''simulation'' = Bool True
             \<or> js_prop v ''errorType'' = Str ''simulation''),
          authExpired = expired,
          retryable = (re_test RATE_LIMIT_RE nested \<or> expired \<or> st = Fin 429)\<rparr>)"

text \<open>\<open>nested.match\<close> throws when the text is \<open>undefined\<close>.\<close>

definition parseDiagnostics :: "jsval \<Rightarrow> diagnostics js" where
  "parseDiagnostics v =
     (case nested_text v of
        None \<Rightarrow> Inl TypeErr
      | Some nested \<Rightarrow> Inr (diagnose v (case asString v of Some r \<Rightarrow> r | None \<Rightarrow> []) nested))"

section \<open>Error classes\<close>

text \<open>The fields the constructors derive; a nullish cause falls back to the message.\<close>

definition err_diagnostics :: "js_error \<Rightarrow> diagnostics option" where
  "err_diagnostics e =
     (case e of
        NativeError _ _ \<Rightarrow> None
      | SdkError cls msg _ cause \<Rightarrow>
          (case parseDiagnostics (coalesce (case cause of Some v \<Rightarrow> v | None \<Rightarrow> Undefined) (Str msg)) of
             Inl _ \<Rightarrow> None
           | Inr d \<Rightarrow>
               Some (case cls of
                  SimulationError \<Rightarrow> d\<lparr>simulationFailed := True\<rparr>
                | AuthExpiredError \<Rightarrow> d\<lparr>authExpired := True\<rparr>
                | _ \<Rightarrow> d)))"

definition err_code :: "js_error \<Rightarrow> string option" where
  "err_code e =
     (case e of
        NativeError _ _ \<Rightarrow> None
      | SdkError _ _ (Some c) _ \<Rightarrow> Some c
      | SdkError _ _ None _ \<Rightarrow>
          (case err_diagnostics e of
             Some d \<Rightarrow> Some (case contractError d of Some n \<Rightarrow> n | None \<Rightarrow> ''ASTRA_FLOW'')
           | None \<Rightarrow> None))"

text \<open>\<open>AstraFlowError.fromUnknown\<close>\<close>

definition fromUnknown :: "jsval \<Rightarrow> string \<Rightarrow> js_error js" where
  "fromUnknown error fallback =
     (case error of
        ErrV (SdkError cls msg code cause) \<Rightarrow> Inr (SdkError cls msg code cause)
      | _ \<Rightarrow>
          bindR (parseDiagnostics error) (\<lambda>d.
            Inr (SdkError AstraFlowError (if summary d = [] then fallback else summary d)
                   (contractError d) (Some error))))"

definition simulationError :: "string \<Rightarrow> jsval \<Rightarrow> js_error" where
  "simulationError msg cause = SdkError SimulationError msg (Some ''SIMULATION_FAILED'') (Some cause)"

definition transactionFailedError :: "string \<Rightarrow> jsval option \<Rightarrow> string option \<Rightarrow> js_error" where
  "transactionFailedError msg cause resultXdr =
     SdkError TransactionFailedError msg (Some ''TX_FAILED'')
       (Some (case cause of Some c \<Rightarrow> coalesce c (case resultXdr of Some x \<Rightarrow> Str x | None \<Rightarrow> Str msg)
          | None \<Rightarrow> (case resultXdr of Some x \<Rightarrow> Str x | None \<Rightarrow> Str msg)))"

definition authExpiredError :: "string \<Rightarrow> jsval option \<Rightarrow> js_error" where
  "authExpiredError msg cause =
     SdkError AuthExpiredError msg (Some ''AUTH_EXPIRED'')
       (Some (case cause of Some c \<Rightarrow> coalesce c (Str msg) | None \<Rightarrow> Str msg))"

section \<open>Checks of RPC answers\<close>

definition text_given :: "string option \<Rightarrow> bool" where
  "text_given t = (case t of None \<Rightarrow> False | Some s \<Rightarrow> s \<noteq> [])"

definition assertSimulationSuccess :: "jsval \<Rightarrow> unit js" where
  "assertSimulationSuccess result =
     (case asString (js_prop result ''error'') of
        Some (c # s) \<Rightarrow> Inl (simulationError (c # s) result)
      | _ \<Rightarrow>
          if js_prop result ''status'' = Str ''ERROR'' \<or> js_prop result ''errorType'' = Str ''simulation''
          then Inl (simulationError ''Soroban simulation returned ERROR'' result)
          else Inr ())"

text \<open>\<open>asString(record.status).toUpperCase()\<close> throws when there is no status.\<close>

definition classifySendResult :: "jsval \<Rightarrow> unit js" where
  "classifySendResult result =
     (case asString (js_prop result ''status'') of
        None \<Rightarrow> Inl TypeErr
      | Some st \<Rightarrow>
          let up = map to_upper st;
              resultXdr = or_else (asString (js_prop result ''resultXdr''))
                            (or_else (asString (js_prop result ''errorResultXdr'')) None);
              error = asString (js_prop result ''error'')
          in if up = ''ERROR'' \<or> up = ''FAILED'' \<or> text_given error then
               bindR (parseDiagnostics
                   (case resultXdr of Some x \<Rightarrow> Str x
                    | None \<Rightarrow> (case error of Some e \<Rightarrow> Str e | None \<Rightarrow> result))) (\<lambda>d.
                 if authExpired d then Inl (authExpiredError (summary d) (Some result))
                 else Inl (transactionFailedError (summary d) (Some result) resultXdr))
             else Inr ())"

section \<open>Which values can be read\<close>

lemma json_stringify_undefined: "json_stringify v = Inr None \<longleftrightarrow> v = Undefined \<or> (\<exists>f. v = Builtin f)"
  by (cases v) (auto simp: bindR_Inr_iff)

lemma asString_None: "asString v = None \<longleftrightarrow> v = Undefined \<or> (\<exists>f. v = Builtin f)"
  by (cases v)
     (auto simp: asString_def json_stringify_undefined bindR_Inr_iff split: sum.splits option.splits)

lemma or_else_None: "or_else a b = None \<longleftrightarrow> (a = None \<or> a = Some []) \<and> b = None"
  by (auto simp: or_else_def split: option.splits)

lemma nested_text_None: "nested_text v = None \<longleftrightarrow> v = Undefined \<or> (\<exists>f. v = Builtin f)"
  by (auto simp: nested_text_def or_else_None asString_None)

lemma parseDiagnostics_cases:
  obtains "parseDiagnostics v = Inl TypeErr" "v = Undefined \<or> (\<exists>f. v = Builtin f)"
  | raw nested where "parseDiagnostics v = Inr (diagnose v raw nested)" "nested_text v = Some nested"
  by (cases "nested_text v") (auto simp: parseDiagnostics_def nested_text_None)

lemma parseDiagnostics_Str:
  "s \<noteq> [] \<Longrightarrow> parseDiagnostics (Str s) = Inr (diagnose (Str s) s s)"
  by (simp add: parseDiagnostics_def nested_text_def asString_def)

lemma diagnose_simps:
  "frames (diagnose v raw nested) \<noteq> []"
  "summary (diagnose v raw nested) = fr_message (hd (frames (diagnose v raw nested)))"
  "authExpired (diagnose v raw nested) = re_test AUTH_EXPIRED_RE nested"
  "contractErrorCode (diagnose v raw nested) = contract_code_of nested"
  "retryable (diagnose v raw nested) =
     (re_test RATE_LIMIT_RE nested \<or> re_test AUTH_EXPIRED_RE nested \<or> rpc_status_of v = Fin 429)"
  by (simp_all add: diagnose_def Let_def)

lemma diagnose_contract:
  assumes "contract_code_of nested = Some (Fin q)"
  shows "hd (frames (diagnose v raw nested)) = contract_frame nested (Fin q)"
    and "contractError (diagnose v raw nested) = decodeContractErrorCode (Fin q)"
  using assms by (simp_all add: diagnose_def Let_def finite_code_def is_finite_def)

text \<open>\<open>parseDiagnostics\<close> throws a TypeError exactly on \<open>undefined\<close> (and function values);
  on every other value it reports at least one frame, its summary is the message of the first
  frame, and an expired authorization is always reported as retryable.\<close>

theorem parseDiagnostics_report:
  "case parseDiagnostics v of
     Inl e \<Rightarrow> e = TypeErr \<and> (v = Undefined \<or> (\<exists>f. v = Builtin f))
   | Inr d \<Rightarrow> v \<noteq> Undefined \<and> frames d \<noteq> [] \<and> summary d = fr_message (hd (frames d))
       \<and> (authExpired d, retryable d) \<noteq> (True, False)"
proof (cases v rule: parseDiagnostics_cases)
  case 1
  then show ?thesis by simp
next
  case (2 raw nested)
  then have "v \<noteq> Undefined" using nested_text_None [of v] by auto
  with 2 show ?thesis by (simp add: diagnose_simps)
qed

section \<open>Contract codes in host error text\<close>

lemma nat_dec_Cons:
  obtains d ds where "nat_radix 10 n = d # ds" "is_dec d" "list_all is_dec ds"
  using nat_dec_is_dec [of n] nat_radix_nonempty [of 10 n] by (cases "nat_radix 10 n") auto

lemma contract_code_miss:
  assumes "\<not> lit_at ''Error(Contract,'' rest" "\<not> lit_at ''#'' rest"
  shows "mt CONTRACT_CODE_RE (pre, rest, cs) = []"
  using assms
  by (simp add: CONTRACT_CODE_RE_def mt_seqs_Cons mt_LitI mt_Opt del: seqs.simps lit_at_Cons)

lemma contract_code_hit:
  assumes d: "is_dec d" "list_all is_dec ds"
  shows "\<exists>ms. mt CONTRACT_CODE_RE (pre, ''Error(Contract, #'' @ d # ds @ '')'', []) =
     (rev ds @ d # rev ''Error(Contract, #'' @ pre, '')'', [(1, d # ds)]) # ms"
proof -
  let ?A = "seqs [LitI ''Error(Contract,'', Star reSpace, Opt (LitI ''#'')]"
  have ws: "is_ws (CHR '' '')" "\<not> is_ws (CHR ''#'')" by (simp_all add: is_ws_def)
  have "\<exists>more. mt ?A (pre, ''Error(Contract, #'' @ d # ds @ '')'', []) =
      (rev ''Error(Contract, #'' @ pre, d # ds @ '')'', []) # more"
    by (simp add: mt_seqs_Cons mt_LitI mt_Opt reSpace_def mt_Star_Cls_hd ws del: seqs.simps(2,3))
  moreover have "\<exists>ms. mt (Cap 1 (Plus reDigit)) (rev ''Error(Contract, #'' @ pre, d # ds @ '')'', []) =
      (rev ds @ d # rev ''Error(Contract, #'' @ pre, '')'', [(1, d # ds)]) # ms"
    using mt_digits_hd [OF d, of "CHR '')''"] by (simp add: is_dec_def del: mt.simps(8))
  ultimately show ?thesis
    by (auto simp: CONTRACT_CODE_RE_def simp del: seqs.simps mt.simps(8))
qed

lemma contract_code_of_host_error:
  "contract_code_of (''HostError: Error(Contract, #'' @ nat_radix 10 n @ '')'' ) =
     Some (parseInt 10 (nat_radix 10 n))"
proof -
  obtain d ds where n: "nat_radix 10 n = d # ds" and d: "is_dec d" "list_all is_dec ds"
    by (rule nat_dec_Cons)
  let ?s = "''Error(Contract, #'' @ d # ds @ '')''"
  obtain ms where hit: "mt CONTRACT_CODE_RE (rev ''HostError: '', ?s, []) =
      (rev ds @ d # rev ''Error(Contract, #'' @ rev ''HostError: '', '')'', [(1, d # ds)]) # ms"
    using contract_code_hit [OF d] by blast
  have "exec_from CONTRACT_CODE_RE [] (''HostError: '' @ s) =
      exec_from CONTRACT_CODE_RE (rev ''HostError: '') s" for s
    by (simp add: contract_code_miss to_lower_def char_of_def)
  then have "exec_from CONTRACT_CODE_RE [] (''HostError: '' @ ?s) =
      exec_from CONTRACT_CODE_RE (rev ''HostError: '') ?s" .
  also have "\<dots> = Some (rev ds @ d # rev ''Error(Contract, #'' @ rev ''HostError: '', '')'', [(1, d # ds)])"
    by (rule exec_from_hit [OF hit])
  finally show ?thesis
    by (simp add: contract_code_of_def re_exec_def n)
qed

lemma parseInt_dec: "n < 2 ^ 53 \<Longrightarrow> parseInt 10 (nat_radix 10 n) = Fin (of_nat n)"
proof -
  assume n: "n < 2 ^ 53"
  have "trim_left (nat_radix 10 n) = nat_radix 10 n"
    using nat_dec_no_ws [of n] by (cases "nat_radix 10 n") (simp_all add: trim_left_def)
  moreover have tw: "takeWhile (\<lambda>c. digit_val c < 10) (nat_radix 10 n) = nat_radix 10 n"
    using all_digits_dec [of n] by (simp add: all_digits_def takeWhile_dropWhile_all)
  ultimately have "parse_int 10 (nat_radix 10 n) = Some (int n)"
    unfolding parse_int_def by (simp add: split_sign_nat_dec radix_val_dec tw Let_def)
  then show ?thesis using to_double_int [of "int n"] n by (simp add: parseInt_def)
qed

lemma decode_nat: "decodeContractErrorCode (Fin (of_nat n)) = map_of CONTRACT_ERROR_CODES n"
  using is_integer_of_int [of "int n"] by (simp add: decodeContractErrorCode_def)

text \<open>The host's rendering of a contract failure with code \<open>n\<close>,
  \<open>HostError: Error(Contract, #n)\<close>, is read back as exactly that code: the diagnostics carry
  \<open>n\<close>, the name the table gives it, and a first frame that comes from the contract.\<close>

theorem contract_code_recovered:
  assumes "n < 2 ^ 53"
  shows "\<exists>d. parseDiagnostics (Str (''HostError: Error(Contract, #'' @ nat_radix 10 n @ '')'')) = Inr d
     \<and> contractErrorCode d = Some (Fin (of_nat n))
     \<and> contractError d = map_of CONTRACT_ERROR_CODES n
     \<and> fr_source (hd (frames d)) = FromContract
     \<and> fr_code (hd (frames d)) = Some (Fin (of_nat n))"
proof -
  let ?s = "''HostError: Error(Contract, #'' @ nat_radix 10 n @ '')''"
  have code: "contract_code_of ?s = Some (Fin (of_nat n))"
    using contract_code_of_host_error [of n] parseInt_dec [OF assms] by simp
  have "parseDiagnostics (Str ?s) = Inr (diagnose (Str ?s) ?s ?s)"
    by (rule parseDiagnostics_Str) simp
  then show ?thesis
    using code diagnose_contract [OF code]
    by (simp add: diagnose_simps decode_nat contract_frame_def del: append.simps)
qed

theorem contract_code_recovered_witness:
  "\<exists>d. parseDiagnostics (Str (''HostError: Error(Contract, #'' @ nat_radix 10 16 @ '')'')) = Inr d
     \<and> contractErrorCode d = Some (Fin 16) \<and> contractError d = Some ''TooEarly''"
  using contract_code_recovered [of 16] by (auto simp: CONTRACT_ERROR_CODES_def)

section \<open>The checks of RPC answers\<close>

lemma parseDiagnostics_given:
  assumes "v \<noteq> Undefined" "\<And>f. v \<noteq> Builtin f"
  obtains d where "parseDiagnostics v = Inr d"
  using assms by (cases v rule: parseDiagnostics_cases) auto

lemma js_prop_given: "asString (js_prop v k) = Some t \<Longrightarrow> (\<exists>kvs. v = Obj kvs) \<or> (\<exists>e. v = ErrV e)"
  by (cases v) (auto simp: asString_def)

text \<open>C34: An answer of \<open>sendTransaction\<close> is accepted only if it has a status, the status is neither
  ERROR nor FAILED in any letter case, and it carries no error text; without a status the check
  itself dies with a TypeError; every other answer is thrown as an AuthExpiredError when the
  diagnostics of its result XDR, its error text or the answer itself say that the authorization
  expired, and as a TransactionFailedError with the code TX_FAILED otherwise.\<close>

theorem classifySendResult_outcome:
  "case asString (js_prop v ''status'') of
     None \<Rightarrow> classifySendResult v = Inl TypeErr
   | Some st \<Rightarrow>
       if map to_upper st \<notin> {''ERROR'', ''FAILED''} \<and> \<not> text_given (asString (js_prop v ''error''))
       then classifySendResult v = Inr ()
       else (\<exists>e d src. classifySendResult v = Inl e \<and> parseDiagnostics src = Inr d
          \<and> (src = v \<or> (\<exists>t. src = Str t \<and> (or_else (asString (js_prop v ''resultXdr''))
                 (asString (js_prop v ''errorResultXdr'')) = Some t \<or> asString (js_prop v ''error'') = Some t)))
          \<and> err_message e = summary d
          \<and> err_name e = (if authExpired d then ''AuthExpiredError'' else ''TransactionFailedError'')
          \<and> err_code e = Some (if authExpired d then ''AUTH_EXPIRED'' else ''TX_FAILED''))"
proof (cases "asString (js_prop v ''status'')")
  case None
  then show ?thesis by (simp add: classifySendResult_def)
next
  case (Some st)
  define src where "src =
    (case or_else (asString (js_prop v ''resultXdr'')) (or_else (asString (js_prop v ''errorResultXdr'')) None) of
       Some x \<Rightarrow> Str x
     | None \<Rightarrow> (case asString (js_prop v ''error'') of Some e \<Rightarrow> Str e | None \<Rightarrow> v))"
  have "v \<noteq> Undefined" "\<And>f. v \<noteq> Builtin f" using js_prop_given [OF Some] by auto
  then obtain d where d: "parseDiagnostics src = Inr d"
    by (rule_tac v = src in parseDiagnostics_given) (auto simp: src_def split: option.splits)
  have "src = v \<or> (\<exists>t. src = Str t \<and> (or_else (asString (js_prop v ''resultXdr''))
      (asString (js_prop v ''errorResultXdr'')) = Some t \<or> asString (js_prop v ''error'') = Some t))"
    by (auto simp: src_def or_else_def split: option.splits if_splits)
  then show ?thesis
    using Some d
    by (auto simp: classifySendResult_def Let_def authExpiredError_def transactionFailedError_def
        err_code_def simp flip: src_def)
qed

end
