(* ===== verification/EscrowBuilder.thy ===== *)
theory EscrowBuilder
  imports Address JsArith Converters Errors
begin

text \<open>
  packages/sdk/src/builders/escrow.ts: the fluent builder of the contract's \<open>initialize\<close> call.
  Every method returns its outcome and the builder as it leaves it, also when it throws.
\<close>

section \<open>State\<close>

record milestone_draft =
  d_milestoneId :: "jsnum option"
  d_payoutAmount :: jsval
  d_descriptionHash :: hash_input
  d_vestingSecs :: "jsnum option"
  d_deadline :: "jsval option"

record escrow_builder =
  eb_contractId :: string
  eb_networkPassphrase :: string
  eb_funder :: "string option"
  eb_recipient :: "string option"
  eb_arbitrator :: "string option"
  eb_token :: "string option"
  eb_lockSecs :: int
  eb_drafts :: "milestone_draft list"

section \<open>Checks\<close>

definition toAmount :: "jsval \<Rightarrow> string \<Rightarrow> int js" where
  "toAmount value label =
     (case js_bigint value of
        Inl _ \<Rightarrow> Inl (astraErr (label @ '' is not a valid integer amount'') ''BAD_AMOUNT'')
      | Inr amount \<Rightarrow>
          if amount \<le> 0 then Inl (astraErr (label @ '' must be greater than zero'') ''ZERO_AMOUNT'')
          else Inr amount)"

definition hashBytes :: "hash_input \<Rightarrow> 8 word list js" where
  "hashBytes value =
     bindR (hash_bytes_of value) (\<lambda>bytes.
       if length bytes \<noteq> 32
       then Inl (astraErr ''Milestone description hash must be 32 bytes'' ''BAD_HASH'')
       else Inr bytes)"

section \<open>Methods\<close>

definition newEscrowBuilder :: "string \<Rightarrow> network_name option \<Rightarrow> string option \<Rightarrow> escrow_builder js" where
  "newEscrowBuilder contractId network passphrase =
     bindR (assertAddress contractId ''contract'' True) (\<lambda>c.
       Inr \<lparr>eb_contractId = c, eb_networkPassphrase = network_passphrase network passphrase,
            eb_funder = None, eb_recipient = None, eb_arbitrator = None, eb_token = None,
            eb_lockSecs = 2592000, eb_drafts = []\<rparr>)"

definition assign :: "'a js \<Rightarrow> ('a \<Rightarrow> 'b \<Rightarrow> 'b) \<Rightarrow> 'b \<Rightarrow> unit js \<times> 'b" where
  "assign r upd b = (case r of Inl e \<Rightarrow> (Inl e, b) | Inr x \<Rightarrow> (Inr (), upd x b))"

lemma assign_simps [simp]:
  "assign (Inl e) upd b = (Inl e, b)" "assign (Inr x) upd b = (Inr (), upd x b)"
  by (simp_all add: assign_def)

definition setFunder :: "string \<Rightarrow> escrow_builder \<Rightarrow> unit js \<times> escrow_builder" where
  "setFunder address = assign (assertAddress address ''funder'' False) (\<lambda>a b. b\<lparr>eb_funder := Some a\<rparr>)"

definition setRecipient :: "string \<Rightarrow> escrow_builder \<Rightarrow> unit js \<times> escrow_builder" where
  "setRecipient address = assign (assertAddress address ''recipient'' False) (\<lambda>a b. b\<lparr>eb_recipient := Some a\<rparr>)"

definition setArbitrator :: "string \<Rightarrow> escrow_builder \<Rightarrow> unit js \<times> escrow_builder" where
  "setArbitrator address = assign (assertAddress address ''arbitrator'' False) (\<lambda>a b. b\<lparr>eb_arbitrator := Some a\<rparr>)"

definition setToken :: "string \<Rightarrow> escrow_builder \<Rightarrow> unit js \<times> escrow_builder" where
  "setToken address = assign (assertAddress address ''token'' True) (\<lambda>a b. b\<lparr>eb_token := Some a\<rparr>)"

definition setLockWindow :: "jsval \<Rightarrow> escrow_builder \<Rightarrow> unit js \<times> escrow_builder" where
  "setLockWindow seconds =
     assign (bindR (js_bigint seconds) (\<lambda>value.
         if value \<le> 0 then Inl (astraErr ''Lock window must be positive'' ''BAD_LOCK'') else Inr value))
       (\<lambda>v b. b\<lparr>eb_lockSecs := v\<rparr>)"

definition addMilestone :: "milestone_draft \<Rightarrow> escrow_builder \<Rightarrow> unit js \<times> escrow_builder" where
  "addMilestone draft =
     assign (bindR (toAmount (d_payoutAmount draft) ''Milestone payout'') (\<lambda>_.
             bindR (hashBytes (d_descriptionHash draft)) (\<lambda>_. Inr ())))
       (\<lambda>_ b. b\<lparr>eb_drafts := eb_drafts b @ [draft]\<rparr>)"

fun addMilestones :: "milestone_draft list \<Rightarrow> escrow_builder \<Rightarrow> unit js \<times> escrow_builder" where
  "addMilestones [] b = (Inr (), b)"
| "addMilestones (d # ds) b =
     (case addMilestone d b of (Inl e, b') \<Rightarrow> (Inl e, b') | (Inr _, b') \<Rightarrow> addMilestones ds b')"

definition getLockWindow :: "escrow_builder \<Rightarrow> int" where
  "getLockWindow b = eb_lockSecs b"

definition clearMilestones :: "escrow_builder \<Rightarrow> unit js \<times> escrow_builder" where
  "clearMilestones b = (Inr (), b\<lparr>eb_drafts := []\<rparr>)"

fun sum_amounts :: "int \<Rightarrow> milestone_draft list \<Rightarrow> int js" where
  "sum_amounts acc [] = Inr acc"
| "sum_amounts acc (d # ds) =
     bindR (toAmount (d_payoutAmount d) ''Milestone payout'') (\<lambda>a. sum_amounts (acc + a) ds)"

definition totalAllocated :: "escrow_builder \<Rightarrow> int js" where
  "totalAllocated b = sum_amounts 0 (eb_drafts b)"

section \<open>Validation and compilation\<close>

record valid_milestone =
  vm_id :: jsnum
  vm_amount :: int
  vm_hash :: "8 word list"
  vm_vestingSecs :: jsnum
  vm_deadline :: int

record valid_escrow =
  ve_funder :: string
  ve_recipient :: string
  ve_arbitrator :: string
  ve_token :: string
  ve_milestones :: "valid_milestone list"

definition validate_milestone :: "nat \<Rightarrow> milestone_draft \<Rightarrow> valid_milestone js" where
  "validate_milestone index draft =
     (let i = or_default (d_milestoneId draft) (Fin (of_nat (index + 1))) in
      guardR (i \<noteq> Fin (of_nat (index + 1)))
        (astraErr ''Milestone ids must be 1-based and sequential'' ''BAD_SEQUENCE'')
     (guardR (num_lt (or_default (d_vestingSecs draft) (Fin 0)) (Fin 0))
        (astraErr ''Vesting duration cannot be negative'' ''BAD_VESTING'')
     (bindR (toAmount (d_payoutAmount draft) (''Milestone '' @ num_string i @ '' payout'')) (\<lambda>amount.
      bindR (hashBytes (d_descriptionHash draft)) (\<lambda>hash.
      bindR (js_bigint (or_default (d_deadline draft) (Num (Fin 0)))) (\<lambda>deadline.
        Inr \<lparr>vm_id = i, vm_amount = amount, vm_hash = hash,
             vm_vestingSecs = or_default (d_vestingSecs draft) (Fin 0), vm_deadline = deadline\<rparr>))))))"

definition validate_milestones :: "milestone_draft list \<Rightarrow> valid_milestone list js" where
  "validate_milestones drafts = mapR (\<lambda>(i, d). validate_milestone i d) (enumerate 0 drafts)"

definition validate :: "escrow_builder \<Rightarrow> valid_escrow js" where
  "validate b =
     (case (eb_funder b, eb_recipient b, eb_arbitrator b, eb_token b) of
        (Some (f # fs), Some (r # rs), Some (a # as), Some (t # ts)) \<Rightarrow>
          let funder = f # fs; recipient = r # rs; arbitrator = a # as; token = t # ts in
          guardR (funder = recipient) (astraErr ''Funder and recipient must be distinct'' ''BAD_ROLES'')
         (guardR (arbitrator = funder \<or> arbitrator = recipient)
            (astraErr ''Arbitrator cannot collide with funder or recipient'' ''ARBITRATOR_COLLISION'')
         (guardR (eb_drafts b = []) (astraErr ''At least one milestone is required'' ''ZERO_AMOUNT'')
         (bindR (validate_milestones (eb_drafts b)) (\<lambda>ms.
            Inr \<lparr>ve_funder = funder, ve_recipient = recipient, ve_arbitrator = arbitrator,
                 ve_token = token, ve_milestones = ms\<rparr>))))
      | _ \<Rightarrow> Inl (astraErr ''Funder, recipient, arbitrator, and token are required'' ''INCOMPLETE_ESCROW''))"

record initialize_params =
  ip_funder :: string
  ip_recipient :: string
  ip_arbitrator :: string
  ip_token :: string
  ip_milestones :: "milestone_input list"

definition toParams :: "escrow_builder \<Rightarrow> initialize_params js" where
  "toParams b =
     bindR (validate b) (\<lambda>s.
       Inr \<lparr>ip_funder = ve_funder s, ip_recipient = ve_recipient s, ip_arbitrator = ve_arbitrator s,
            ip_token = ve_token s,
            ip_milestones = map (\<lambda>m. \<lparr>in_milestoneId = vm_id m, in_payoutAmount = vm_amount m,
                in_descriptionHash = HashText (bytesToHex (vm_hash m))\<rparr>) (ve_milestones s)\<rparr>)"

record 'sc built_invocation =
  bi_method :: string
  bi_args :: "'sc list"
  bi_contractId :: string
  bi_networkPassphrase :: string

definition builder_object :: "valid_milestone \<Rightarrow> jsval" where
  "builder_object m =
     Obj [(''milestone_id'', Num (vm_id m)),
          (''payout_amount'', BigInt (vm_amount m)),
          (''description_hash'', Bytes (vm_hash m)),
          (''is_approved'', Bool False),
          (''completed_at'', BigInt 0),
          (''status'', Num (Fin 0)),
          (''submitted_at'', BigInt 0),
          (''vesting_secs'', Num (vm_vestingSecs m)),
          (''streamed'', BigInt 0),
          (''deadline'', BigInt (vm_deadline m)),
          (''late_penalty_applied'', Bool False)]"

definition compile :: "'sc stellar \<Rightarrow> escrow_builder \<Rightarrow> 'sc built_invocation js" where
  "compile S b =
     bindR (validate b) (\<lambda>s.
     bindR (mapR (\<lambda>m. nativeToScVal S (builder_object m) None) (ve_milestones s)) (\<lambda>ms.
     bindR (mapR (addressToScVal S) [ve_funder s, ve_recipient s, ve_arbitrator s, ve_token s]) (\<lambda>addrs.
     bindR (vecToScVal S ms) (\<lambda>v.
       Inr \<lparr>bi_method = ''initialize'', bi_args = addrs @ [v], bi_contractId = eb_contractId b,
            bi_networkPassphrase = eb_networkPassphrase b\<rparr>))))"

section \<open>Histories\<close>

datatype eb_op =
    EB_setFunder string
  | EB_setRecipient string
  | EB_setArbitrator string
  | EB_setToken string
  | EB_setLockWindow jsval
  | EB_addMilestone milestone_draft
  | EB_addMilestones "milestone_draft list"
  | EB_clearMilestones

fun eb_step :: "eb_op \<Rightarrow> escrow_builder \<Rightarrow> unit js \<times> escrow_builder" where
  "eb_step (EB_setFunder a) b = setFunder a b"
| "eb_step (EB_setRecipient a) b = setRecipient a b"
| "eb_step (EB_setArbitrator a) b = setArbitrator a b"
| "eb_step (EB_setToken a) b = setToken a b"
| "eb_step (EB_setLockWindow s) b = setLockWindow s b"
| "eb_step (EB_addMilestone d) b = addMilestone d b"
| "eb_step (EB_addMilestones ds) b = addMilestones ds b"
| "eb_step EB_clearMilestones b = clearMilestones b"

text \<open>A caller that goes on with the builder whether or not a method threw.\<close>

definition eb_run :: "eb_op list \<Rightarrow> escrow_builder \<Rightarrow> escrow_builder" where
  "eb_run ops b = fold (\<lambda>op s. snd (eb_step op s)) ops b"

definition draft_ok :: "milestone_draft \<Rightarrow> bool" where
  "draft_ok d = ((\<exists>n. js_bigint (d_payoutAmount d) = Inr n \<and> 0 < n) \<and> is_ok (hashBytes (d_descriptionHash d)))"

definition eb_inv :: "escrow_builder \<Rightarrow> bool" where
  "eb_inv b =
     (stellar_address (eb_contractId b)
      \<and> pred_option stellar_address (eb_funder b) \<and> pred_option stellar_address (eb_recipient b)
      \<and> pred_option stellar_address (eb_arbitrator b) \<and> pred_option stellar_address (eb_token b)
      \<and> 0 < eb_lockSecs b \<and> list_all draft_ok (eb_drafts b))"

lemma toAmount_ok_iff: "toAmount v l = Inr n \<longleftrightarrow> js_bigint v = Inr n \<and> 0 < n"
  by (auto simp: toAmount_def split: sum.splits)

lemma addMilestone_ok: "draft_ok d \<Longrightarrow> addMilestone d b = (Inr (), b\<lparr>eb_drafts := eb_drafts b @ [d]\<rparr>)"
proof -
  assume "draft_ok d"
  then obtain n h where "toAmount (d_payoutAmount d) ''Milestone payout'' = Inr n"
      "hashBytes (d_descriptionHash d) = Inr h"
    by (auto simp: draft_ok_def toAmount_ok_iff is_ok_iff)
  then show ?thesis by (simp add: addMilestone_def)
qed

lemma addMilestone_throws: "\<not> draft_ok d \<Longrightarrow> \<exists>e. addMilestone d b = (Inl e, b)"
  unfolding addMilestone_def
  by (auto simp: draft_ok_def toAmount_ok_iff is_ok_iff assign_def bindR_Inr_iff split: sum.splits)

lemma addMilestones_eq:
  "\<exists>e. addMilestones ds b =
     (if list_all draft_ok ds then Inr () else Inl e,
      b\<lparr>eb_drafts := eb_drafts b @ takeWhile draft_ok ds\<rparr>)"
proof (induction ds arbitrary: b)
  case (Cons d ds)
  show ?case
  proof (cases "draft_ok d")
    case True
    then have "addMilestone d b = (Inr (), b\<lparr>eb_drafts := eb_drafts b @ [d]\<rparr>)"
      by (rule addMilestone_ok)
    then show ?thesis using True Cons [of "b\<lparr>eb_drafts := eb_drafts b @ [d]\<rparr>"] by simp
  next
    case False
    then show ?thesis using addMilestone_throws [of d b] by auto
  qed
qed simp

lemma eb_step_inv: "eb_inv b \<Longrightarrow> eb_inv (snd (eb_step op b))"
proof (cases op)
  case (EB_addMilestone d)
  moreover assume "eb_inv b"
  ultimately show ?thesis
    using addMilestone_ok [of d b] addMilestone_throws [of d b] by (cases "draft_ok d") (auto simp: eb_inv_def)
next
  case (EB_addMilestones ds)
  moreover assume "eb_inv b"
  moreover have "list_all draft_ok (takeWhile draft_ok ds)" by (auto simp: list_all_iff dest: set_takeWhileD)
  ultimately show ?thesis using addMilestones_eq [of ds b] by (auto simp: eb_inv_def)
next
  case (EB_setLockWindow s)
  moreover assume "eb_inv b"
  ultimately show ?thesis
    by (auto simp: setLockWindow_def eb_inv_def assign_def bindR_Inr_iff split: sum.splits if_splits)
qed (auto simp: setFunder_def setRecipient_def setArbitrator_def setToken_def clearMilestones_def
      assertAddress_eq eb_inv_def)

lemma eb_run_inv: "eb_inv b \<Longrightarrow> eb_inv (eb_run ops b)"
  unfolding eb_run_def by (induction ops arbitrary: b) (simp_all add: eb_step_inv)

lemma new_builder_inv: "newEscrowBuilder c n p = Inr b \<Longrightarrow> eb_inv b"
  by (auto simp: newEscrowBuilder_def bindR_Inr_iff assertAddress_eq eb_inv_def split: if_splits)

text \<open>Whatever methods are called on a builder, also after calls that threw, every party it holds is
  a well-formed address, the lock window is positive, and each of its milestones has a
  positive integer amount and a hash of 32 bytes; a list of milestones is taken up to the
  first bad one, which is thrown.\<close>

theorem escrow_builder_invariant:
  assumes "newEscrowBuilder c n p = Inr b0"
  shows "eb_inv (eb_run ops b0)
    \<and> (\<exists>e. addMilestones ds (eb_run ops b0) =
         (if list_all draft_ok ds then Inr () else Inl e,
          (eb_run ops b0)\<lparr>eb_drafts := eb_drafts (eb_run ops b0) @ takeWhile draft_ok ds\<rparr>))"
  using eb_run_inv [OF new_builder_inv [OF assms]] addMilestones_eq by blast

definition sample_address :: "char \<Rightarrow> string" where
  "sample_address c = c # replicate 55 (CHR ''A'')"

lemma sample_address_ok: "c = CHR ''G'' \<or> c = CHR ''C'' \<Longrightarrow> stellar_address (sample_address c)"
  by (auto simp: sample_address_def stellar_address_def base32_char_def between_def list_all_iff)

lemma sample_trim: "c = CHR ''G'' \<or> c = CHR ''C'' \<Longrightarrow> trim (sample_address c) = sample_address c"
  by (rule trim_id) (auto simp: sample_address_def is_ws_def list_all_iff)

lemma sample_builder:
  "\<exists>b. newEscrowBuilder (sample_address (CHR ''C'')) None None = Inr b"
  by (simp add: newEscrowBuilder_def assertAddress_eq sample_trim sample_address_ok)

theorem escrow_builder_invariant_witness:
  "\<exists>b. newEscrowBuilder (sample_address (CHR ''C'')) None None = Inr b
     \<and> eb_inv (eb_run [EB_setFunder (sample_address (CHR ''G'')), EB_setLockWindow (BigInt 0)] b)"
  using sample_builder escrow_builder_invariant by blast

section \<open>What validation accepts\<close>

definition milestone_valid :: "nat \<Rightarrow> milestone_draft \<Rightarrow> bool" where
  "milestone_valid i d =
     (or_default (d_milestoneId d) (Fin (of_nat (i + 1))) = Fin (of_nat (i + 1))
      \<and> \<not> num_lt (or_default (d_vestingSecs d) (Fin 0)) (Fin 0)
      \<and> is_ok (js_bigint (or_default (d_deadline d) (Num (Fin 0)))))"

definition parties_ok :: "escrow_builder \<Rightarrow> bool" where
  "parties_ok b =
     (eb_funder b \<noteq> None \<and> eb_recipient b \<noteq> None \<and> eb_arbitrator b \<noteq> None \<and> eb_token b \<noteq> None
      \<and> distinct [eb_funder b, eb_recipient b, eb_arbitrator b])"

lemma draft_okE:
  assumes "draft_ok d"
  obtains n h where "js_bigint (d_payoutAmount d) = Inr n" "0 < n" "hashBytes (d_descriptionHash d) = Inr h"
  using assms by (auto simp: draft_ok_def is_ok_iff)

lemma validate_milestone_ok: "draft_ok d \<Longrightarrow> is_ok (validate_milestone i d) \<longleftrightarrow> milestone_valid i d"
proof (erule draft_okE)
  fix n h assume "js_bigint (d_payoutAmount d) = Inr n" "0 < n" "hashBytes (d_descriptionHash d) = Inr h"
  then have "toAmount (d_payoutAmount d) l = Inr n" for l by (simp add: toAmount_ok_iff)
  with \<open>hashBytes _ = _\<close> show ?thesis
    by (cases "js_bigint (or_default (d_deadline d) (Num (Fin 0)))")
       (auto simp: validate_milestone_def milestone_valid_def Let_def guardR_def)
qed

lemma validate_milestones_ok:
  assumes "list_all draft_ok ds"
  shows "is_ok (validate_milestones ds) \<longleftrightarrow> (\<forall>i<length ds. milestone_valid i (ds ! i))"
proof -
  have "is_ok (validate_milestones ds) \<longleftrightarrow> (\<forall>(i, d)\<in>set (enumerate 0 ds). is_ok (validate_milestone i d))"
    by (auto simp: validate_milestones_def mapR_is_ok)
  also have "\<dots> \<longleftrightarrow> (\<forall>i<length ds. is_ok (validate_milestone i (ds ! i)))"
    by (auto simp: in_set_enumerate_eq)
  finally show ?thesis using assms by (simp add: validate_milestone_ok list_all_length)
qed

lemma party_Cons: "pred_option stellar_address (Some x) \<Longrightarrow> \<exists>c t. x = c # t"
  by (auto simp: stellar_address_def)

lemma validate_eq:
  assumes "eb_inv b" "eb_funder b = Some f" "eb_recipient b = Some r" "eb_arbitrator b = Some a" "eb_token b = Some t"
  shows "validate b =
    guardR (f = r) (astraErr ''Funder and recipient must be distinct'' ''BAD_ROLES'')
         (guardR (a = f \<or> a = r)
            (astraErr ''Arbitrator cannot collide with funder or recipient'' ''ARBITRATOR_COLLISION'')
         (guardR (eb_drafts b = []) (astraErr ''At least one milestone is required'' ''ZERO_AMOUNT'')
         (bindR (validate_milestones (eb_drafts b)) (\<lambda>ms.
            Inr \<lparr>ve_funder = f, ve_recipient = r, ve_arbitrator = a, ve_token = t, ve_milestones = ms\<rparr>))))"
proof -
  have "\<exists>c u. f = c # u" "\<exists>c u. r = c # u" "\<exists>c u. a = c # u" "\<exists>c u. t = c # u"
    using assms by (auto simp: eb_inv_def stellar_address_def)
  then show ?thesis using assms(2-) by (auto simp: validate_def Let_def)
qed

lemma validate_incomplete:
  "eb_funder b = None \<or> eb_recipient b = None \<or> eb_arbitrator b = None \<or> eb_token b = None \<Longrightarrow>
     validate b = Inl (astraErr ''Funder, recipient, arbitrator, and token are required'' ''INCOMPLETE_ESCROW'')"
  by (auto simp: validate_def split: option.splits list.splits)

text \<open>A builder is validated, and so can be compiled, exactly when the four parties are set, funder,
  recipient and arbitrator are three different addresses, there is a milestone, and every
  milestone's explicit id, if it has one, is its position, its vesting time is not negative
  and its deadline is an integer.\<close>

theorem validate_accepts:
  assumes "eb_inv b"
  shows "is_ok (validate b) \<longleftrightarrow>
    parties_ok b \<and> eb_drafts b \<noteq> [] \<and> (\<forall>i<length (eb_drafts b). milestone_valid i (eb_drafts b ! i))"
proof (cases "eb_funder b = None \<or> eb_recipient b = None \<or> eb_arbitrator b = None \<or> eb_token b = None")
  case True
  then show ?thesis by (auto simp: validate_incomplete parties_ok_def)
next
  case False
  then obtain f r a t where p: "eb_funder b = Some f" "eb_recipient b = Some r" "eb_arbitrator b = Some a"
      "eb_token b = Some t" by auto
  have "list_all draft_ok (eb_drafts b)" using assms by (simp add: eb_inv_def)
  then show ?thesis
    unfolding validate_eq [OF assms p]
    by (auto simp: parties_ok_def p guardR_def bindR_def validate_milestones_ok [symmetric] split: sum.splits)
qed

definition sample_draft :: milestone_draft where
  "sample_draft = \<lparr>d_milestoneId = None, d_payoutAmount = BigInt 5, d_descriptionHash = HashBytes (replicate 32 7),
     d_vestingSecs = None, d_deadline = None\<rparr>"

definition sample_escrow :: escrow_builder where
  "sample_escrow = \<lparr>eb_contractId = sample_address (CHR ''C''), eb_networkPassphrase = [],
     eb_funder = Some (sample_address (CHR ''G'')), eb_recipient = Some (CHR ''G'' # replicate 55 (CHR ''B'')),
     eb_arbitrator = Some (CHR ''G'' # replicate 55 (CHR ''D'')), eb_token = Some (sample_address (CHR ''C'')),
     eb_lockSecs = 5, eb_drafts = [sample_draft]\<rparr>"

lemma sample_draft_ok: "draft_ok sample_draft"
  by (simp add: draft_ok_def sample_draft_def hashBytes_def hash_bytes_of_def)

lemma sample_escrow_inv: "eb_inv sample_escrow"
  using sample_draft_ok
  by (simp add: eb_inv_def sample_escrow_def sample_address_ok)
     (simp add: stellar_address_def base32_char_def between_def list_all_iff)

lemma sample_parties: "parties_ok sample_escrow"
  by (simp add: parties_ok_def sample_escrow_def sample_address_def numeral_eq_Suc)

lemma sample_milestone_valid: "milestone_valid 0 sample_draft"
  by (simp add: milestone_valid_def sample_draft_def is_integer_iff)

theorem validate_accepts_witness: "is_ok (validate sample_escrow)"
proof -
  have "eb_drafts sample_escrow = [sample_draft]" by (simp add: sample_escrow_def)
  then show ?thesis
    using validate_accepts [OF sample_escrow_inv] sample_parties sample_milestone_valid by simp
qed

section \<open>What validation returns\<close>

text \<open>The milestone that the draft at a position asks for.\<close>

definition as_drafted :: "nat \<times> milestone_draft \<Rightarrow> valid_milestone \<Rightarrow> bool" where
  "as_drafted id_draft m =
     (case id_draft of (i, d) \<Rightarrow>
        vm_id m = Fin (of_nat (i + 1))
        \<and> js_bigint (d_payoutAmount d) = Inr (vm_amount m) \<and> 0 < vm_amount m
        \<and> hash_bytes_of (d_descriptionHash d) = Inr (vm_hash m) \<and> length (vm_hash m) = 32
        \<and> vm_vestingSecs m = or_default (d_vestingSecs d) (Fin 0) \<and> \<not> num_lt (vm_vestingSecs m) (Fin 0)
        \<and> js_bigint (or_default (d_deadline d) (Num (Fin 0))) = Inr (vm_deadline m))"

lemma hashBytes_Inr: "hashBytes h = Inr bs \<longleftrightarrow> hash_bytes_of h = Inr bs \<and> length bs = 32"
  by (auto simp: hashBytes_def bindR_Inr_iff split: if_splits)

lemma validate_milestone_result: "validate_milestone i d = Inr m \<Longrightarrow> as_drafted (i, d) m"
  by (auto simp: validate_milestone_def as_drafted_def Let_def guardR_Inr_iff bindR_Inr_iff toAmount_ok_iff hashBytes_Inr)

lemma validate_milestones_result:
  assumes "validate_milestones ds = Inr ms"
  shows "list_all2 as_drafted (enumerate 0 ds) ms"
proof -
  have "list_all2 (\<lambda>x m. (case x of (i, d) \<Rightarrow> validate_milestone i d) = Inr m) (enumerate 0 ds) ms"
    using assms by (simp add: validate_milestones_def mapR_Inr_iff)
  then show ?thesis by (rule list_all2_mono) (auto simp: validate_milestone_result)
qed

lemma list_all2_enumerate: "list_all2 P (enumerate n xs) ys \<Longrightarrow> list_all2 (\<lambda>x y. \<exists>i. P (i, x) y) xs ys"
  by (induction xs arbitrary: n ys) (auto simp: list_all2_Cons1)

lemma sum_amounts_eq:
  "list_all2 (\<lambda>d n. js_bigint (d_payoutAmount d) = Inr n \<and> 0 < n) ds ns \<Longrightarrow> sum_amounts acc ds = Inr (acc + sum_list ns)"
proof (induction ds ns arbitrary: acc rule: list_all2_induct)
  case (Cons d ds n ns)
  then have "toAmount (d_payoutAmount d) ''Milestone payout'' = Inr n" by (simp add: toAmount_ok_iff)
  with Cons show ?case by (simp add: add.assoc)
qed simp

lemma validate_Inr:
  assumes "validate b = Inr s"
  shows "eb_funder b = Some (ve_funder s) \<and> eb_recipient b = Some (ve_recipient s)
     \<and> eb_arbitrator b = Some (ve_arbitrator s) \<and> eb_token b = Some (ve_token s)
     \<and> distinct [ve_funder s, ve_recipient s, ve_arbitrator s] \<and> eb_drafts b \<noteq> []
     \<and> validate_milestones (eb_drafts b) = Inr (ve_milestones s)"
  using assms
  by (auto simp: validate_def Let_def guardR_Inr_iff bindR_Inr_iff split: option.splits list.splits)

lemma hash_texts_back:
  "mapR (\<lambda>m. hash_bytes_of (in_descriptionHash m))
     (map (\<lambda>m. \<lparr>in_milestoneId = vm_id m, in_payoutAmount = vm_amount m,
        in_descriptionHash = HashText (bytesToHex (vm_hash m))\<rparr>) ms) = Inr (map vm_hash ms)"
  by (induction ms) (simp_all add: hash_bytes_of_def hexToBytes_bytesToHex)

lemma compile_Inr:
  assumes "validate b = Inr s" "compile S b = Inr sent"
  shows "\<exists>f r a t v scs. bi_args sent = [f, r, a, t, v]
     \<and> list_all2 (\<lambda>p sc. addressToScVal S p = Inr sc) [ve_funder s, ve_recipient s, ve_arbitrator s, ve_token s] [f, r, a, t]
     \<and> vecToScVal S scs = Inr v \<and> list_all2 (\<lambda>m sc. nativeToScVal S (builder_object m) None = Inr sc) (ve_milestones s) scs"
proof -
  obtain scs addrs v where c: "mapR (\<lambda>m. nativeToScVal S (builder_object m) None) (ve_milestones s) = Inr scs"
      "mapR (addressToScVal S) [ve_funder s, ve_recipient s, ve_arbitrator s, ve_token s] = Inr addrs"
      "vecToScVal S scs = Inr v" "bi_args sent = addrs @ [v]"
    using assms by (auto simp: compile_def bindR_Inr_iff simp del: mapR.simps)
  then have a: "list_all2 (\<lambda>p sc. addressToScVal S p = Inr sc) [ve_funder s, ve_recipient s, ve_arbitrator s, ve_token s] addrs"
    by (simp only: mapR_Inr_iff)
  then obtain f r a t where "addrs = [f, r, a, t]" by (auto simp: list_all2_Cons1)
  then show ?thesis using c a by (auto simp: mapR_Inr_iff)
qed

text \<open>C13: What is compiled is what was asked for. The valid milestones are the drafts', one for one and
  in order: each has its position (from 1) as id, its own draft's amount, which is positive,
  the 32 bytes of its draft's hash, and its draft's vesting time (not negative) and deadline,
  0 where the draft has none; the amounts add up to \<open>totalAllocated\<close>, and the parties are the
  ones set, funder, recipient and arbitrator pairwise different. An invocation that \<open>compile\<close>
  returns calls \<open>initialize\<close> of the builder's contract with the four parties and the list of
  the objects of exactly these milestones, each converted by the library. \<open>toParams\<close> returns
  these parties, ids and amounts, and hex texts that decode to the same hash bytes.\<close>

theorem validate_faithful:
  assumes "validate b = Inr s"
  shows "list_all2 as_drafted (enumerate 0 (eb_drafts b)) (ve_milestones s)
     \<and> totalAllocated b = Inr (sum_list (map vm_amount (ve_milestones s)))
     \<and> [eb_funder b, eb_recipient b, eb_arbitrator b, eb_token b] =
         map Some [ve_funder s, ve_recipient s, ve_arbitrator s, ve_token s]
     \<and> distinct [ve_funder s, ve_recipient s, ve_arbitrator s]
     \<and> (\<exists>p. toParams b = Inr p
          \<and> [ip_funder p, ip_recipient p, ip_arbitrator p, ip_token p] = [ve_funder s, ve_recipient s, ve_arbitrator s, ve_token s]
          \<and> map in_milestoneId (ip_milestones p) = map vm_id (ve_milestones s)
          \<and> map in_payoutAmount (ip_milestones p) = map vm_amount (ve_milestones s)
          \<and> mapR (\<lambda>m. hash_bytes_of (in_descriptionHash m)) (ip_milestones p) = Inr (map vm_hash (ve_milestones s)))
     \<and> (compile S b = Inr sent \<longrightarrow> bi_method sent = ''initialize'' \<and> bi_contractId sent = eb_contractId b
          \<and> bi_networkPassphrase sent = eb_networkPassphrase b
          \<and> (\<exists>f r a t v scs. bi_args sent = [f, r, a, t, v]
               \<and> list_all2 (\<lambda>p sc. addressToScVal S p = Inr sc)
                   [ve_funder s, ve_recipient s, ve_arbitrator s, ve_token s] [f, r, a, t]
               \<and> vecToScVal S scs = Inr v
               \<and> list_all2 (\<lambda>m sc. nativeToScVal S
                     (Obj [(''milestone_id'', Num (vm_id m)), (''payout_amount'', BigInt (vm_amount m)),
                           (''description_hash'', Bytes (vm_hash m)), (''is_approved'', Bool False),
                           (''completed_at'', BigInt 0), (''status'', Num (Fin 0)), (''submitted_at'', BigInt 0),
                           (''vesting_secs'', Num (vm_vestingSecs m)), (''streamed'', BigInt 0),
                           (''deadline'', BigInt (vm_deadline m)), (''late_penalty_applied'', Bool False)]) None = Inr sc)
                   (ve_milestones s) scs))"
proof -
  have s: "list_all2 as_drafted (enumerate 0 (eb_drafts b)) (ve_milestones s)"
    using validate_Inr [OF assms] validate_milestones_result by blast
  have "list_all2 (\<lambda>d n. js_bigint (d_payoutAmount d) = Inr n \<and> 0 < n) (eb_drafts b) (map vm_amount (ve_milestones s))"
    using list_all2_mono [OF list_all2_enumerate [OF s], of "\<lambda>d m. js_bigint (d_payoutAmount d) = Inr (vm_amount m) \<and> 0 < vm_amount m"]
    by (auto simp: as_drafted_def list_all2_map2)
  then have total: "totalAllocated b = Inr (sum_list (map vm_amount (ve_milestones s)))"
    using sum_amounts_eq [of "eb_drafts b" _ 0] by (simp add: totalAllocated_def)
  have sent: "bi_method sent = ''initialize'' \<and> bi_contractId sent = eb_contractId b
      \<and> bi_networkPassphrase sent = eb_networkPassphrase b" if "compile S b = Inr sent"
    using that by (auto simp: compile_def bindR_Inr_iff)
  show ?thesis
    using validate_Inr [OF assms] total s hash_texts_back assms sent compile_Inr [OF assms, unfolded builder_object_def]
    by (auto simp: toParams_def comp_def)
qed

text \<open>A library that converts every value, into its text or the list of its parts.\<close>

definition plain_stellar :: "jsval stellar" where
  "plain_stellar = \<lparr>addressToScVal = (\<lambda>a. Inr (Str a)), nativeToScVal = (\<lambda>v _. Inr v), vecToScVal = (\<lambda>vs. Inr (Arr vs))\<rparr>"

theorem validate_faithful_witness:
  "\<exists>s sent. validate sample_escrow = Inr s \<and> totalAllocated sample_escrow = Inr (sum_list (map vm_amount (ve_milestones s)))
     \<and> length (ve_milestones s) = 1 \<and> compile plain_stellar sample_escrow = Inr sent \<and> length (bi_args sent) = 5"
proof -
  have "validate_milestone 0 sample_draft = Inr \<lparr>vm_id = Fin 1, vm_amount = 5, vm_hash = replicate 32 7,
      vm_vestingSecs = Fin 0, vm_deadline = 0\<rparr>"
    by (simp add: validate_milestone_def sample_draft_def toAmount_def hashBytes_def hash_bytes_of_def is_integer_iff)
  then have "validate_milestones (eb_drafts sample_escrow) = Inr [\<lparr>vm_id = Fin 1, vm_amount = 5,
      vm_hash = replicate 32 7, vm_vestingSecs = Fin 0, vm_deadline = 0\<rparr>]"
    by (simp add: validate_milestones_def sample_escrow_def)
  then obtain s where s: "validate sample_escrow = Inr s" "length (ve_milestones s) = 1"
    using sample_parties
    by (subst (asm) validate_eq [OF sample_escrow_inv]) (auto simp: sample_escrow_def parties_ok_def)
  obtain sent where "compile plain_stellar sample_escrow = Inr sent"
    by (simp add: compile_def s plain_stellar_def mapR_all_ok)
  then show ?thesis using validate_faithful [OF s(1), of plain_stellar sent] s by fastforce
qed

text \<open>The lock window is kept and can be read back, but nothing that is compiled depends on it: setting
  it changes neither the parameters nor the compiled invocation.\<close>

theorem lock_window_not_compiled:
  "compile S (snd (setLockWindow w b)) = compile S b \<and> toParams (snd (setLockWindow w b)) = toParams b
   \<and> (fst (setLockWindow (BigInt n) b) = Inr () \<longleftrightarrow> 0 < n)
   \<and> (0 < n \<longrightarrow> getLockWindow (snd (setLockWindow (BigInt n) b)) = n)"
proof -
  have v: "validate (b\<lparr>eb_lockSecs := v\<rparr>) = validate b" for v
    unfolding validate_def by (cases b) (simp cong: option.case_cong list.case_cong)
  have "snd (setLockWindow w b) = b \<or> (\<exists>v. snd (setLockWindow w b) = b\<lparr>eb_lockSecs := v\<rparr>)"
    by (auto simp: setLockWindow_def assign_def split: sum.splits)
  then have "compile S (snd (setLockWindow w b)) = compile S b" "toParams (snd (setLockWindow w b)) = toParams b"
    by (auto simp: compile_def toParams_def v)
  then show ?thesis by (simp add: setLockWindow_def getLockWindow_def)
qed

theorem lock_window_not_compiled_witness:
  "getLockWindow (snd (setLockWindow (BigInt 60) sample_escrow)) = 60
   \<and> toParams (snd (setLockWindow (BigInt 60) sample_escrow)) = toParams sample_escrow"
  using lock_window_not_compiled [where S = "undefined :: unit stellar" and n = 60 and w = "BigInt 60" and b = sample_escrow] by simp

text \<open>The two ways of building \<open>initialize\<close> do not send the same milestone: the object the client
  builds from the builder's parameters has the first seven of the builder's eleven fields,
  with the same values, and lacks \<open>vesting_secs\<close>, \<open>streamed\<close>, \<open>deadline\<close> and
  \<open>late_penalty_applied\<close>.\<close>

theorem client_milestone_lacks_fields:
  "\<exists>kvs. builder_object m = Obj kvs
     \<and> milestone_object \<lparr>in_milestoneId = vm_id m, in_payoutAmount = vm_amount m,
           in_descriptionHash = HashText (bytesToHex (vm_hash m))\<rparr> = Inr (Obj (take 7 kvs))
     \<and> map fst (drop 7 kvs) = [''vesting_secs'', ''streamed'', ''deadline'', ''late_penalty_applied'']"
  by (simp add: builder_object_def milestone_object_def hash_bytes_of_def hexToBytes_bytesToHex)

end
