(* ===== verification/Client.thy ===== *)
theory Client
  imports EventWatcher
begin

text \<open>
  packages/sdk/src/client.ts: \<open>EscrowClient\<close>, which builds the invocations of the escrow
  contract and reads its state by simulation, and \<open>AstraFlowClient\<close>, which assembles unsigned
  transactions. The Stellar SDK and the RPC server are parameters.
\<close>

section \<open>Options and invocations\<close>

record client_options =
  co_contractId :: string
  co_network :: "network_name option"
  co_rpcUrl :: "string option"
  co_networkPassphrase :: "string option"

record escrow_client =
  ec_contractId :: string
  ec_network :: network_name
  ec_rpcUrl :: string
  ec_networkPassphrase :: string

record 'sc built_invocation =
  bi_method :: string
  bi_args :: "'sc list"
  bi_contractId :: string
  bi_networkPassphrase :: string

text \<open>
  \<open>new Contract(id)\<close> and \<open>new rpc.Server(url)\<close>, which may throw; building an unsigned
  transaction with one call of the contract from a source account; the requests of the RPC
  server. \<open>'tx\<close> is a built transaction.
\<close>

datatype 'sc simulation = Sim_Error string | Sim_Success "'sc option" | Sim_Other

record ('sc, 'tx) soroban =
  sb_stellar :: "'sc stellar"
  sb_contract :: "string \<Rightarrow> unit js"
  sb_server :: "string \<Rightarrow> unit js"
  sb_address :: "string \<Rightarrow> string js"
  sb_getAccount :: "string \<Rightarrow> string \<Rightarrow> (string \<times> string) js"
  sb_build :: "string \<times> string \<Rightarrow> string \<Rightarrow> string \<Rightarrow> string \<Rightarrow> string \<Rightarrow> 'sc list \<Rightarrow> nat \<Rightarrow> 'tx js"
  sb_simulate :: "string \<Rightarrow> 'tx \<Rightarrow> 'sc simulation js"
  sb_assemble :: "'tx \<Rightarrow> 'sc simulation \<Rightarrow> string js"
  sb_native :: "'sc \<Rightarrow> jsval js"

definition new_client :: "('sc, 'tx) soroban \<Rightarrow> client_options \<Rightarrow> escrow_client js" where
  "new_client B o1 =
     (let network = or_default (co_network o1) Testnet;
          preset = NETWORKS network;
          rpcUrl = or_default (co_rpcUrl o1) (net_rpcUrl preset);
          passphrase = or_default (co_networkPassphrase o1) (net_passphrase preset)
      in bindR (sb_contract B (co_contractId o1)) (\<lambda>_. bindR (sb_server B rpcUrl) (\<lambda>_.
           Inr \<lparr>ec_contractId = co_contractId o1, ec_network = network, ec_rpcUrl = rpcUrl, ec_networkPassphrase = passphrase\<rparr>)))"

definition build :: "escrow_client \<Rightarrow> string \<Rightarrow> 'sc list \<Rightarrow> 'sc built_invocation" where
  "build c method args =
     \<lparr>bi_method = method, bi_args = args, bi_contractId = ec_contractId c, bi_networkPassphrase = ec_networkPassphrase c\<rparr>"

section \<open>The contract's operations\<close>

record initialize_params =
  ip_funder :: string
  ip_recipient :: string
  ip_arbitrator :: string
  ip_token :: string
  ip_milestones :: "milestone_input list"

definition address_arg :: "'sc stellar \<Rightarrow> string \<Rightarrow> 'sc js" where
  "address_arg S a = toScVal S (Native (Str a)) (Some H_address)"

definition u32_arg :: "'sc stellar \<Rightarrow> jsnum \<Rightarrow> 'sc js" where
  "u32_arg S n = toScVal S (Native (Num n)) (Some H_u32)"

definition initialize :: "'sc stellar \<Rightarrow> escrow_client \<Rightarrow> initialize_params \<Rightarrow> 'sc built_invocation js" where
  "initialize S c params =
     bindR (mapR (milestoneToScVal S) (ip_milestones params)) (\<lambda>milestones.
     bindR (address_arg S (ip_funder params)) (\<lambda>f.
     bindR (address_arg S (ip_recipient params)) (\<lambda>r.
     bindR (address_arg S (ip_arbitrator params)) (\<lambda>a.
     bindR (address_arg S (ip_token params)) (\<lambda>t.
     bindR (vecToScVal S milestones) (\<lambda>ms.
       Inr (build c ''initialize'' [f, r, a, t, ms])))))))"

definition depositFunds :: "escrow_client \<Rightarrow> 'sc built_invocation" where
  "depositFunds c = build c ''deposit_funds'' []"

definition submitMilestoneProof :: "'sc stellar \<Rightarrow> escrow_client \<Rightarrow> jsnum \<Rightarrow> hash_input \<Rightarrow> 'sc built_invocation js" where
  "submitMilestoneProof S c milestone proof_hash =
     bindR (hash_bytes_of proof_hash) (\<lambda>bytes.
     bindR (u32_arg S milestone) (\<lambda>i.
     bindR (toScVal S (Native (Bytes bytes)) (Some H_bytes)) (\<lambda>h.
       Inr (build c ''submit_milestone_proof'' [i, h]))))"

definition approveMilestone :: "'sc stellar \<Rightarrow> escrow_client \<Rightarrow> jsnum \<Rightarrow> 'sc built_invocation js" where
  "approveMilestone S c milestone = bindR (u32_arg S milestone) (\<lambda>i. Inr (build c ''approve_milestone'' [i]))"

definition raiseDispute :: "escrow_client \<Rightarrow> 'sc built_invocation" where
  "raiseDispute c = build c ''raise_dispute'' []"

section \<open>Assembling and simulating\<close>

definition assembleTransaction :: "('sc, 'tx) soroban \<Rightarrow> escrow_client \<Rightarrow> string \<Rightarrow> 'sc built_invocation \<Rightarrow> string \<Rightarrow> string js" where
  "assembleTransaction B c source invocation fee =
     bindR (sb_getAccount B (ec_rpcUrl c) source) (\<lambda>account.
     bindR (sb_build B account fee (ec_networkPassphrase c) (ec_contractId c) (bi_method invocation) (bi_args invocation) 60) (\<lambda>tx.
     bindR (sb_simulate B (ec_rpcUrl c) tx) (\<lambda>simulated.
       case simulated of
         Sim_Error e \<Rightarrow> Inl (PlainErr e)
       | _ \<Rightarrow> sb_assemble B tx simulated)))"

definition simulate :: "('sc, 'tx) soroban \<Rightarrow> escrow_client \<Rightarrow> string \<Rightarrow> 'sc list \<Rightarrow> jsval js" where
  "simulate B c method args =
     bindR (sb_address B (ec_contractId c)) (\<lambda>account.
     bindR (sb_build B (account, ''0'') ''0'' (ec_networkPassphrase c) (ec_contractId c) method args 30) (\<lambda>tx.
     bindR (sb_simulate B (ec_rpcUrl c) tx) (\<lambda>simulated.
       case simulated of
         Sim_Error e \<Rightarrow> Inl (PlainErr e)
       | Sim_Success (Some retval) \<Rightarrow> sb_native B retval
       | _ \<Rightarrow> Inr Null)))"

definition getConfig :: "('sc, 'tx) soroban \<Rightarrow> escrow_client \<Rightarrow> escrow_config js" where
  "getConfig B c = bindR (simulate B c ''get_config'' []) parseEscrowConfig"

definition getState :: "('sc, 'tx) soroban \<Rightarrow> escrow_client \<Rightarrow> escrow_state js" where
  "getState B c = bindR (simulate B c ''get_state'' []) (\<lambda>v. Inr (parseEscrowState v))"

definition getMilestone :: "('sc, 'tx) soroban \<Rightarrow> escrow_client \<Rightarrow> jsnum \<Rightarrow> string option \<Rightarrow> jsnum milestone js" where
  "getMilestone B c milestone proof =
     bindR (u32_arg (sb_stellar B) milestone) (\<lambda>i.
     bindR (simulate B c ''get_milestone'' [i]) (\<lambda>v. parseMilestone v proof))"

section \<open>AstraFlowClient\<close>

abbreviation default_fee :: string where "default_fee \<equiv> ''100000''"

definition initializeEscrow :: "('sc, 'tx) soroban \<Rightarrow> escrow_client \<Rightarrow> string \<Rightarrow> initialize_params \<Rightarrow> string js" where
  "initializeEscrow B c source params =
     bindR (initialize (sb_stellar B) c params) (\<lambda>i. assembleTransaction B c source i default_fee)"

definition deposit :: "('sc, 'tx) soroban \<Rightarrow> escrow_client \<Rightarrow> string \<Rightarrow> string js" where
  "deposit B c source = assembleTransaction B c source (depositFunds c) default_fee"

definition submitProof :: "('sc, 'tx) soroban \<Rightarrow> escrow_client \<Rightarrow> string \<Rightarrow> jsnum \<Rightarrow> hash_input \<Rightarrow> string js" where
  "submitProof B c source milestone proof_hash =
     bindR (submitMilestoneProof (sb_stellar B) c milestone proof_hash) (\<lambda>i. assembleTransaction B c source i default_fee)"

definition releaseMilestone :: "('sc, 'tx) soroban \<Rightarrow> escrow_client \<Rightarrow> string \<Rightarrow> jsnum \<Rightarrow> string js" where
  "releaseMilestone B c source milestone =
     bindR (approveMilestone (sb_stellar B) c milestone) (\<lambda>i. assembleTransaction B c source i default_fee)"

definition dispute :: "('sc, 'tx) soroban \<Rightarrow> escrow_client \<Rightarrow> string \<Rightarrow> string js" where
  "dispute B c source = assembleTransaction B c source (raiseDispute c) default_fee"

definition resolveDispute :: "('sc, 'tx) soroban \<Rightarrow> escrow_client \<Rightarrow> string \<Rightarrow> jsnum \<Rightarrow> jsnum \<Rightarrow> string js" where
  "resolveDispute B c source funderBps recipientBps =
     bindR (u32_arg (sb_stellar B) funderBps) (\<lambda>f. bindR (u32_arg (sb_stellar B) recipientBps) (\<lambda>r.
       assembleTransaction B c source (build c ''resolve_dispute'' [f, r]) default_fee))"

definition claimTimeoutRefund :: "('sc, 'tx) soroban \<Rightarrow> escrow_client \<Rightarrow> string \<Rightarrow> string js" where
  "claimTimeoutRefund B c source = assembleTransaction B c source (build c ''claim_timeout_refund'' []) default_fee"

section \<open>Reading the contract\<close>

text \<open>
  The contract's \<open>Milestone\<close> and \<open>EscrowConfig\<close> (contracts/escrow/src/storage.rs), and the
  objects \<open>scValToNative\<close> makes of them: 32-bit integers and the numbered enums are numbers,
  wider integers BigInts, byte strings buffers, addresses texts.
\<close>

record chain_milestone =
  cm_milestone_id :: "32 word"
  cm_payout_amount :: int
  cm_description_hash :: "8 word list"
  cm_is_approved :: bool
  cm_completed_at :: "64 word"
  cm_status :: nat
  cm_submitted_at :: "64 word"
  cm_vesting_secs :: "64 word"
  cm_streamed :: int
  cm_deadline :: "64 word"
  cm_late_penalty_applied :: bool

definition native_milestone :: "chain_milestone \<Rightarrow> jsval" where
  "native_milestone m = Obj
     [(''milestone_id'', Num (Fin (of_nat (unat (cm_milestone_id m))))),
      (''payout_amount'', BigInt (cm_payout_amount m)),
      (''description_hash'', Bytes (cm_description_hash m)),
      (''is_approved'', Bool (cm_is_approved m)),
      (''completed_at'', BigInt (uint (cm_completed_at m))),
      (''status'', Num (Fin (of_nat (cm_status m)))),
      (''submitted_at'', BigInt (uint (cm_submitted_at m))),
      (''vesting_secs'', BigInt (uint (cm_vesting_secs m))),
      (''streamed'', BigInt (cm_streamed m)),
      (''deadline'', BigInt (uint (cm_deadline m))),
      (''late_penalty_applied'', Bool (cm_late_penalty_applied m))]"

definition status_shown :: "nat \<Rightarrow> milestone_status" where
  "status_shown n = [MS_Pending, MS_Under_Review, MS_Released, MS_Disputed] ! n"

text \<open>C36: \<open>getMilestone\<close> returns the milestone the contract stores: id, amount, description digest,
  times and status, in which the contract's \<open>UnderReview\<close> is shown as \<open>Under Review\<close>, and the
  proof hash the caller passed, not one the contract stores.\<close>

theorem getMilestone_decoded:
  assumes "cm_status m < 4"
    and "u32_arg (sb_stellar B) n = Inr i" "simulate B c ''get_milestone'' [i] = Inr (native_milestone m)"
  shows "getMilestone B c n proof = Inr
    \<lparr>milestoneId = Fin (of_nat (unat (cm_milestone_id m))), payoutAmount = cm_payout_amount m,
     descriptionHash = bytesToHex (cm_description_hash m),
     isApproved = (cm_is_approved m \<or> cm_status m = 2),
     completedAt = uint (cm_completed_at m), status = status_shown (cm_status m),
     submittedAt = Some (uint (cm_submitted_at m)), proofHash = proof\<rparr>"
proof -
  let ?st = "parseMilestoneStatus (Num (Fin (of_nat (cm_status m))))"
  have "cm_status m = 0 \<or> cm_status m = 1 \<or> cm_status m = 2 \<or> cm_status m = 3" using assms(1) by auto
  then have st: "(if ?st = MS_UnderReview then MS_Under_Review else ?st) = status_shown (cm_status m)"
      "?st = MS_Released \<longleftrightarrow> cm_status m = 2"
    using assms(1) by (auto simp: parseMilestoneStatus_def index_num_nat MILESTONE_STATUS_BY_VALUE_def status_shown_def
        simp del: of_nat_numeral of_nat_1 of_nat_0)
  have big: "bigint_of_string (BigInt k) = Inr k" for k by (simp add: bigint_of_string_def del: js_bigint.simps)
  show ?thesis
    using st(1) by (simp add: getMilestone_def assms(2,3) native_milestone_def parseMilestone_def either_prop_def asHex_def
        big st(2) Let_def split: if_splits)
qed

definition sample_stellar :: "jsval stellar" where
  "sample_stellar = \<lparr>addressToScVal = (\<lambda>a. Inr (Str a)), nativeToScVal = (\<lambda>v _. Inr v), vecToScVal = (\<lambda>vs. Inr (Arr vs))\<rparr>"

definition sample_chain_milestone :: chain_milestone where
  "sample_chain_milestone = \<lparr>cm_milestone_id = 2, cm_payout_amount = -5, cm_description_hash = [171], cm_is_approved = False,
     cm_completed_at = 0, cm_status = 1, cm_submitted_at = 9, cm_vesting_secs = 0, cm_streamed = 0, cm_deadline = 0,
     cm_late_penalty_applied = False\<rparr>"

text \<open>A server whose every simulation answers the value; ScVals are native values.\<close>

definition sample_soroban :: "jsval \<Rightarrow> (jsval, unit) soroban" where
  "sample_soroban answer = \<lparr>sb_stellar = sample_stellar, sb_contract = (\<lambda>_. Inr ()), sb_server = (\<lambda>_. Inr ()),
     sb_address = Inr, sb_getAccount = (\<lambda>_ a. Inr (a, ''7'')), sb_build = (\<lambda>_ _ _ _ _ _ _. Inr ()),
     sb_simulate = (\<lambda>_ _. Inr (Sim_Success (Some answer))), sb_assemble = (\<lambda>_ _. Inr ''AAAA''), sb_native = Inr\<rparr>"

definition sample_client :: escrow_client where
  "sample_client = \<lparr>ec_contractId = ''C'', ec_network = Testnet, ec_rpcUrl = ''https://rpc'', ec_networkPassphrase = ''Test''\<rparr>"

lemma sample_simulate: "simulate (sample_soroban v) sample_client m args = Inr v"
  by (simp add: simulate_def sample_soroban_def)

theorem getMilestone_decoded_witness:
  "\<exists>m. getMilestone (sample_soroban (native_milestone sample_chain_milestone)) sample_client (Fin 2) None = Inr m
     \<and> payoutAmount m = -5 \<and> status m = MS_Under_Review \<and> submittedAt m = Some 9"
proof -
  have "u32_arg (sb_stellar (sample_soroban v)) (Fin 2) = Inr (Num (Fin 2))" for v
    by (simp add: u32_arg_def toScVal_def sample_soroban_def sample_stellar_def)
  from getMilestone_decoded [OF _ this sample_simulate, of sample_chain_milestone None] show ?thesis
    by (simp add: sample_chain_milestone_def status_shown_def)
qed

record chain_config =
  cc_funder :: string
  cc_recipient :: string
  cc_arbitrator :: string
  cc_asset :: string
  cc_total_amount :: int
  cc_release_threshold :: "32 word"
  cc_lock_secs :: "64 word"

definition native_config :: "chain_config \<Rightarrow> jsval" where
  "native_config g = Obj
     [(''funder'', Str (cc_funder g)), (''recipient'', Str (cc_recipient g)), (''arbitrator'', Str (cc_arbitrator g)),
      (''asset'', Str (cc_asset g)), (''total_amount'', BigInt (cc_total_amount g)),
      (''release_threshold'', Num (Fin (of_nat (unat (cc_release_threshold g))))),
      (''lock_secs'', BigInt (uint (cc_lock_secs g)))]"

text \<open>\<open>getConfig\<close> returns the configuration the contract stores, field by field.\<close>

theorem getConfig_decoded:
  assumes "simulate B c ''get_config'' [] = Inr (native_config g)"
  shows "getConfig B c = Inr
    \<lparr>cfg_funder = cc_funder g, cfg_recipient = cc_recipient g, cfg_arbitrator = cc_arbitrator g, cfg_asset = cc_asset g,
     cfg_totalAmount = cc_total_amount g, cfg_releaseThreshold = Fin (of_nat (unat (cc_release_threshold g))),
     cfg_lockSecs = Some (uint (cc_lock_secs g))\<rparr>"
proof -
  have big: "bigint_of_string (BigInt k) = Inr k" for k by (simp add: bigint_of_string_def del: js_bigint.simps)
  show ?thesis
    by (simp add: getConfig_def assms native_config_def parseEscrowConfig_def either_prop_def string_or_empty_def big)
qed

text \<open>
  A proof given as 64 hex digits, with or without \<open>0x\<close>, is sent as the 32 bytes they denote. Text
  of even length that is not hex is sent too, as other bytes.
\<close>

theorem submitted_proof_bytes:
  assumes "list_all is_hex (strip0x t)" "length (strip0x t) = 64"
    and "submitMilestoneProof S c n (HashText t) = Inr v"
  obtains bs i h where "bytesToHex bs = map to_lower (strip0x t)" "length bs = 32" "u32_arg S n = Inr i"
    "nativeToScVal S (Bytes bs) (Some ''bytes'') = Inr h" "bi_method v = ''submit_milestone_proof''" "bi_args v = [i, h]"
  using assms hexToBytes_length [of t]
  by (auto simp: submitMilestoneProof_def hash_bytes_of_def bindR_Inr_iff toScVal_def build_def elim!: hexToBytes_hex)

lemma hexToBytes_not_hex: "hexToBytes ''zz'' = Inr [0]"
proof -
  have "strip0x ''zz'' = ''zz''" by code_simp
  moreover have "parse_int 16 ''zz'' = None" by code_simp
  ultimately show ?thesis by (simp add: hexToBytes_def parseInt_def to_uint8_def Let_def)
qed

end
