(* ===== verification/Crypto.thy ===== *)
theory Crypto
  imports Converters Errors
begin

text \<open>
  packages/sdk/src/crypto.ts. The SHA-256 digest itself (node:crypto, WebCrypto) is the
  parameter \<open>digest\<close>; what the SDK adds is the conversion of the input, the comparison that
  does not stop at the first difference, and the parsing of an expected digest.
\<close>

section \<open>Inputs\<close>

datatype hash_source = TextInput string | ByteInput "8 word list" | OtherInput

text \<open>\<open>TextEncoder.encode\<close> on the 8-bit code units of the model: two bytes from 128 on.\<close>

definition utf8_char :: "char \<Rightarrow> 8 word list" where
  "utf8_char c =
     (if char_code c < 128 then [word_of_nat (char_code c)]
      else [word_of_nat (192 + char_code c div 64), word_of_nat (128 + char_code c mod 64)])"

definition utf8 :: "string \<Rightarrow> 8 word list" where
  "utf8 s = concat (map utf8_char s)"

definition toBytes :: "hash_source \<Rightarrow> 8 word list js" where
  "toBytes input =
     (case input of
        TextInput s \<Rightarrow> Inr (utf8 s)
      | ByteInput bs \<Rightarrow> Inr bs
      | OtherInput \<Rightarrow> Inl (astraErr ''Unsupported hash input'' ''BAD_HASH''))"

type_synonym digest = "8 word list \<Rightarrow> 8 word list"

definition sha256Sync :: "digest \<Rightarrow> hash_source \<Rightarrow> 8 word list js" where
  "sha256Sync digest input = bindR (toBytes input) (\<lambda>bs. Inr (digest bs))"

text \<open>\<open>sha256\<close>: WebCrypto's digest when there is one, else the synchronous one.\<close>

definition sha256 :: "digest option \<Rightarrow> digest \<Rightarrow> hash_source \<Rightarrow> 8 word list js" where
  "sha256 subtle digest input =
     bindR (toBytes input) (\<lambda>bs.
       (case subtle of Some f \<Rightarrow> Inr (f bs) | None \<Rightarrow> sha256Sync digest (ByteInput bs)))"

definition sha256HexSync :: "digest \<Rightarrow> hash_source \<Rightarrow> string js" where
  "sha256HexSync digest input = bindR (sha256Sync digest input) (\<lambda>d. Inr (bytesToHex d))"

definition sha256Hex :: "digest option \<Rightarrow> digest \<Rightarrow> hash_source \<Rightarrow> string js" where
  "sha256Hex subtle digest input = bindR (sha256 subtle digest input) (\<lambda>d. Inr (bytesToHex d))"

definition hashProofAsset :: "digest \<Rightarrow> 8 word list \<Rightarrow> string js" where
  "hashProofAsset digest bs =
     (if bs = [] then Inl (astraErr ''Cannot hash an empty proof asset'' ''BAD_HASH'')
      else sha256HexSync digest (ByteInput bs))"

definition hashMilestoneDocument :: "digest \<Rightarrow> hash_source \<Rightarrow> string js" where
  "hashMilestoneDocument digest doc = sha256HexSync digest doc"

section \<open>Comparison and verification\<close>

unbundle bit_operations_syntax

text \<open>The accumulator is a JavaScript number under \<open>|=\<close>: a 32-bit integer.\<close>

fun mismatch_from :: "32 word \<Rightarrow> 8 word list \<Rightarrow> 8 word list \<Rightarrow> 32 word" where
  "mismatch_from m (x # a) (y # b) = mismatch_from (m OR (ucast x XOR ucast y)) a b"
| "mismatch_from m _ _ = m"

definition timingSafeEqual :: "8 word list \<Rightarrow> 8 word list \<Rightarrow> bool" where
  "timingSafeEqual a b = (if length a \<noteq> length b then False else mismatch_from 0 a b = 0)"

definition SHA256_HEX_RE :: re where
  "SHA256_HEX_RE =
     Seq Bol (Seq (Rep 64 (Cls (\<lambda>c. between (CHR ''0'') (CHR ''9'') c \<or> between (CHR ''a'') (CHR ''f'') c
        \<or> between (CHR ''A'') (CHR ''F'') c))) Eol)"

definition assertSha256Hex :: "string \<Rightarrow> 8 word list js" where
  "assertSha256Hex value =
     (let normalized = strip0x value in
      if \<not> re_test SHA256_HEX_RE normalized
      then Inl (astraErr ''Expected a 32-byte SHA-256 hex digest'' ''BAD_HASH'')
      else hexToBytes normalized)"

definition verifyHash :: "digest \<Rightarrow> hash_source \<Rightarrow> string \<Rightarrow> bool js" where
  "verifyHash digest input expectedHex =
     bindR (sha256Sync digest input) (\<lambda>actual.
     bindR (assertSha256Hex expectedHex) (\<lambda>expected.
       Inr (timingSafeEqual actual expected)))"

section \<open>The comparison decides equality\<close>

lemma or_zero_iff: "(m OR k :: 32 word) = 0 \<longleftrightarrow> m = 0 \<and> k = 0"
  by (auto simp: bit_eq_iff bit_simps)

lemma ucast_xor_zero: "(ucast (x :: 8 word) XOR ucast y :: 32 word) = 0 \<longleftrightarrow> x = y"
proof
  assume "(ucast x XOR ucast y :: 32 word) = 0"
  then have e: "bit (ucast x XOR ucast y :: 32 word) n \<longleftrightarrow> False" for n by simp
  show "x = y"
  proof (rule bit_word_eqI)
    fix n assume "n < LENGTH(8)"
    then show "bit x n \<longleftrightarrow> bit y n" using e [of n] by (simp add: bit_simps)
  qed
qed simp

lemma mismatch_zero:
  "length a = length b \<Longrightarrow> mismatch_from m a b = 0 \<longleftrightarrow> m = 0 \<and> a = b"
proof (induction a arbitrary: m b)
  case (Cons x a)
  then show ?case by (cases b) (auto simp: or_zero_iff ucast_xor_zero)
qed simp

text \<open>\<open>timingSafeEqual\<close>, which inspects every byte and accumulates the differences, returns
  true exactly on equal byte strings.\<close>

theorem timingSafeEqual_iff: "timingSafeEqual a b \<longleftrightarrow> a = b"
  by (auto simp: timingSafeEqual_def mismatch_zero)

section \<open>Digest texts\<close>

definition sha256_text :: "string \<Rightarrow> bool" where
  "sha256_text v = (length (strip0x v) = 64 \<and> list_all is_hex (strip0x v))"

lemma hex_class_iff:
  "(between (CHR ''0'') (CHR ''9'') c \<or> between (CHR ''a'') (CHR ''f'') c
     \<or> between (CHR ''A'') (CHR ''F'') c) = is_hex c"
  by (auto simp: between_def is_hex_def digit_val_def Let_def split: if_splits)

lemma re_test_sha256: "re_test SHA256_HEX_RE (strip0x v) \<longleftrightarrow> sha256_text v"
  unfolding SHA256_HEX_RE_def hex_class_iff test_fixed_run sha256_text_def by simp

lemma assertSha256Hex_simps:
  "assertSha256Hex v =
     (if sha256_text v then hexToBytes (strip0x v)
      else Inl (astraErr ''Expected a 32-byte SHA-256 hex digest'' ''BAD_HASH''))"
  by (simp add: assertSha256Hex_def re_test_sha256 Let_def)

lemma sha256_text_bytes:
  assumes "sha256_text v"
  obtains bs where "assertSha256Hex v = Inr bs" "length bs = 32" "bytesToHex bs = map to_lower (strip0x v)"
proof -
  have h: "list_all is_hex (strip0x v)" "length (strip0x v) = 64"
    using assms by (simp_all add: sha256_text_def)
  then have "strip0x (strip0x v) = strip0x v" by (simp add: strip0x_hex)
  with h obtain bs where "hexToBytes (strip0x v) = Inr bs" "length bs = 32"
      "bytesToHex bs = map to_lower (strip0x v)"
    by (metis even_numeral hexToBytes_hex numeral_Bit0_div_2)
  with assms that show ?thesis by (simp add: assertSha256Hex_simps)
qed

text \<open>\<open>assertSha256Hex\<close> accepts exactly 64 hex digits after an optional \<open>0x\<close>, returns the 32 bytes
  whose hex is the (lower-cased) text, and throws BAD_HASH on everything else.\<close>

theorem assertSha256Hex_spec:
  "case assertSha256Hex v of
     Inr bs \<Rightarrow> sha256_text v \<and> length bs = 32 \<and> bytesToHex bs = map to_lower (strip0x v)
   | Inl e \<Rightarrow> \<not> sha256_text v \<and> err_code e = Some ''BAD_HASH''"
proof (cases "sha256_text v")
  case True
  then show ?thesis by (rule sha256_text_bytes) (simp add: True)
next
  case False
  then show ?thesis by (simp add: assertSha256Hex_simps err_code_def)
qed

text \<open>\<open>verifyHash\<close> against a well-formed digest text answers whether the digest of the input,
  written in hex, is that text up to letter case and \<open>0x\<close>; a malformed text is an exception,
  never the answer false.\<close>

theorem verifyHash_spec:
  "verifyHash digest (ByteInput bs) v =
     (if sha256_text v then Inr (bytesToHex (digest bs) = map to_lower (strip0x v))
      else Inl (astraErr ''Expected a 32-byte SHA-256 hex digest'' ''BAD_HASH''))"
proof (cases "sha256_text v")
  case True
  then obtain e where e: "assertSha256Hex v = Inr e" "bytesToHex e = map to_lower (strip0x v)"
    by (rule sha256_text_bytes)
  have "timingSafeEqual (digest bs) e = (bytesToHex (digest bs) = bytesToHex e)"
    using hexCodec.enc_inj by (auto simp: timingSafeEqual_def mismatch_zero)
  with True e show ?thesis by (simp add: verifyHash_def sha256Sync_def toBytes_def)
next
  case False
  then show ?thesis by (simp add: verifyHash_def sha256Sync_def toBytes_def assertSha256Hex_simps)
qed

end
