(* ===== verification/Base64.thy ===== *)
theory Base64
  imports JsConvert
begin

text \<open>
  Node's base64 conversions as the program uses them: \<open>bytes.toString("base64")\<close> and the
  lenient \<open>Buffer.from(text, "base64")\<close>, which reads both alphabets, ignores other
  characters, stops at \<open>=\<close> and drops an incomplete last byte.
\<close>

section \<open>Encoding and decoding\<close>

definition b64_char :: "nat \<Rightarrow> char" where
  "b64_char n =
     (if n < 26 then char_of (65 + n) else if n < 52 then char_of (71 + n)
      else if n < 62 then char_of (n - 4) else if n = 62 then CHR ''+'' else CHR ''/'')"

definition b64_val :: "char \<Rightarrow> nat option" where
  "b64_val c =
     (let n = char_code c in
      if 65 \<le> n \<and> n \<le> 90 then Some (n - 65)
      else if 97 \<le> n \<and> n \<le> 122 then Some (n - 71)
      else if 48 \<le> n \<and> n \<le> 57 then Some (n + 4)
      else if n = 43 \<or> n = 45 then Some 62
      else if n = 47 \<or> n = 95 then Some 63
      else None)"

definition byte :: "nat \<Rightarrow> 8 word" where
  "byte n = word_of_nat n"

fun to_base64 :: "8 word list \<Rightarrow> string" where
  "to_base64 [] = []"
| "to_base64 [a] =
     (let n = unat a in [b64_char (n div 4), b64_char (n mod 4 * 16), CHR ''='', CHR ''=''])"
| "to_base64 [a, b] =
     (let n = unat a * 256 + unat b in
      [b64_char (n div 1024), b64_char (n div 16 mod 64), b64_char (n mod 16 * 4), CHR ''=''])"
| "to_base64 (a # b # c # bs) =
     (let n = unat a * 65536 + unat b * 256 + unat c in
      [b64_char (n div 262144), b64_char (n div 4096 mod 64), b64_char (n div 64 mod 64), b64_char (n mod 64)]
      @ to_base64 bs)"

fun b64_bytes :: "nat list \<Rightarrow> 8 word list" where
  "b64_bytes (p # q # r # s # ns) =
     (let n = p * 262144 + q * 4096 + r * 64 + s in
      byte (n div 65536) # byte (n div 256 mod 256) # byte (n mod 256) # b64_bytes ns)"
| "b64_bytes [p, q, r] =
     (let n = p * 1024 + q * 16 + r div 4 in [byte (n div 256), byte (n mod 256)])"
| "b64_bytes [p, q] = [byte (p * 4 + q div 16)]"
| "b64_bytes _ = []"

definition from_base64 :: "string \<Rightarrow> 8 word list" where
  "from_base64 s = b64_bytes (List.map_filter b64_val (takeWhile (\<lambda>c. c \<noteq> CHR ''='') s))"

section \<open>Round trip\<close>

lemma b64_char_facts: "n < 64 \<Longrightarrow> b64_val (b64_char n) = Some n \<and> b64_char n \<noteq> CHR ''=''"
proof -
  assume n: "n < 64"
  consider "n < 26" | "26 \<le> n" "n < 52" | "52 \<le> n" "n < 62" | "n = 62" | "n = 63"
    using n by linarith
  then show ?thesis
  proof cases
    case 1
    then have "char_code (b64_char n) = 65 + n" by (simp add: b64_char_def)
    then show ?thesis using 1 by (auto simp: b64_val_def Let_def dest: arg_cong [of _ _ char_code])
  next
    case 2
    then have "char_code (b64_char n) = 71 + n" by (simp add: b64_char_def)
    then show ?thesis using 2 by (auto simp: b64_val_def Let_def dest: arg_cong [of _ _ char_code])
  next
    case 3
    then have "char_code (b64_char n) = n - 4" by (simp add: b64_char_def)
    then show ?thesis using 3 by (auto simp: b64_val_def Let_def dest: arg_cong [of _ _ char_code])
  qed (simp_all add: b64_char_def b64_val_def)
qed

lemma sextets:
  "List.map_filter b64_val (takeWhile (\<lambda>c. c \<noteq> CHR ''='') (map b64_char ns @ rest)) =
     ns @ List.map_filter b64_val (takeWhile (\<lambda>c. c \<noteq> CHR ''='') rest)" if "list_all (\<lambda>n. n < 64) ns"
  using that by (induction ns) (simp_all add: b64_char_facts List.map_filter_simps)

lemma byte_unat [simp]: "byte (unat b) = b"
  by (simp add: byte_def)

lemma unat_lt_256: "unat (b :: 8 word) < 256"
  using unsigned_less [of b] by simp

lemma digit_below: "z < m \<Longrightarrow> (x * m + z) div m = x \<and> (x * m + z) mod m = (z :: nat)"
  by simp

lemma split_bytes:
  assumes "y < (256 :: nat)" "z < 256"
  shows "(x * 65536 + y * 256 + z) div 65536 = x" "(x * 65536 + y * 256 + z) div 256 mod 256 = y"
    "(x * 65536 + y * 256 + z) mod 256 = z"
proof -
  have "y * 256 + z < 65536" using assms by linarith
  then show "(x * 65536 + y * 256 + z) div 65536 = x"
    using digit_below [of "y * 256 + z" 65536 x] by (simp add: add.assoc)
  have e: "x * 65536 + y * 256 + z = (x * 256 + y) * 256 + z" by simp
  show "(x * 65536 + y * 256 + z) div 256 mod 256 = y" "(x * 65536 + y * 256 + z) mod 256 = z"
    unfolding e
    by (simp_all only: digit_below [OF assms(2), THEN conjunct1] digit_below [OF assms(2), THEN conjunct2]
        digit_below [OF assms(1), THEN conjunct2])
qed

lemma join3: "n = a * 64 + p \<Longrightarrow> a = b * 64 + q \<Longrightarrow> b = c * 64 + r \<Longrightarrow>
    c * 262144 + r * 4096 + q * 64 + p = (n :: nat)"
  by simp

lemma join_sextets:
  "n div 262144 * 262144 + n div 4096 mod 64 * 4096 + n div 64 mod 64 * 64 + n mod 64 = (n :: nat)"
proof -
  have "n div 4096 = n div 64 div 64" "n div 262144 = n div 64 div 64 div 64"
    by (simp_all flip: div_mult2_eq)
  then show ?thesis
    using join3 [OF div_mult_mod_eq [symmetric] div_mult_mod_eq [symmetric] div_mult_mod_eq [symmetric], of n]
    by (simp only:)
qed

lemma join2: "n = a * 16 + p \<Longrightarrow> a = b * 64 + q \<Longrightarrow> b * 1024 + q * 16 + p = (n :: nat)"
  by simp

lemma join_short: "n div 1024 * 1024 + n div 16 mod 64 * 16 + n mod 16 * 4 div 4 = (n :: nat)"
proof -
  have "n div 1024 = n div 16 div 64" by (simp flip: div_mult2_eq)
  moreover have "n mod 16 * 4 div 4 = n mod 16" by simp
  ultimately show ?thesis
    using join2 [OF div_mult_mod_eq [symmetric] div_mult_mod_eq [symmetric], of n] by (simp only:)
qed

lemma b64_bytes_to_base64:
  "b64_bytes (List.map_filter b64_val (takeWhile (\<lambda>c. c \<noteq> CHR ''='') (to_base64 bs))) = bs"
proof (induction bs rule: to_base64.induct)
  case 1
  then show ?case by (simp add: List.map_filter_simps)
next
  case (2 a)
  have l: "unat a div 4 < 64" "unat a mod 4 * 16 < 64" using unat_lt_256 [of a] by linarith+
  have v: "unat a div 4 * 4 + unat a mod 4 * 16 div 16 = unat a" by presburger
  have "to_base64 [a] = map b64_char [unat a div 4, unat a mod 4 * 16] @ [CHR ''='', CHR ''='']"
    by (simp add: Let_def)
  then show ?case by (simp only: sextets list.pred_inject l simp_thms) (simp add: v List.map_filter_simps)
next
  case (3 a b)
  let ?n = "unat a * 256 + unat b"
  have "?n < 65536" using unat_lt_256 [of a] unat_lt_256 [of b] by linarith
  then have l: "?n div 1024 < 64" "?n div 16 mod 64 < 64" "?n mod 16 * 4 < 64" by linarith+
  have w: "?n div 256 = unat a" "?n mod 256 = unat b"
    using digit_below [OF unat_lt_256 [of b], of "unat a"] by simp_all
  have "to_base64 [a, b] = map b64_char [?n div 1024, ?n div 16 mod 64, ?n mod 16 * 4] @ [CHR ''='']"
    by (simp add: Let_def)
  then show ?case
    by (simp only: sextets list.pred_inject l simp_thms)
       (simp only: takeWhile.simps List.map_filter_simps append_Nil2 append_Cons append_Nil b64_bytes.simps Let_def join_short w byte_unat simp_thms if_False)
next
  case (4 a b c bs)
  let ?n = "unat a * 65536 + unat b * 256 + unat c"
  have "?n < 16777216" using unat_lt_256 [of a] unat_lt_256 [of b] unat_lt_256 [of c] by linarith
  then have l: "?n div 262144 < 64" "?n div 4096 mod 64 < 64" "?n div 64 mod 64 < 64" "?n mod 64 < 64" by linarith+
  have "to_base64 (a # b # c # bs) =
      map b64_char [?n div 262144, ?n div 4096 mod 64, ?n div 64 mod 64, ?n mod 64] @ to_base64 bs"
    by (simp add: Let_def)
  then show ?case
    by (simp only: sextets list.pred_inject l simp_thms)
       (simp only: append_Cons append_Nil b64_bytes.simps Let_def join_sextets split_bytes unat_lt_256 byte_unat 4)
qed

lemma from_to_base64: "from_base64 (to_base64 bs) = bs"
  by (simp add: from_base64_def b64_bytes_to_base64)

interpretation base64: codec "\<lambda>_. True" to_base64 "\<lambda>s. Inr (from_base64 s)"
  by unfold_locales (simp add: from_to_base64)

end
