(* ===== verification/Auth.thy ===== *)
theory Auth
  imports Crypto Base64 Regex
begin

text \<open>
  apps/server/src/middleware/auth.ts: the GitHub webhook signature check, the table of wallet
  challenges with its pruning, issuing and verification, and the Express middlewares. HMAC,
  ed25519 and the parsing of public keys are parameters (\<open>auth_lib\<close>), as are the random
  bytes of a nonce and the readings of the clock, in milliseconds.
\<close>

section \<open>Buffers and expressions\<close>

text \<open>\<open>Buffer.from(s, "hex")\<close> stops at the first pair that is not hex and drops a last odd digit.\<close>

fun buffer_from_hex :: "string \<Rightarrow> 8 word list" where
  "buffer_from_hex (a # b # s) =
     (if is_hex a \<and> is_hex b then word_of_nat (16 * digit_val a + digit_val b) # buffer_from_hex s else [])"
| "buffer_from_hex _ = []"

definition LOWER_HEX_RE :: re where
  "LOWER_HEX_RE = Seq Bol (Seq (Plus (Cls (\<lambda>c. between (CHR ''0'') (CHR ''9'') c \<or> between (CHR ''a'') (CHR ''f'') c))) Eol)"

definition ANY_HEX_RE :: re where
  "ANY_HEX_RE = Seq Bol (Seq (Plus (Cls (\<lambda>c. between (CHR ''0'') (CHR ''9'') c \<or> between (CHR ''a'') (CHR ''f'') c
     \<or> between (CHR ''A'') (CHR ''F'') c))) Eol)"

definition AUTHORIZATION_RE :: re where
  "AUTHORIZATION_RE =
     Seq Bol (seqs [Lit ''Stellar'', Plus reSpace, Cap 1 (Plus (Cls (\<lambda>c. c \<noteq> CHR ''.'' \<and> \<not> is_ws c))), Lit ''.'',
       Cap 2 (Plus (Cls (\<lambda>c. c \<noteq> CHR ''.'' \<and> \<not> is_ws c))), Lit ''.'', Cap 3 (Plus reNonSpace), Eol])"

lemma star_to_end:
  "concat (map (mt Eol) (mt (Star (Cls p)) (pre, t, cs))) \<noteq> [] \<longleftrightarrow> list_all p t"
proof -
  have "length t \<le> length (takeWhile p t) \<longleftrightarrow> list_all p t"
  proof
    assume "length t \<le> length (takeWhile p t)"
    then have "takeWhile p t = t"
      using length_takeWhile_le [of p t] by (metis append_eq_conv_conj le_antisym takeWhile_dropWhile_id take_all)
    then show "list_all p t" by (metis list_all_iff set_takeWhileD)
  qed (metis list_all_iff order_refl takeWhile_eq_all_conv)
  then show ?thesis by (auto simp: mt_Star_Cls less_Suc_eq_le)
qed

lemma test_plus_run: "re_test (Seq Bol (Seq (Plus (Cls p)) Eol)) s \<longleftrightarrow> s \<noteq> [] \<and> list_all p s"
proof (cases s)
  case (Cons c t)
  then show ?thesis using star_to_end [of p "[c]" t "[]"] by (simp add: re_test_Bol Plus_def)
qed (simp add: re_test_Bol Plus_def)

section \<open>GitHub webhooks\<close>

record auth_lib =
  al_key :: "string \<Rightarrow> unit js"
  al_verify :: "string \<Rightarrow> 8 word list \<Rightarrow> 8 word list \<Rightarrow> bool"
  al_hmac :: "8 word list \<Rightarrow> 8 word list \<Rightarrow> 8 word list"

definition asRawBody :: "jsval \<Rightarrow> 8 word list js" where
  "asRawBody body =
     (case body of
        Bytes bs \<Rightarrow> Inr bs
      | Str s \<Rightarrow> Inr (utf8 s)
      | _ \<Rightarrow> bindR (json_stringify (coalesce body (Obj []))) (\<lambda>t.
               (case t of Some s \<Rightarrow> Inr (utf8 s) | None \<Rightarrow> Inl TypeErr)))"

definition verifyGitHubHmac :: "auth_lib \<Rightarrow> 8 word list \<Rightarrow> string option \<Rightarrow> string \<Rightarrow> bool" where
  "verifyGitHubHmac L rawBody signatureHeader secret =
     (case signatureHeader of
        None \<Rightarrow> False
      | Some header \<Rightarrow>
          if secret = [] \<or> \<not> starts_with ''sha256='' header then False
          else
            let expectedHex = bytesToHex (al_hmac L (utf8 secret) rawBody);
                receivedHex = map to_lower (drop (length ''sha256='') header)
            in if \<not> re_test LOWER_HEX_RE receivedHex then False
               else
                 let expected = buffer_from_hex expectedHex; received = buffer_from_hex receivedHex in
                 if length expected \<noteq> length received then False else expected = received)"

datatype auth_outcome = Reply nat string | Next "string option"

definition githubWebhookAuth :: "auth_lib \<Rightarrow> string \<Rightarrow> jsval \<Rightarrow> string option \<Rightarrow> auth_outcome js" where
  "githubWebhookAuth L secret body signature =
     bindR (asRawBody body) (\<lambda>rawBody.
       Inr (if \<not> verifyGitHubHmac L rawBody signature secret then Reply 401 ''invalid GitHub signature'' else Next None))"

section \<open>Challenges\<close>

definition CHALLENGE_TTL_MS :: int where "CHALLENGE_TTL_MS = 5 * 60 * 1000"

definition MAX_CHALLENGES :: nat where "MAX_CHALLENGES = 2048"

record challenge =
  ch_publicKey :: string
  ch_nonce :: string
  ch_message :: string
  ch_expiresAt :: int

record challenge_record = challenge +
  ch_consumed :: bool

type_synonym challenge_table = "(string, challenge_record) jsmap"

definition challenge_live :: "int \<Rightarrow> challenge_record \<Rightarrow> bool" where
  "challenge_live now r = (\<not> (ch_consumed r \<or> ch_expiresAt r \<le> now))"

text \<open>The entries the table is too long by, those that expire first.\<close>

definition overflow_of :: "challenge_table \<Rightarrow> challenge_table" where
  "overflow_of m = take (length m - MAX_CHALLENGES) (sort_key (\<lambda>e. ch_expiresAt (snd e)) m)"

definition pruneChallenges :: "int \<Rightarrow> challenge_table \<Rightarrow> challenge_table" where
  "pruneChallenges now m =
     (let m1 = filter (\<lambda>e. \<not> (ch_consumed (snd e) \<or> ch_expiresAt (snd e) \<le> now)) m in
      if length m1 \<le> MAX_CHALLENGES then m1
      else fold (\<lambda>e. jm_delete (fst e)) (overflow_of m1) m1)"

definition network_text :: "network_name \<Rightarrow> string" where
  "network_text n = (case n of Testnet \<Rightarrow> ''testnet'' | Mainnet \<Rightarrow> ''mainnet'')"

definition challenge_key :: "string \<Rightarrow> string \<Rightarrow> string" where
  "challenge_key publicKey nonce = publicKey @ CHR '':'' # nonce"

definition challenge_message :: "network_name \<Rightarrow> string \<Rightarrow> string \<Rightarrow> int \<Rightarrow> string" where
  "challenge_message net publicKey nonce expiresAt =
     join [char_of (10 :: nat)]
       [''Astra Flow wallet challenge'', ''network='' @ network_text net, ''key='' @ publicKey, ''nonce='' @ nonce,
        ''exp='' @ int_dec expiresAt]"

definition new_challenge :: "network_name \<Rightarrow> string \<Rightarrow> string \<Rightarrow> int \<Rightarrow> challenge_record" where
  "new_challenge net publicKey nonce expiresAt =
     \<lparr>ch_publicKey = publicKey, ch_nonce = nonce, ch_message = challenge_message net publicKey nonce expiresAt,
      ch_expiresAt = expiresAt, ch_consumed = False\<rparr>"

text \<open>\<open>t1\<close> and \<open>t2\<close> are the clock when pruning and when stamping.\<close>

definition issueStellarChallenge :: "auth_lib \<Rightarrow> network_name \<Rightarrow> int \<Rightarrow> int \<Rightarrow> 8 word list \<Rightarrow> string
    \<Rightarrow> challenge_table \<Rightarrow> challenge js \<times> challenge_table" where
  "issueStellarChallenge L net t1 t2 random publicKey m =
     (case al_key L publicKey of
        Inl _ \<Rightarrow> (Inl (PlainErr ''invalid Stellar public key''), m)
      | Inr _ \<Rightarrow>
          let m1 = pruneChallenges t1 m;
              nonce = bytesToHex random;
              r = new_challenge net publicKey nonce (t2 + CHALLENGE_TTL_MS)
          in (Inr (challenge.truncate r), jm_set (challenge_key publicKey nonce) r m1))"

text \<open>\<open>Buffer.from\<close> does not throw on a string, so the decoder has no failing branch.\<close>

definition decodeSignature :: "string \<Rightarrow> 8 word list" where
  "decodeSignature signature =
     (let compact = trim signature in
      if re_test ANY_HEX_RE compact \<and> length compact mod 2 = 0 then buffer_from_hex compact
      else from_base64 compact)"

definition verifyStellarChallenge :: "auth_lib \<Rightarrow> int \<Rightarrow> int \<Rightarrow> string \<Rightarrow> string \<Rightarrow> string
    \<Rightarrow> challenge_table \<Rightarrow> (string, unit) result \<times> challenge_table" where
  "verifyStellarChallenge L t1 t2 publicKey nonce signature m =
     (let m1 = pruneChallenges t1 m; key = challenge_key publicKey nonce in
      case jm_get key m1 of
        None \<Rightarrow> (Inl ''unknown or consumed challenge'', m1)
      | Some r \<Rightarrow>
          if ch_consumed r then (Inl ''unknown or consumed challenge'', m1)
          else if ch_expiresAt r \<le> t2 then (Inl ''challenge expired'', jm_delete key m1)
          else case al_key L publicKey of
              Inl _ \<Rightarrow> (Inl ''invalid Stellar public key'', m1)
            | Inr _ \<Rightarrow>
                let sig = decodeSignature signature in
                if length sig \<noteq> 64 then (Inl ''signature must be 64 bytes'', m1)
                else if \<not> al_verify L publicKey (utf8 (ch_message r)) sig
                then (Inl ''signature does not match challenge'', m1)
                else (Inr (), jm_delete key m1))"

definition auth_reply :: "string \<Rightarrow> (string, unit) result \<times> challenge_table \<Rightarrow> auth_outcome \<times> challenge_table" where
  "auth_reply publicKey rm =
     (case rm of
        (Inl err, m) \<Rightarrow> (Reply 401 err, m)
      | (Inr _, m) \<Rightarrow> (Next (Some publicKey), m))"

definition stellarAuth :: "auth_lib \<Rightarrow> int \<Rightarrow> int \<Rightarrow> string option \<Rightarrow> challenge_table \<Rightarrow> auth_outcome \<times> challenge_table" where
  "stellarAuth L t1 t2 header m =
     (case re_exec AUTHORIZATION_RE (or_default header []) of
        None \<Rightarrow> (Reply 401 ''missing Stellar authorization'', m)
      | Some g \<Rightarrow>
          let publicKey = or_default (g 1) []; nonce = or_default (g 2) []; signature = or_default (g 3) [] in
          auth_reply publicKey (verifyStellarChallenge L t1 t2 publicKey nonce signature m))"

definition body_text :: "jsval \<Rightarrow> string \<Rightarrow> string" where
  "body_text body field = (case js_prop body field of Str s \<Rightarrow> s | _ \<Rightarrow> [])"

definition requireStellarChallengeBody :: "auth_lib \<Rightarrow> int \<Rightarrow> int \<Rightarrow> jsval \<Rightarrow> challenge_table \<Rightarrow> auth_outcome \<times> challenge_table" where
  "requireStellarChallengeBody L t1 t2 body m =
     (let publicKey = body_text body ''publicKey''; nonce = body_text body ''nonce''; signature = body_text body ''signature'' in
      if publicKey = [] \<or> nonce = [] \<or> signature = []
      then (Reply 400 ''publicKey, nonce, and signature are required'', m)
      else auth_reply publicKey (verifyStellarChallenge L t1 t2 publicKey nonce signature m))"

section \<open>The webhook signature\<close>

lemma buffer_from_hex_bytes: "bytesToHex (buffer_from_hex s) = map to_lower s"
  if "list_all is_hex s" "even (length s)"
  using that
proof (induction s rule: buffer_from_hex.induct)
  case (1 a b s)
  then show ?case by (simp add: bytesToHex_Cons hex_byte_of_pair del: of_nat_add of_nat_mult)
qed (simp_all add: bytesToHex_def)

lemma buffer_from_bytesToHex: "buffer_from_hex (bytesToHex bs) = bs"
proof -
  have "map to_lower (bytesToHex bs) = bytesToHex bs"
  proof -
    have "to_lower c = c" if "c \<in> set (hex_byte b)" for b c
    proof -
      have "unat b div 16 < 16" "unat b mod 16 < 16" using unat_byte [of b] by simp_all
      then have "\<exists>d<16. c = digit_char d"
        using \<open>c \<in> set (hex_byte b)\<close> unfolding hex_byte_digits by (metis empty_iff empty_set set_ConsD)
      then obtain d where d: "d < 16" "c = digit_char d" by blast
      then show ?thesis using digit_char_val_lower [OF is_hex_digit_char [OF d(1)]] by simp
    qed
    then show ?thesis by (auto simp: bytesToHex_def intro!: map_idI)
  qed
  then have "bytesToHex (buffer_from_hex (bytesToHex bs)) = bytesToHex bs"
    by (simp add: buffer_from_hex_bytes bytesToHex_is_hex)
  then show ?thesis using hexCodec.enc_inj by blast
qed

lemma buffer_from_hex_snoc: "even (length s) \<Longrightarrow> buffer_from_hex (s @ [d]) = buffer_from_hex s"
  by (induction s rule: buffer_from_hex.induct) auto

lemma lower_hex_class:
  "(between (CHR ''0'') (CHR ''9'') (to_lower c) \<or> between (CHR ''a'') (CHR ''f'') (to_lower c)) = is_hex (to_lower c)"
  by (auto simp: between_def is_hex_def digit_val_def to_lower_def Let_def split: if_splits)

lemma to_lower_idem [simp]: "to_lower (to_lower c) = to_lower c"
  by (simp add: to_lower_def)

lemma test_lower_hex: "re_test LOWER_HEX_RE (map to_lower s) \<longleftrightarrow> s \<noteq> [] \<and> list_all (\<lambda>c. is_hex (to_lower c)) s"
  unfolding LOWER_HEX_RE_def test_plus_run by (simp add: list.pred_map comp_def lower_hex_class)

text \<open>The received digits decode to the MAC exactly when they are its digits, or those and one more.\<close>

lemma buffer_from_hex_eq_iff:
  assumes "list_all is_hex s" "map to_lower s = s"
  shows "buffer_from_hex s = mac \<longleftrightarrow> s = bytesToHex mac \<or> (\<exists>d. s = bytesToHex mac @ [d])"
proof (cases "even (length s)")
  case True
  have "buffer_from_hex s = mac \<longleftrightarrow> s = bytesToHex mac"
    using buffer_from_hex_bytes [OF assms(1) True] assms(2) buffer_from_bytesToHex [of mac] by metis
  moreover have "s \<noteq> bytesToHex mac @ [d]" for d using True by auto
  ultimately show ?thesis by blast
next
  case False
  then obtain t d where s: "s = t @ [d]" by (metis even_zero list.size(3) rev_exhaust)
  with False have t: "even (length t)" by simp
  have "list_all is_hex t" "map to_lower t = t" using assms by (simp_all add: s)
  then have "buffer_from_hex t = mac \<longleftrightarrow> t = bytesToHex mac"
    using buffer_from_hex_bytes [OF _ t] buffer_from_bytesToHex [of mac] by metis
  moreover have "s \<noteq> bytesToHex mac" using False by (metis dvd_triv_left length_bytesToHex)
  ultimately show ?thesis by (simp add: s buffer_from_hex_snoc [OF t])
qed

text \<open>C31: A webhook delivery is accepted exactly when a secret is configured and the header is
  \<open>sha256=\<close> followed by the hex digits of the HMAC of the raw body under that secret, in either
  letter case, or by those digits and one more hex digit, which is ignored.\<close>

theorem verifyGitHubHmac_iff:
  assumes "al_hmac L (utf8 secret) body \<noteq> []"
  shows "verifyGitHubHmac L body header secret \<longleftrightarrow>
     secret \<noteq> [] \<and> (\<exists>rest. header = Some (''sha256='' @ rest)
       \<and> (map to_lower rest = bytesToHex (al_hmac L (utf8 secret) body)
          \<or> (\<exists>d. is_hex d \<and> map to_lower rest = bytesToHex (al_hmac L (utf8 secret) body) @ [d])))"
proof -
  let ?mac = "al_hmac L (utf8 secret) body"
  have core: "re_test LOWER_HEX_RE (map to_lower rest) \<and> buffer_from_hex (map to_lower rest) = ?mac \<longleftrightarrow>
      map to_lower rest = bytesToHex ?mac \<or> (\<exists>d. is_hex d \<and> map to_lower rest = bytesToHex ?mac @ [d])" for rest
  proof -
    have hex: "list_all is_hex (map to_lower rest) \<longleftrightarrow> list_all (\<lambda>c. is_hex (to_lower c)) rest"
      by (simp add: list.pred_map comp_def)
    have "list_all is_hex (map to_lower rest) \<Longrightarrow> buffer_from_hex (map to_lower rest) = ?mac \<longleftrightarrow>
        map to_lower rest = bytesToHex ?mac \<or> (\<exists>d. map to_lower rest = bytesToHex ?mac @ [d])"
      by (rule buffer_from_hex_eq_iff) simp_all
    moreover have "map to_lower rest = bytesToHex ?mac \<Longrightarrow> list_all is_hex (map to_lower rest) \<and> rest \<noteq> []"
      using assms bytesToHex_is_hex [of ?mac] length_bytesToHex [of ?mac] by (metis length_0_conv map_is_Nil_conv mult_is_0 zero_neq_numeral)
    moreover have "map to_lower rest = bytesToHex ?mac @ [d] \<Longrightarrow>
        (list_all is_hex (map to_lower rest) \<longleftrightarrow> is_hex d) \<and> rest \<noteq> []" for d
      using bytesToHex_is_hex [of ?mac] by auto
    ultimately show ?thesis
      unfolding test_lower_hex hex [symmetric] by blast
  qed
  have pre: "starts_with ''sha256='' h \<longleftrightarrow> (\<exists>rest. h = ''sha256='' @ rest)" for h
    by (metis append_take_drop_id starts_with_append starts_with_def)
  have dist: "(if length ?mac \<noteq> length x then False else ?mac = x) \<longleftrightarrow> x = ?mac" for x by auto
  show ?thesis
  proof (cases header)
    case (Some h)
    show ?thesis
    proof (cases "starts_with ''sha256='' h")
      case True
      obtain rest where h: "h = ''sha256='' @ rest" using True pre by blast
      have rest: "h = ''sha256='' @ r \<longleftrightarrow> r = drop 7 h" for r by (auto simp: h)
      have "verifyGitHubHmac L body header secret \<longleftrightarrow>
          secret \<noteq> [] \<and> re_test LOWER_HEX_RE (map to_lower (drop 7 h)) \<and> buffer_from_hex (map to_lower (drop 7 h)) = ?mac"
        using True by (simp add: verifyGitHubHmac_def Some Let_def buffer_from_bytesToHex dist eval_nat_numeral)
      then show ?thesis using core [of "drop 7 h"] by (simp only: Some option.inject rest simp_thms ex_simps)
    next
      case False
      then show ?thesis using pre by (auto simp: verifyGitHubHmac_def Some)
    qed
  qed (simp add: verifyGitHubHmac_def)
qed

definition sample_auth :: auth_lib where
  "sample_auth = \<lparr>al_key = (\<lambda>k. if k = ''GA'' then Inr () else Inl TypeErr), al_verify = (\<lambda>_ msg sig. hd sig = 1),
     al_hmac = (\<lambda>secret body. [171, 205])\<rparr>"

theorem verifyGitHubHmac_iff_witness:
  "verifyGitHubHmac sample_auth [] (Some ''sha256=ABcd0'') ''s'' \<and> \<not> verifyGitHubHmac sample_auth [] (Some ''sha256=abce'') ''s''"
proof -
  have mac: "al_hmac sample_auth (utf8 ''s'') [] = [171, 205]" by (simp add: sample_auth_def)
  have hex: "bytesToHex [171, 205] = ''abcd''" by code_simp
  have "map to_lower ''ABcd0'' = ''abcd'' @ [CHR ''0'']" "is_hex (CHR ''0'')" by code_simp+
  moreover have "map to_lower ''abce'' = ''abce''" by code_simp
  ultimately show ?thesis
    using verifyGitHubHmac_iff [of sample_auth "''s''" "[]" "Some ''sha256=ABcd0''"]
      verifyGitHubHmac_iff [of sample_auth "''s''" "[]" "Some ''sha256=abce''"]
    by (auto simp: mac hex)
qed

section \<open>The challenge table\<close>

lemma fold_delete: "fold (\<lambda>e. jm_delete (fst e)) es m = filter (\<lambda>e. fst e \<notin> fst ` set es) m"
proof (induction es arbitrary: m)
  case (Cons e es)
  then show ?case by (auto simp: jm_delete_def filter_filter intro: filter_cong)
qed simp

lemma overflow_subset: "set (overflow_of m) \<subseteq> set m"
  unfolding overflow_of_def by (metis set_sort set_take_subset)

lemma prune_filter:
  "pruneChallenges now m =
     (let m1 = filter (\<lambda>e. challenge_live now (snd e)) m in
      filter (\<lambda>e. fst e \<notin> fst ` set (overflow_of m1)) m1)"
  by (simp add: pruneChallenges_def challenge_live_def fold_delete overflow_of_def Let_def)

lemma overflow_length:
  assumes "jm_wf m"
  shows "length (filter (\<lambda>e. fst e \<notin> fst ` set (overflow_of m)) m) = min (length m) MAX_CHALLENGES"
proof -
  have sub: "set (overflow_of m) \<subseteq> set m" by (rule overflow_subset)
  have "distinct m" and inj: "inj_on fst (set m)" using assms by (auto simp: jm_wf_def distinct_map)
  then have d: "distinct (overflow_of m)" by (simp add: overflow_of_def)
  have "e \<in> set m \<Longrightarrow> fst e \<in> fst ` set (overflow_of m) \<longleftrightarrow> e \<in> set (overflow_of m)" for e
    using sub inj by (auto dest: inj_onD)
  then have eq: "filter (\<lambda>e. fst e \<notin> fst ` set (overflow_of m)) m = filter (\<lambda>e. e \<notin> set (overflow_of m)) m"
    by (intro filter_cong) auto
  have "length (filter (\<lambda>e. e \<notin> set (overflow_of m)) m) = card (set m - set (overflow_of m))"
    using \<open>distinct m\<close> distinct_card [of "filter (\<lambda>e. e \<notin> set (overflow_of m)) m"] by (simp add: set_diff_eq)
  also have "\<dots> = length m - length (overflow_of m)"
    using \<open>distinct m\<close> d sub by (simp add: card_Diff_subset distinct_card)
  also have "\<dots> = min (length m) MAX_CHALLENGES" by (simp add: overflow_of_def)
  finally show ?thesis by (simp only: eq)
qed

interpretation challenges: expiring_store MAX_CHALLENGES challenge_live pruneChallenges
proof unfold_locales
  fix m :: challenge_table and t
  assume wf: "jm_wf m"
  then have wf': "jm_wf (filter (\<lambda>e. challenge_live t (snd e)) m)" by (rule jm_wf_filter)
  show "jm_wf (pruneChallenges t m)" using wf by (simp add: prune_filter Let_def jm_wf_filter)
  show "set (pruneChallenges t m) \<subseteq> {e \<in> set m. challenge_live t (snd e)}"
    by (auto simp: prune_filter Let_def)
  show "length (pruneChallenges t m) \<le> MAX_CHALLENGES"
    using overflow_length [OF wf'] by (simp add: prune_filter Let_def)
  show "pruneChallenges t m = filter (\<lambda>e. challenge_live t (snd e)) m"
    if "length (filter (\<lambda>e. challenge_live t (snd e)) m) \<le> MAX_CHALLENGES"
    using that by (simp add: prune_filter overflow_of_def Let_def)
qed

section \<open>Histories of requests\<close>

datatype auth_request =
    Issue int int "8 word list" string
  | Verify int int string string string

definition auth_step :: "auth_lib \<Rightarrow> network_name \<Rightarrow> auth_request \<Rightarrow> challenge_table \<Rightarrow> challenge_table" where
  "auth_step L net req m =
     (case req of
        Issue t1 t2 random k \<Rightarrow> snd (issueStellarChallenge L net t1 t2 random k m)
      | Verify t1 t2 k nonce sig \<Rightarrow> snd (verifyStellarChallenge L t1 t2 k nonce sig m))"

definition auth_run :: "auth_lib \<Rightarrow> network_name \<Rightarrow> auth_request list \<Rightarrow> challenge_table \<Rightarrow> challenge_table" where
  "auth_run L net reqs m = fold (auth_step L net) reqs m"

text \<open>The record an accepted request for a challenge leaves, with its key.\<close>

definition issued_by :: "auth_lib \<Rightarrow> network_name \<Rightarrow> auth_request \<Rightarrow> (string \<times> challenge_record) option" where
  "issued_by L net req =
     (case req of
        Issue t1 t2 random k \<Rightarrow>
          if is_ok (al_key L k)
          then Some (challenge_key k (bytesToHex random), new_challenge net k (bytesToHex random) (t2 + CHALLENGE_TTL_MS))
          else None
      | _ \<Rightarrow> None)"

text \<open>Nothing but an issued record gets into the table, and its size stays bounded.\<close>

definition table_ok :: "auth_lib \<Rightarrow> network_name \<Rightarrow> auth_request list \<Rightarrow> challenge_table \<Rightarrow> bool" where
  "table_ok L net reqs m \<longleftrightarrow> jm_wf m \<and> length m \<le> Suc MAX_CHALLENGES \<and> set m \<subseteq> {kr. \<exists>req\<in>set reqs. issued_by L net req = Some kr}"

lemma verify_table: "snd (verifyStellarChallenge L t1 t2 k nonce sig m) =
    pruneChallenges t1 m \<or> snd (verifyStellarChallenge L t1 t2 k nonce sig m) = jm_delete (challenge_key k nonce) (pruneChallenges t1 m)"
  by (simp add: verifyStellarChallenge_def Let_def split: option.split sum.split)

lemma set_jm_set: "set (jm_set k v m) \<subseteq> insert (k, v) (set m)"
  by (induction k v m rule: jm_set.induct) auto

lemma issue_table:
  "snd (issueStellarChallenge L net t1 t2 random k m) =
     (case issued_by L net (Issue t1 t2 random k) of
        None \<Rightarrow> m
      | Some (key, r) \<Rightarrow> jm_set key r (pruneChallenges t1 m))"
  by (cases "al_key L k") (simp_all add: issueStellarChallenge_def issued_by_def Let_def)

lemma prune_subset: "jm_wf m \<Longrightarrow> set (pruneChallenges t m) \<subseteq> set m"
  using challenges.prune_subset [of m t] by auto

lemma auth_step_ok:
  assumes "table_ok L net reqs m"
  shows "table_ok L net (reqs @ [req]) (auth_step L net req m)"
proof -
  have wf: "jm_wf m" using assms by (simp add: table_ok_def)
  have pruned: "jm_wf (pruneChallenges t m)" "length (pruneChallenges t m) \<le> MAX_CHALLENGES" for t
    by (rule challenges.prune_wf [OF wf], rule challenges.prune_cap [OF wf])
  have sub: "set (pruneChallenges t m) \<subseteq> {kr. \<exists>req\<in>set reqs. issued_by L net req = Some kr}" for t
    using prune_subset [OF wf, of t] assms by (auto simp: table_ok_def)
  show ?thesis
  proof (cases req)
    case (Issue t1 t2 random k)
    show ?thesis
    proof (cases "issued_by L net (Issue t1 t2 random k)")
      case None
      then show ?thesis using assms by (auto simp: auth_step_def Issue issue_table table_ok_def)
    next
      case (Some kr)
      obtain key r where kr: "kr = (key, r)" by (cases kr)
      have "set (jm_set key r (pruneChallenges t1 m)) \<subseteq> {kr. \<exists>req\<in>set (reqs @ [Issue t1 t2 random k]). issued_by L net req = Some kr}"
        using set_jm_set [of key r "pruneChallenges t1 m"] sub [of t1] Some kr by auto
      moreover have "length (jm_set key r (pruneChallenges t1 m)) \<le> Suc MAX_CHALLENGES"
        using challenges.prune_then_set_size [OF wf] by simp
      ultimately show ?thesis
        by (simp add: auth_step_def Issue issue_table Some kr table_ok_def jm_wf_set pruned)
    qed
  next
    case (Verify t1 t2 k nonce sig)
    let ?m = "pruneChallenges t1 m"
    have del: "set (jm_delete key ?m) \<subseteq> set ?m" "length (jm_delete key ?m) \<le> length ?m" for key
      by (auto simp: jm_delete_def)
    show ?thesis
      using verify_table [of L t1 t2 k nonce sig m] sub [of t1] pruned [of t1] del [of "challenge_key k nonce"]
      by (auto simp: auth_step_def Verify table_ok_def jm_wf_delete)
  qed
qed

lemma auth_run_ok: "table_ok L net reqs (auth_run L net reqs [])"
proof (induction reqs rule: rev_induct)
  case Nil
  then show ?case by (simp add: table_ok_def auth_run_def)
next
  case (snoc req reqs)
  then show ?case using auth_step_ok by (simp add: auth_run_def)
qed

text \<open>The challenge table never holds more than one entry beyond MAX_CHALLENGES, whatever requests
  arrive, and every entry in it was put there by a request for it.\<close>

theorem challenges_bounded:
  "length (auth_run L net reqs []) \<le> Suc MAX_CHALLENGES
   \<and> list_all (\<lambda>kr. list_ex (\<lambda>req. issued_by L net req = Some kr) reqs) (auth_run L net reqs [])"
  using auth_run_ok [of L net reqs] by (auto simp: table_ok_def list_all_iff list_ex_iff)

lemma verify_ok:
  assumes "verifyStellarChallenge L t1 t2 k nonce sig m = (Inr (), m')"
  obtains r where "jm_get (challenge_key k nonce) (pruneChallenges t1 m) = Some r" "t2 < ch_expiresAt r" "is_ok (al_key L k)"
    "length (decodeSignature sig) = 64" "al_verify L k (utf8 (ch_message r)) (decodeSignature sig)"
    "m' = jm_delete (challenge_key k nonce) (pruneChallenges t1 m)"
  using assms that by (auto simp: verifyStellarChallenge_def Let_def split: option.splits if_splits sum.splits)

lemma challenge_key_inj:
  "CHR '':'' \<notin> set k \<Longrightarrow> CHR '':'' \<notin> set k' \<Longrightarrow> challenge_key k n = challenge_key k' n' \<Longrightarrow> k = k' \<and> n = n'"
  unfolding challenge_key_def by (induction k arbitrary: k') (auto simp: Cons_eq_append_conv append_eq_Cons_conv)

text \<open>C9: A wallet is authenticated only for a challenge the server issued to that public key, before
  it expires, and with 64 signature bytes that verify under the key over the message the server
  composed, which names the network, the key, the nonce and the time of expiry.\<close>

theorem accepted_challenge_was_issued:
  assumes "\<And>k. is_ok (al_key L k) \<Longrightarrow> CHR '':'' \<notin> set k"
    and "verifyStellarChallenge L t1 t2 k nonce sig (auth_run L net reqs []) = (Inr (), m')"
  shows "\<exists>random ti1 ti2. Issue ti1 ti2 random k \<in> set reqs \<and> nonce = bytesToHex random
     \<and> t2 < ti2 + CHALLENGE_TTL_MS \<and> length (decodeSignature sig) = 64
     \<and> al_verify L k (utf8 (challenge_message net k nonce (ti2 + CHALLENGE_TTL_MS))) (decodeSignature sig)"
proof -
  let ?m = "auth_run L net reqs []"
  obtain r where r: "jm_get (challenge_key k nonce) (pruneChallenges t1 ?m) = Some r" "t2 < ch_expiresAt r" "is_ok (al_key L k)"
      "length (decodeSignature sig) = 64" "al_verify L k (utf8 (ch_message r)) (decodeSignature sig)"
    by (rule verify_ok [OF assms(2)])
  have ok: "table_ok L net reqs ?m" by (rule auth_run_ok)
  then have "jm_get (challenge_key k nonce) ?m = Some r"
    using challenges.prune_get [OF _ r(1)] by (simp add: table_ok_def)
  then have "(challenge_key k nonce, r) \<in> set ?m" using ok by (simp add: table_ok_def jm_get_iff_mem)
  then obtain req where req: "req \<in> set reqs" "issued_by L net req = Some (challenge_key k nonce, r)"
    using ok by (auto simp: table_ok_def)
  then obtain ti1 ti2 random k' where i: "req = Issue ti1 ti2 random k'" "is_ok (al_key L k')"
      "challenge_key k' (bytesToHex random) = challenge_key k nonce"
      "r = new_challenge net k' (bytesToHex random) (ti2 + CHALLENGE_TTL_MS)"
    by (auto simp: issued_by_def split: auth_request.splits if_splits)
  have "k' = k" "bytesToHex random = nonce"
    using challenge_key_inj [OF assms(1) [OF i(2)] assms(1) [OF r(3)] i(3)] by auto
  then show ?thesis using req(1) r(2,4,5) i by (auto simp: new_challenge_def)
qed

lemma absent_step:
  assumes "jm_wf m" "jm_get key m = None" "\<And>r. issued_by L net req \<noteq> Some (key, r)"
  shows "jm_wf (auth_step L net req m) \<and> jm_get key (auth_step L net req m) = None"
proof (cases req)
  case (Issue t1 t2 random k)
  have "jm_get key (pruneChallenges t1 m) = None" by (rule challenges.prune_absent [OF assms(1,2)])
  then show ?thesis
    using assms challenges.prune_wf [OF assms(1)]
    by (auto simp: auth_step_def Issue issue_table jm_wf_set jm_get_set split: option.split)
next
  case (Verify t1 t2 k nonce sig)
  have "jm_get key (pruneChallenges t1 m) = None" by (rule challenges.prune_absent [OF assms(1,2)])
  then show ?thesis
    using verify_table [of L t1 t2 k nonce sig m] challenges.prune_wf [OF assms(1)]
    by (auto simp: auth_step_def Verify jm_wf_delete jm_get_delete)
qed

lemma absent_run:
  "jm_wf m \<Longrightarrow> jm_get key m = None \<Longrightarrow> (\<And>req r. req \<in> set reqs \<Longrightarrow> issued_by L net req \<noteq> Some (key, r)) \<Longrightarrow>
     jm_wf (auth_run L net reqs m) \<and> jm_get key (auth_run L net reqs m) = None"
  unfolding auth_run_def
proof (induction reqs arbitrary: m)
  case (Cons req reqs)
  then show ?case using absent_step [OF Cons.prems(1,2), of L net req] by auto
qed simp

lemma verify_absent:
  "jm_wf m \<Longrightarrow> jm_get (challenge_key k nonce) m = None \<Longrightarrow>
     fst (verifyStellarChallenge L t1 t2 k nonce sig m) = Inl ''unknown or consumed challenge''"
  using challenges.prune_absent by (simp add: verifyStellarChallenge_def Let_def)

text \<open>C29: A challenge is good for one authentication: once it has been accepted, no later request
  with the same key and nonce is accepted, whatever signature it carries and whatever other
  requests come in between, unless the same nonce is drawn again for the key.\<close>

theorem challenge_used_once:
  assumes "verifyStellarChallenge L t1 t2 k nonce sig (auth_run L net reqs []) = (Inr (), m')"
    and "\<And>req r. req \<in> set later \<Longrightarrow> issued_by L net req \<noteq> Some (challenge_key k nonce, r)"
  shows "fst (verifyStellarChallenge L t3 t4 k nonce sig' (auth_run L net later m')) = Inl ''unknown or consumed challenge''"
proof -
  have wf: "jm_wf (auth_run L net reqs [])" using auth_run_ok by (simp add: table_ok_def)
  have m': "m' = jm_delete (challenge_key k nonce) (pruneChallenges t1 (auth_run L net reqs []))"
    by (rule verify_ok [OF assms(1)])
  then have "jm_wf m'" "jm_get (challenge_key k nonce) m' = None"
    using challenges.prune_wf [OF wf] by (simp_all add: jm_wf_delete jm_get_delete)
  then show ?thesis using absent_run [OF _ _ assms(2)] verify_absent by blast
qed

section \<open>Instances\<close>

lemma any_hex_class:
  "(between (CHR ''0'') (CHR ''9'') c \<or> between (CHR ''a'') (CHR ''f'') c \<or> between (CHR ''A'') (CHR ''F'') c) = is_hex c"
  by (auto simp: between_def is_hex_def digit_val_def Let_def split: if_splits)

lemma hex_not_ws: "is_hex c \<Longrightarrow> \<not> is_ws c"
  by (auto simp: is_hex_def digit_val_def is_ws_def Let_def split: if_splits)

lemma decodeSignature_hex: "bs \<noteq> [] \<Longrightarrow> decodeSignature (bytesToHex bs) = bs"
proof -
  assume "bs \<noteq> []"
  then have "re_test ANY_HEX_RE (bytesToHex bs)"
    unfolding ANY_HEX_RE_def test_plus_run any_hex_class
    using bytesToHex_is_hex [of bs] length_bytesToHex [of bs] by (auto simp del: length_bytesToHex)
  moreover have "trim (bytesToHex bs) = bytesToHex bs"
    using bytesToHex_is_hex [of bs] hex_not_ws by (auto simp: list_all_iff intro!: trim_id)
  ultimately show ?thesis by (simp add: decodeSignature_def buffer_from_bytesToHex)
qed

text \<open>A wallet whose only key is \<open>GA\<close> and whose signatures are the 64 bytes starting with 1.\<close>

definition sample_signature :: string where
  "sample_signature = bytesToHex (replicate 64 1)"

lemma sample_accepts:
  "verifyStellarChallenge sample_auth 1 2 ''GA'' (bytesToHex [7]) sample_signature
     (auth_run sample_auth Testnet [Issue 0 0 [7] ''GA''] []) = (Inr (), [])"
  by (simp add: auth_run_def auth_step_def issueStellarChallenge_def verifyStellarChallenge_def sample_auth_def Let_def
      pruneChallenges_def MAX_CHALLENGES_def new_challenge_def CHALLENGE_TTL_MS_def sample_signature_def decodeSignature_hex
      jm_get_def jm_delete_def)

theorem accepted_challenge_was_issued_witness:
  "\<exists>random ti1 ti2. Issue ti1 ti2 random ''GA'' \<in> set [Issue 0 0 [7] ''GA''] \<and> bytesToHex [7] = bytesToHex random
     \<and> 2 < ti2 + CHALLENGE_TTL_MS \<and> length (decodeSignature sample_signature) = 64
     \<and> al_verify sample_auth ''GA'' (utf8 (challenge_message Testnet ''GA'' (bytesToHex [7]) (ti2 + CHALLENGE_TTL_MS)))
         (decodeSignature sample_signature)"
  by (rule accepted_challenge_was_issued [OF _ sample_accepts]) (auto simp: sample_auth_def split: if_splits)

theorem challenge_used_once_witness:
  "fst (verifyStellarChallenge sample_auth 3 3 ''GA'' (bytesToHex [7]) sample_signature
     (auth_run sample_auth Testnet [Issue 2 2 [8] ''GA''] [])) = Inl ''unknown or consumed challenge''"
  by (rule challenge_used_once [OF sample_accepts])
    (auto simp: issued_by_def challenge_key_def dest!: arg_cong [where f = buffer_from_hex] simp: buffer_from_bytesToHex)

section \<open>Flooding the table\<close>

lemma sorted_take_le:
  assumes "a \<in> set (take n (sort_key f xs))" "b \<in> set xs" "b \<notin> set (take n (sort_key f xs))"
  shows "f a \<le> f b"
proof -
  define s where "s = sort_key f xs"
  define p where "p = take n s"
  define q where "q = drop n s"
  have s: "s = p @ q" by (simp add: p_def q_def)
  have "set s = set xs" by (simp add: s_def)
  then have "b \<in> set p \<union> set q" using assms(2) by (simp add: s)
  then have "b \<in> set q" using assms(3) unfolding s_def [symmetric] p_def [symmetric] by blast
  moreover have "sorted (map f s)" by (simp add: s_def)
  moreover have "a \<in> set p" using assms(1) by (simp add: p_def s_def)
  ultimately show ?thesis by (auto simp: s sorted_append)
qed

text \<open>An entry with \<open>MAX_CHALLENGES\<close> entries expiring after it does not survive pruning.\<close>

lemma prune_evicts:
  assumes "jm_wf m" "jm_get key m = Some r" "F \<subseteq> set m" "card F = MAX_CHALLENGES"
    and "\<And>e. e \<in> F \<Longrightarrow> challenge_live t (snd e) \<and> ch_expiresAt r < ch_expiresAt (snd e)"
  shows "jm_get key (pruneChallenges t m) = None"
proof (rule ccontr)
  assume "jm_get key (pruneChallenges t m) \<noteq> None"
  then have get: "jm_get key (pruneChallenges t m) = Some r"
    using challenges.prune_get [OF assms(1)] assms(2) by fastforce
  define m1 where "m1 = filter (\<lambda>e. challenge_live t (snd e)) m"
  have wf1: "jm_wf m1" using assms(1) by (simp add: m1_def jm_wf_filter)
  have "(key, r) \<in> set (pruneChallenges t m)"
    using get challenges.prune_wf [OF assms(1)] by (simp add: jm_get_iff_mem)
  then have v: "(key, r) \<in> set m1" "(key, r) \<notin> set (overflow_of m1)"
    by (force simp: prune_filter Let_def m1_def)+
  let ?old = "{e \<in> set m1. ch_expiresAt (snd e) \<le> ch_expiresAt r}"
  have "ch_expiresAt (snd e) \<le> ch_expiresAt r" if "e \<in> set (overflow_of m1)" for e
    using sorted_take_le [OF that [unfolded overflow_of_def] v(1) v(2) [unfolded overflow_of_def]] by simp
  then have "set (overflow_of m1) \<subseteq> ?old - {(key, r)}" using subsetD [OF overflow_subset [of m1]] v(2) by blast
  then have "card (set (overflow_of m1)) \<le> card (?old - {(key, r)})" by (rule card_mono [rotated]) simp
  also have "\<dots> < card ?old" using v(1) by (intro card_Diff1_less) simp_all
  finally have less: "card (set (overflow_of m1)) < card ?old" .
  have F: "F \<subseteq> set m1" using assms(3,5) by (auto simp: m1_def)
  then have "?old \<subseteq> set m1 - F" using assms(5) by force
  then have "card ?old \<le> card (set m1 - F)" by (meson List.finite_set card_mono finite_Diff)
  also have "\<dots> = card (set m1) - card F" using F by (simp add: card_Diff_subset finite_subset)
  also have "\<dots> = length m1 - MAX_CHALLENGES"
    using wf1 assms(4) by (simp add: distinct_card jm_wf_def distinct_map)
  finally have "card ?old \<le> length m1 - MAX_CHALLENGES" .
  moreover have "card (set (overflow_of m1)) = length m1 - MAX_CHALLENGES"
    using wf1 by (simp add: overflow_of_def distinct_card jm_wf_def distinct_map)
  ultimately show False using less by simp
qed

text \<open>Entries that expire after one that survives pruning survive it too.\<close>

lemma prune_keeps_later:
  assumes "jm_wf m" "jm_get key (pruneChallenges t m) = Some r" "e \<in> set m" "challenge_live t (snd e)"
    and "ch_expiresAt r < ch_expiresAt (snd e)"
  shows "e \<in> set (pruneChallenges t m)"
proof -
  define m1 where "m1 = filter (\<lambda>e. challenge_live t (snd e)) m"
  have wf1: "jm_wf m1" using assms(1) by (simp add: m1_def jm_wf_filter)
  have "(key, r) \<in> set (pruneChallenges t m)"
    using assms(2) challenges.prune_wf [OF assms(1)] by (simp add: jm_get_iff_mem)
  then have v: "(key, r) \<in> set m1" "(key, r) \<notin> set (overflow_of m1)"
    by (force simp: prune_filter Let_def m1_def)+
  have e: "e \<in> set m1" using assms(3,4) by (simp add: m1_def)
  have "e \<notin> set (overflow_of m1)"
    using sorted_take_le [of e _ _ m1, OF _ v(1) v(2) [unfolded overflow_of_def]] assms(5)
    by (auto simp: overflow_of_def)
  then have "fst e \<notin> fst ` set (overflow_of m1)"
    using e overflow_subset [of m1] wf1 by (auto simp: jm_wf_def distinct_map dest!: inj_onD)
  then show ?thesis using e by (simp add: prune_filter Let_def m1_def)
qed

definition flood_request :: "auth_lib \<Rightarrow> int \<Rightarrow> auth_request \<Rightarrow> bool" where
  "flood_request L expiry req =
     (case req of
        Issue t1 t2 random k \<Rightarrow> is_ok (al_key L k) \<and> t1 < expiry \<and> expiry < t2 + CHALLENGE_TTL_MS
      | Verify _ _ _ _ _ \<Rightarrow> False)"

definition request_key :: "auth_request \<Rightarrow> string" where
  "request_key req = (case req of Issue t1 t2 random k \<Rightarrow> challenge_key k (bytesToHex random) | _ \<Rightarrow> [])"

lemma flood_step:
  assumes "jm_wf m" "jm_get key m = Some r" "flood_request L (ch_expiresAt r) req" "request_key req \<noteq> key"
    and "F \<subseteq> set m" "\<And>e. e \<in> F \<Longrightarrow> ch_expiresAt r < ch_expiresAt (snd e) \<and> \<not> ch_consumed (snd e) \<and> fst e \<noteq> request_key req"
    and "jm_get key (auth_step L net req m) = Some r'"
  shows "r' = r \<and> card F \<noteq> MAX_CHALLENGES \<and> (\<exists>e. fst e = request_key req \<and> insert e F \<subseteq> set (auth_step L net req m)
     \<and> ch_expiresAt r < ch_expiresAt (snd e) \<and> \<not> ch_consumed (snd e))"
proof -
  obtain t1 t2 random k where req: "req = Issue t1 t2 random k" "is_ok (al_key L k)" "t1 < ch_expiresAt r"
      "ch_expiresAt r < t2 + CHALLENGE_TTL_MS"
    using assms(3) by (auto simp: flood_request_def split: auth_request.splits)
  let ?new = "new_challenge net k (bytesToHex random) (t2 + CHALLENGE_TTL_MS)"
  have key: "request_key req = challenge_key k (bytesToHex random)" by (simp add: request_key_def req(1))
  have step: "auth_step L net req m = jm_set (request_key req) ?new (pruneChallenges t1 m)"
    using req(2) by (simp add: auth_step_def req(1) issue_table issued_by_def key [unfolded req(1)])
  have got: "jm_get key (pruneChallenges t1 m) = Some r'"
    using assms(7) assms(4) by (simp add: step jm_get_set)
  then have r': "r' = r" using challenges.prune_get [OF assms(1)] assms(2) by fastforce
  have live: "challenge_live t1 (snd e) \<and> ch_expiresAt r < ch_expiresAt (snd e)" if "e \<in> F" for e
    using assms(6) [OF that] req(3) by (auto simp: challenge_live_def)
  have "card F \<noteq> MAX_CHALLENGES"
    using prune_evicts [OF assms(1,2,5) _ live] got by fastforce
  have kept: "e \<in> set (pruneChallenges t1 m)" if "e \<in> F" for e
    using prune_keeps_later [OF assms(1) got [unfolded r']] live [OF that] that assms(5) by blast
  have wfp: "jm_wf (pruneChallenges t1 m)" by (rule challenges.prune_wf [OF assms(1)])
  have wfs: "jm_wf (auth_step L net req m)" by (simp add: step wfp jm_wf_set)
  have "e \<in> set (auth_step L net req m)" if "e \<in> F" for e
  proof -
    obtain j v where e: "e = (j, v)" by (cases e)
    have "jm_get j (pruneChallenges t1 m) = Some v" using kept [OF that] wfp by (simp add: e jm_get_iff_mem)
    then have "jm_get j (auth_step L net req m) = Some v" using assms(6) [OF that] by (simp add: e step jm_get_set)
    then show ?thesis using wfs by (simp add: e jm_get_iff_mem)
  qed
  moreover have "(request_key req, ?new) \<in> set (auth_step L net req m)"
    using wfs by (simp add: jm_get_iff_mem [symmetric] step jm_get_set)
  ultimately show ?thesis
    using r' \<open>card F \<noteq> MAX_CHALLENGES\<close> req(4) by (intro conjI exI [of _ "(request_key req, ?new)"]) (auto simp: new_challenge_def)
qed

lemma auth_step_wf: "jm_wf m \<Longrightarrow> jm_wf (auth_step L net req m)"
  using challenges.prune_wf [of m] verify_table [of L _ _ _ _ _ m]
  by (cases req) (auto simp: auth_step_def issue_table jm_wf_set jm_wf_delete split: option.split,
    metis jm_wf_delete)

lemma auth_run_wf: "jm_wf m \<Longrightarrow> jm_wf (auth_run L net reqs m)"
  unfolding auth_run_def by (induction reqs arbitrary: m) (simp_all add: auth_step_wf)

lemma flood_run:
  assumes "jm_wf m" "jm_get key m = Some r" "list_all (flood_request L (ch_expiresAt r)) reqs"
    "distinct (key # map request_key reqs)" "jm_get key (auth_run L net reqs m) = Some r'"
  shows "r' = r \<and> length reqs \<le> MAX_CHALLENGES
     \<and> (\<exists>F \<subseteq> set (auth_run L net reqs m). finite F \<and> card F = length reqs \<and> fst ` F = set (map request_key reqs)
          \<and> (\<forall>e\<in>F. ch_expiresAt r < ch_expiresAt (snd e) \<and> \<not> ch_consumed (snd e)))"
  using assms(3-5)
proof (induction reqs arbitrary: r' rule: rev_induct)
  case Nil
  then show ?case using assms(2) by (auto simp: auth_run_def intro: exI [of _ "{}"])
next
  case (snoc req reqs)
  let ?m = "auth_run L net reqs m"
  have step: "auth_run L net (reqs @ [req]) m = auth_step L net req ?m" by (simp add: auth_run_def)
  have wf: "jm_wf ?m" by (rule auth_run_wf [OF assms(1)])
  have "issued_by L net req \<noteq> Some (key, y)" for y
    using snoc.prems(2) by (auto simp: issued_by_def request_key_def split: auth_request.splits if_splits)
  then obtain r0 where r0: "jm_get key ?m = Some r0"
    using absent_step [OF wf, of key L net req] snoc.prems(3) step by (cases "jm_get key ?m") auto
  then obtain F where F: "r0 = r" "length reqs \<le> MAX_CHALLENGES" "F \<subseteq> set ?m" "finite F" "card F = length reqs"
      "fst ` F = set (map request_key reqs)" "\<forall>e\<in>F. ch_expiresAt r < ch_expiresAt (snd e) \<and> \<not> ch_consumed (snd e)"
    using snoc.IH snoc.prems(1,2) by auto
  have new: "ch_expiresAt r < ch_expiresAt (snd e) \<and> \<not> ch_consumed (snd e) \<and> fst e \<noteq> request_key req" if "e \<in> F" for e
    using F(6,7) that snoc.prems(2) by (metis distinct.simps(2) distinct1_rotate distinct_append image_eqI list.simps(9)
        map_append not_distinct_conv_prefix rotate1.simps(2))
  have "flood_request L (ch_expiresAt r) req" "request_key req \<noteq> key" using snoc.prems(1,2) by auto
  from flood_step [OF wf r0 [unfolded F(1)] this F(3) new snoc.prems(3) [unfolded step]]
  obtain e where e: "r' = r" "card F \<noteq> MAX_CHALLENGES" "fst e = request_key req"
      "insert e F \<subseteq> set (auth_step L net req ?m)" "ch_expiresAt r < ch_expiresAt (snd e) \<and> \<not> ch_consumed (snd e)"
    by blast
  have "e \<notin> F" using new e(3) by blast
  then have "card (insert e F) = length (reqs @ [req])" using F(4,5) by simp
  moreover have "fst ` insert e F = set (map request_key (reqs @ [req]))" using F(6) e(3) by simp
  ultimately show ?case
    using e F(2,4,5,7) by (intro conjI exI [of _ "insert e F"]) (auto simp: step)
qed

text \<open>C32: Anyone can invalidate a pending challenge: 2049 requests for challenges under other keys,
  made before it expires and stamped after it was issued, remove it from the table, and its
  owner's correct signature is then answered as for an unknown challenge.\<close>

theorem flood_evicts:
  assumes "jm_wf m" "jm_get (challenge_key k nonce) m = Some r" "list_all (flood_request L (ch_expiresAt r)) reqs"
    and "distinct (challenge_key k nonce # map request_key reqs)" "length reqs = Suc MAX_CHALLENGES"
  shows "fst (verifyStellarChallenge L t1 t2 k nonce sig (auth_run L net reqs m)) = Inl ''unknown or consumed challenge''"
proof -
  have "jm_get (challenge_key k nonce) (auth_run L net reqs m) = None"
    using flood_run [OF assms(1-4)] assms(5) by (cases "jm_get (challenge_key k nonce) (auth_run L net reqs m)") auto
  then show ?thesis by (rule verify_absent [OF auth_run_wf [OF assms(1)]])
qed

definition sample_flood :: "auth_request list" where
  "sample_flood = map (\<lambda>i. Issue 1 1 [word_of_nat (i div 256), word_of_nat (i mod 256)] ''GA'') [0..<Suc MAX_CHALLENGES]"

lemma word_byte_eq: "a < 256 \<Longrightarrow> b < 256 \<Longrightarrow> (word_of_nat a :: 8 word) = word_of_nat b \<longleftrightarrow> a = b"
  by (simp add: word_of_nat_eq_iff take_bit_nat_eq_self)

lemma sample_flood_distinct: "distinct (challenge_key ''GA'' (bytesToHex [7]) # map request_key sample_flood)"
proof -
  have key: "challenge_key ''GA'' (bytesToHex a) = challenge_key ''GA'' (bytesToHex b) \<longleftrightarrow> a = b" for a b
    by (metis append_Cons append_Nil append_same_eq buffer_from_bytesToHex challenge_key_def list.inject same_append_eq)
  have "i = j" if "i < 2049" "j < 2049" "(word_of_nat (i div 256) :: 8 word) = word_of_nat (j div 256)"
      "(word_of_nat (i mod 256) :: 8 word) = word_of_nat (j mod 256)" for i j :: nat
  proof -
    have "i div 256 = j div 256" "i mod 256 = j mod 256" using that by (simp_all add: word_byte_eq)
    then show ?thesis by (metis div_mult_mod_eq)
  qed
  then show ?thesis
    by (auto simp: sample_flood_def request_key_def key distinct_map inj_on_def MAX_CHALLENGES_def comp_def)
qed

theorem flood_evicts_witness:
  "fst (verifyStellarChallenge sample_auth 2 2 ''GA'' (bytesToHex [7]) sample_signature
     (auth_run sample_auth Testnet sample_flood [(challenge_key ''GA'' (bytesToHex [7]), new_challenge Testnet ''GA'' (bytesToHex [7]) 300000)]))
   = Inl ''unknown or consumed challenge''"
proof (rule flood_evicts [OF _ _ _ sample_flood_distinct])
  let ?r = "new_challenge Testnet ''GA'' (bytesToHex [7]) 300000"
  show "list_all (flood_request sample_auth (ch_expiresAt ?r)) sample_flood"
    by (simp add: list_all_iff sample_flood_def flood_request_def sample_auth_def new_challenge_def CHALLENGE_TTL_MS_def)
  show "length sample_flood = Suc MAX_CHALLENGES" by (simp add: sample_flood_def)
qed (simp_all add: jm_wf_def jm_get_def)

end
