(* ===== verification/GitHub.thy ===== *)
theory GitHub
  imports Client IndexerService Auth
begin

text \<open>
  apps/server/src/services/github.ts and apps/server/src/routes/webhooks.ts: the merged pull
  request of a webhook event, the escrow and milestone its labels, body and title name, the
  proof hash of its commit, and the handler that records the proof and builds the contract
  call. SHA-256 is a parameter. An event has the fields of \<open>GitHubPullRequestEvent\<close> with the
  types declared there.
\<close>

section \<open>Events\<close>

record pull_request =
  pl_merged :: bool
  pl_merge_commit_sha :: "string option"
  pl_number :: jsnum
  pl_title :: string
  pl_body :: "string option"
  pl_html_url :: string
  pl_user_login :: string
  pl_labels :: "string list option"
  pl_base_ref :: "string option"
  pl_head_sha :: "string option"

record pull_request_event =
  pe_action :: string
  pe_full_name :: string
  pe_pull_request :: "pull_request option"

record merged_pull_request =
  mp_repo :: string
  mp_prNumber :: jsnum
  mp_title :: string
  mp_body :: string
  mp_sha :: string
  mp_author :: string
  mp_url :: string
  mp_labels :: "string list"
  mp_baseRef :: "string option"

definition extractMergedPullRequest :: "pull_request_event \<Rightarrow> merged_pull_request option" where
  "extractMergedPullRequest event =
     (case pe_pull_request event of
        None \<Rightarrow> None
      | Some pr \<Rightarrow>
          if pe_action event \<noteq> ''closed'' \<or> \<not> pl_merged pr then None
          else
            let sha = (case pl_merge_commit_sha pr of Some s \<Rightarrow> s | None \<Rightarrow> or_default (pl_head_sha pr) []) in
            if sha = [] then None
            else Some
              \<lparr>mp_repo = pe_full_name event, mp_prNumber = pl_number pr, mp_title = pl_title pr,
               mp_body = or_default (pl_body pr) [], mp_sha = sha, mp_author = pl_user_login pr, mp_url = pl_html_url pr,
               mp_labels = or_default (pl_labels pr) [], mp_baseRef = pl_base_ref pr\<rparr>)"

section \<open>Milestone metadata\<close>

definition astra_prefix :: re where "astra_prefix = Opt (LitI ''astra-'')"

definition reOneOf :: "string \<Rightarrow> re" where "reOneOf s = Cls (\<lambda>c. c \<in> set s)"

text \<open>\<open>[A-Z0-9]\<close>, with and without the flag \<open>i\<close>.\<close>

definition upper_or_digit :: "char \<Rightarrow> bool" where
  "upper_or_digit c = (between (CHR ''A'') (CHR ''Z'') c \<or> is_dec c)"

definition letter_or_digit :: "char \<Rightarrow> bool" where
  "letter_or_digit c = (between (CHR ''a'') (CHR ''z'') (to_lower c) \<or> is_dec c)"

definition LABEL_MILESTONE_RE :: re where
  "LABEL_MILESTONE_RE = Seq Bol (seqs [astra_prefix, LitI ''milestone'', reOneOf '':/-'', Cap 1 (Plus reDigit), Eol])"

definition LABEL_ESCROW_RE :: re where
  "LABEL_ESCROW_RE = Seq Bol (seqs [astra_prefix, LitI ''escrow'', reOneOf '':/-'', Cap 1 (Plus reDot), Eol])"

definition line_start :: re where
  "line_start = seqs [Alt Bol (Cls (\<lambda>c. char_code c = 10)), Star reSpace, astra_prefix]"

definition assignment :: re where
  "assignment = seqs [Star reSpace, reOneOf '':='', Star reSpace]"

definition BODY_ESCROW_RE :: re where
  "BODY_ESCROW_RE = seqs [line_start, LitI ''escrow'', assignment, Cap 1 (Plus (Cls letter_or_digit))]"

definition BODY_MILESTONE_RE :: re where
  "BODY_MILESTONE_RE = seqs [line_start, LitI ''milestone'', assignment, Cap 1 (Plus reDigit)]"

definition BODY_RECIPIENT_RE :: re where
  "BODY_RECIPIENT_RE = seqs [line_start, LitI ''recipient'', assignment, Cap 1 (seqs [LitI ''G'', Rep 55 (Cls letter_or_digit)])]"

definition TITLE_BRACKET_RE :: re where
  "TITLE_BRACKET_RE = seqs [LitI ''[M'', Cap 1 (Plus reDigit), LitI '']'']"

definition TITLE_WORD_RE :: re where
  "TITLE_WORD_RE = seqs [LitI ''milestone'', reOneOf ''-_ '', Cap 1 (Plus reDigit)]"

definition CONTRACT_ID_RE :: re where
  "CONTRACT_ID_RE = Seq Bol (Seq (Cls (\<lambda>c. c = CHR ''C'')) (Seq (Rep 55 (Cls upper_or_digit)) Eol))"

definition ACCOUNT_ID_RE :: re where
  "ACCOUNT_ID_RE = Seq Bol (Seq (Cls (\<lambda>c. c = CHR ''G'')) (Seq (Rep 55 (Cls upper_or_digit)) Eol))"

text \<open>The first capture, if the expression matches.\<close>

definition capture :: "re \<Rightarrow> string \<Rightarrow> string option" where
  "capture r s = (case re_exec r s of None \<Rightarrow> None | Some g \<Rightarrow> g 1)"

definition parseNumber :: "string option \<Rightarrow> jsnum option" where
  "parseNumber value =
     (case value of
        None \<Rightarrow> None
      | Some s \<Rightarrow>
          if s = [] then None
          else case parseInt 10 s of
              Fin q \<Rightarrow> if is_integer q \<and> 0 < q then Some (Fin q) else None
            | _ \<Rightarrow> None)"

definition parseEscrowId :: "string option \<Rightarrow> string option" where
  "parseEscrowId value =
     (case value of
        None \<Rightarrow> None
      | Some s \<Rightarrow>
          if s = [] then None
          else
            let trimmed = trim s in
            if re_test CONTRACT_ID_RE trimmed then Some trimmed
            else if re_test ACCOUNT_ID_RE trimmed then Some trimmed
            else None)"

definition first_some :: "'a option \<Rightarrow> 'a option \<Rightarrow> 'a option" where
  "first_some a b = (case a of None \<Rightarrow> b | Some _ \<Rightarrow> a)"

text \<open>One label: the escrow and milestone known so far are kept when it names none.\<close>

definition read_label :: "string \<Rightarrow> string option \<times> jsnum option \<Rightarrow> string option \<times> jsnum option" where
  "read_label label known =
     (case known of (escrowId, milestone) \<Rightarrow>
        let milestone' = (if re_exec LABEL_MILESTONE_RE (trim label) \<noteq> None
              then first_some (parseNumber (capture LABEL_MILESTONE_RE (trim label))) milestone else milestone);
            escrowId' = (if re_exec LABEL_ESCROW_RE (trim label) \<noteq> None
              then first_some (parseEscrowId (capture LABEL_ESCROW_RE (trim label))) escrowId else escrowId)
        in (escrowId', milestone'))"

record escrow_milestone_meta =
  em_escrowId :: "string option"
  em_milestoneId :: jsnum
  em_recipientHint :: "string option"

definition title_milestone :: "string \<Rightarrow> string option" where
  "title_milestone title =
     (if re_exec TITLE_BRACKET_RE title \<noteq> None then capture TITLE_BRACKET_RE title else capture TITLE_WORD_RE title)"

definition parsePrMilestoneMetadata :: "merged_pull_request \<Rightarrow> escrow_milestone_meta" where
  "parsePrMilestoneMetadata merged =
     (case fold read_label (mp_labels merged) (None, None) of (labelEscrow, labelMilestone) \<Rightarrow>
        let body = mp_body merged;
            escrowId = first_some (parseEscrowId (capture BODY_ESCROW_RE body)) labelEscrow;
            bodyMilestone = first_some (parseNumber (capture BODY_MILESTONE_RE body)) labelMilestone;
            recipientHint = capture BODY_RECIPIENT_RE body;
            milestone = first_some (parseNumber (title_milestone (mp_title merged))) bodyMilestone
        in \<lparr>em_escrowId = escrowId, em_milestoneId = or_default milestone (Fin 1), em_recipientHint = recipientHint\<rparr>)"

definition commitShaToProofHash :: "(8 word list \<Rightarrow> 8 word list) \<Rightarrow> string \<Rightarrow> string" where
  "commitShaToProofHash digest sha = bytesToHex (digest (utf8 (map to_lower (strip0x sha))))"

record pending_escrow_task =
  pt_escrowId :: string
  pt_milestoneId :: jsnum
  pt_proofHash :: string
  pt_repo :: string
  pt_prNumber :: jsnum
  pt_mergeSha :: string
  pt_author :: string
  pt_title :: string

definition mapMergedCommitToEscrowTask :: "(8 word list \<Rightarrow> 8 word list) \<Rightarrow> merged_pull_request \<Rightarrow> string option
    \<Rightarrow> pending_escrow_task option" where
  "mapMergedCommitToEscrowTask digest merged fallbackEscrowId =
     (let meta = parsePrMilestoneMetadata merged;
          escrowId = or_default (first_some (em_escrowId meta) fallbackEscrowId) []
      in if escrowId = [] then None
         else Some
           \<lparr>pt_escrowId = escrowId, pt_milestoneId = em_milestoneId meta,
            pt_proofHash = commitShaToProofHash digest (mp_sha merged), pt_repo = mp_repo merged,
            pt_prNumber = mp_prNumber merged, pt_mergeSha = mp_sha merged, pt_author = mp_author merged,
            pt_title = mp_title merged\<rparr>)"

section \<open>The webhook\<close>

record contract_invocation =
  cv_method :: string
  cv_contractId :: string
  cv_milestoneId :: jsnum

datatype webhook_reply =
    Not_Handled string
  | Malformed
  | Ignored string string
  | No_Escrow merged_pull_request
  | Handled merged_pull_request pending_escrow_task string "contract_invocation option"

text \<open>
  The handler of \<open>POST /github\<close>. \<open>parsed\<close> is the outcome of \<open>parsePayload\<close>; the result is what it
  throws (Express answers 500) or its reply, and the state of the indexer.
\<close>

definition github_invocation :: "('sc, 'tx) soroban \<Rightarrow> server_env \<Rightarrow> pending_escrow_task \<Rightarrow> contract_invocation option js" where
  "github_invocation B env task =
     (if starts_with ''C'' (pt_escrowId task)
      then bindR (new_client B \<lparr>co_contractId = pt_escrowId task, co_network = Some (sv_STELLAR_NETWORK env),
               co_rpcUrl = sv_SOROBAN_RPC_URL env, co_networkPassphrase = None\<rparr>) (\<lambda>client.
           bindR (submitMilestoneProof (sb_stellar B) client (pt_milestoneId task) (HashText (pt_proofHash task))) (\<lambda>built.
             Inr (Some \<lparr>cv_method = bi_method built, cv_contractId = bi_contractId built, cv_milestoneId = pt_milestoneId task\<rparr>)))
      else Inr None)"

definition github_webhook :: "('sc, 'tx) soroban \<Rightarrow> (8 word list \<Rightarrow> 8 word list) \<Rightarrow> row_order \<Rightarrow> (nat \<Rightarrow> string) \<Rightarrow> int
    \<Rightarrow> server_env \<Rightarrow> string option \<Rightarrow> pull_request_event js \<Rightarrow> indexer_db \<Rightarrow> webhook_reply js \<times> indexer_db" where
  "github_webhook B digest order_by now millis env header parsed db =
     (let eventName = or_default header ''unknown'' in
      if eventName = ''ping'' then (Inr (Not_Handled eventName), db)
      else if eventName \<noteq> ''pull_request'' then (Inr (Not_Handled eventName), db)
      else case parsed of
          Inl _ \<Rightarrow> (Inr Malformed, db)
        | Inr payload \<Rightarrow>
            (case extractMergedPullRequest payload of
               None \<Rightarrow> (Inr (Ignored (if pe_action payload = ''closed'' then ''pull request was not merged'' else ''ignored action'')
                          (pe_action payload)), db)
             | Some merged \<Rightarrow>
                 (case mapMergedCommitToEscrowTask digest merged (sv_ESCROW_CONTRACT_ID env) of
                    None \<Rightarrow> (Inr (No_Escrow merged), db)
                  | Some task \<Rightarrow>
                      (case recordProof order_by now millis (pt_escrowId task) (pt_milestoneId task) (pt_proofHash task) db of
                         (Inl e, db') \<Rightarrow> (Inl e, db')
                       | (Inr escrow, db') \<Rightarrow>
                           (case github_invocation B env task of
                              Inl e \<Rightarrow> (Inl e, db')
                            | Inr inv1 \<Rightarrow> (Inr (Handled merged task (ie_address escrow) inv1), db'))))))"

section \<open>What a merge is mapped to\<close>

lemma contract_id_test:
  "re_test CONTRACT_ID_RE s \<longleftrightarrow> (\<exists>t. s = CHR ''C'' # t \<and> length t = 55 \<and> list_all upper_or_digit t)"
  "re_test ACCOUNT_ID_RE s \<longleftrightarrow> (\<exists>t. s = CHR ''G'' # t \<and> length t = 55 \<and> list_all upper_or_digit t)"
  unfolding CONTRACT_ID_RE_def ACCOUNT_ID_RE_def test_head_fixed_run by auto

definition escrow_id_shape :: "string \<Rightarrow> bool" where
  "escrow_id_shape s = (length s = 56 \<and> hd s \<in> {CHR ''C'', CHR ''G''} \<and> list_all upper_or_digit s)"

lemma id_test_shape: "re_test CONTRACT_ID_RE s \<or> re_test ACCOUNT_ID_RE s \<longleftrightarrow> escrow_id_shape s"
  unfolding contract_id_test escrow_id_shape_def
  by (cases s) (auto simp: upper_or_digit_def between_def)

lemma parseEscrowId_shape: "parseEscrowId v = Some s \<Longrightarrow> escrow_id_shape s"
  by (auto simp: parseEscrowId_def Let_def id_test_shape [symmetric] split: option.splits if_splits)

definition positive_id :: "jsnum \<Rightarrow> bool" where
  "positive_id n = (case n of Fin q \<Rightarrow> is_integer q \<and> 0 < q | _ \<Rightarrow> False)"

lemma parseNumber_positive: "parseNumber v = Some n \<Longrightarrow> positive_id n"
  by (auto simp: parseNumber_def positive_id_def split: option.splits if_splits jsnum.splits)

lemma positive_default: "pred_option positive_id n \<Longrightarrow> positive_id (or_default n (Fin 1))"
  by (cases n) (simp_all add: or_default_def positive_id_def is_integer_iff)

definition known_ok :: "string option \<times> jsnum option \<Rightarrow> bool" where
  "known_ok k = (pred_option escrow_id_shape (fst k) \<and> pred_option positive_id (snd k))"

lemma pred_option_first_some: "pred_option P a \<Longrightarrow> pred_option P b \<Longrightarrow> pred_option P (first_some a b)"
  by (cases a) (simp_all add: first_some_def)

lemma pred_option_parse: "pred_option escrow_id_shape (parseEscrowId v)" "pred_option positive_id (parseNumber v)"
  using parseEscrowId_shape parseNumber_positive by (auto simp: option.pred_set)

lemma read_label_ok: "known_ok k \<Longrightarrow> known_ok (read_label label k)"
  by (auto simp: known_ok_def read_label_def Let_def pred_option_first_some pred_option_parse split: prod.split)

lemma labels_ok: "known_ok k \<Longrightarrow> known_ok (fold read_label labels k)"
  by (induction labels arbitrary: k) (simp_all add: read_label_ok)

text \<open>C28: Whatever the pull request's texts are, a task names a milestone with a positive integer number and
  an escrow written as C or G and 55 capitals or digits, or the configured escrow; its proof hash
  is the 64 lower-case hex digits of the digest, of 32 bytes, of the commit's name read without
  \<open>0x\<close> and in lower case.\<close>

theorem task_well_formed:
  assumes "mapMergedCommitToEscrowTask digest merged fallback = Some task" "\<And>bs. length (digest bs) = 32"
  shows "positive_id (pt_milestoneId task)
     \<and> (escrow_id_shape (pt_escrowId task) \<or> fallback = Some (pt_escrowId task))
     \<and> hexToBytes (pt_proofHash task) = Inr (digest (utf8 (map to_lower (strip0x (mp_sha merged)))))
     \<and> length (pt_proofHash task) = 64 \<and> list_all lower_hex (pt_proofHash task)"
proof -

  have "known_ok (fold read_label (mp_labels merged) (None, None))" by (rule labels_ok) (simp add: known_ok_def)
  then have "pred_option escrow_id_shape (em_escrowId (parsePrMilestoneMetadata merged))
      \<and> positive_id (em_milestoneId (parsePrMilestoneMetadata merged))"
    unfolding parsePrMilestoneMetadata_def Let_def known_ok_def
    by (auto split: prod.split intro!: positive_default pred_option_first_some pred_option_parse)
  then show ?thesis
    using assms by (auto simp: mapMergedCommitToEscrowTask_def Let_def first_some_def commitShaToProofHash_def hexToBytes_bytesToHex
        bytesToHex_lower or_default_def split: option.splits if_splits)
qed

section \<open>Texts that name nothing\<close>

lemma exec_LitI_none:
  "(\<And>k. k \<le> length s \<Longrightarrow> \<not> lit_at lit (drop k s)) \<Longrightarrow> exec_from (seqs (LitI lit # rs)) pre s = None"
proof (induction s arbitrary: pre)
  case Nil
  then have "\<not> lit_at lit []" by simp
  then show ?case by (simp add: mt_seqs_Cons mt_LitI del: seqs.simps)
next
  case (Cons c s)
  have "\<not> lit_at lit (c # s)" using Cons.prems [of 0] by simp
  moreover have "exec_from (seqs (LitI lit # rs)) (c # pre) s = None"
  proof (rule Cons.IH)
    fix k
    assume "k \<le> length s"
    then show "\<not> lit_at lit (drop k s)" using Cons.prems [of "Suc k"] by simp
  qed
  ultimately show ?case by (simp add: mt_seqs_Cons mt_LitI del: seqs.simps)
qed

definition no_m :: "string \<Rightarrow> bool" where
  "no_m s = list_all (\<lambda>c. to_lower c \<noteq> CHR ''m'') s"

lemma no_m_lit: "no_m s \<Longrightarrow> to_lower c = CHR ''m'' \<Longrightarrow> c \<in> set lit \<Longrightarrow> \<not> lit_at lit (drop k s)"
proof
  assume a: "no_m s" "to_lower c = CHR ''m''" "c \<in> set lit" "lit_at lit (drop k s)"
  have "set (map to_lower lit) = set (map to_lower (take (length lit) (drop k s)))"
    using a(4) by (simp only: lit_at_def)
  moreover have "to_lower c \<in> set (map to_lower lit)" using a(3) by simp
  ultimately have "CHR ''m'' \<in> to_lower ` set (take (length lit) (drop k s))" using a(2) by simp
  then obtain d where d: "CHR ''m'' = to_lower d" "d \<in> set (take (length lit) (drop k s))" by (rule imageE)
  have "d \<in> set s" by (rule in_set_dropD [OF in_set_takeD [OF d(2)]])
  with d(1) show False using a(1) unfolding no_m_def list_all_iff by metis
qed

lemma title_without_m: "no_m s \<Longrightarrow> title_milestone s = None"
proof -
  assume s: "no_m s"
  have low: "to_lower (CHR ''M'') = CHR ''m''" "to_lower (CHR ''m'') = CHR ''m''" by code_simp+
  have "exec_from (seqs (LitI ''[M'' # rs)) pre s = None" for rs pre
    by (rule exec_LitI_none) (rule no_m_lit [OF s low(1)], simp)
  then have "re_exec TITLE_BRACKET_RE s = None" by (simp add: re_exec_def TITLE_BRACKET_RE_def del: seqs.simps)
  moreover have "exec_from (seqs (LitI ''milestone'' # rs)) pre s = None" for rs pre
    by (rule exec_LitI_none) (rule no_m_lit [OF s low(2)], simp)
  then have "re_exec TITLE_WORD_RE s = None" by (simp add: re_exec_def TITLE_WORD_RE_def del: seqs.simps)
  ultimately show ?thesis by (simp add: title_milestone_def capture_def)
qed

lemma empty_body: "capture BODY_ESCROW_RE [] = None" "capture BODY_MILESTONE_RE [] = None" "capture BODY_RECIPIENT_RE [] = None"
  by (simp_all add: capture_def re_exec_def BODY_ESCROW_RE_def BODY_MILESTONE_RE_def BODY_RECIPIENT_RE_def line_start_def
      astra_prefix_def mt_Opt mt_LitI mt_Star_Cls reSpace_def lit_at_def)

text \<open>A merged pull request that names no milestone (no labels, no description, no \<open>m\<close> in its title)
  is taken as the proof of milestone 1 of the configured escrow: the indexer sets it Under Review
  with the digest of the commit, whatever it was before, also when the contract call cannot be
  built afterwards and the request fails.\<close>

theorem unnamed_merge_proves_first_milestone:
  assumes "store_inv db"
    and "extractMergedPullRequest event = Some p" "mp_labels p = []" "mp_body p = []" "no_m (mp_title p)"
    and "sv_ESCROW_CONTRACT_ID env = Some a" "a \<noteq> []" "a \<noteq> ''demo-escrow''" "cache_get a db = Inr (Some e0)"
  shows "\<exists>r db' e. github_webhook B digest order_by now millis env (Some ''pull_request'') (Inr event) db = (r, db')
     \<and> cache_get a db' = Inr (Some e)
     \<and> milestone_at (Fin 1) (ie_milestones e) =
         Some (proof_patch (commitShaToProofHash digest (mp_sha p)) (millis div 1000)
           (or_default (milestone_at (Fin 1) (ie_milestones e0)) (default_milestone (Fin 1))))"
proof -
  let ?h = "commitShaToProofHash digest (mp_sha p)"
  have meta: "em_escrowId (parsePrMilestoneMetadata p) = None" "em_milestoneId (parsePrMilestoneMetadata p) = Fin 1"
    using title_without_m [OF assms(5)] assms(3,4)
    by (simp_all add: parsePrMilestoneMetadata_def empty_body parseEscrowId_def parseNumber_def first_some_def or_default_def Let_def)
  define task where "task = \<lparr>pt_escrowId = a, pt_milestoneId = Fin 1, pt_proofHash = ?h, pt_repo = mp_repo p,
      pt_prNumber = mp_prNumber p, pt_mergeSha = mp_sha p, pt_author = mp_author p, pt_title = mp_title p\<rparr>"
  have task: "mapMergedCommitToEscrowTask digest p (sv_ESCROW_CONTRACT_ID env) = Some task"
    using assms(6,7) by (simp add: mapMergedCommitToEscrowTask_def meta first_some_def or_default_def task_def)
  have "safe_num (Fin 1)" unfolding safe_num_def by (intro exI [of _ 1]) simp
  from recordProof_known [OF assms(1) this assms(9,8)]
  obtain e db' where e: "recordProof order_by now millis a (Fin 1) ?h db = (Inr e, db')" "cache_get a db' = Inr (Some e)"
      "milestone_at (Fin 1) (ie_milestones e) =
         Some (proof_patch ?h (millis div 1000) (or_default (milestone_at (Fin 1) (ie_milestones e0)) (default_milestone (Fin 1))))"
    by blast
  have "\<exists>r. github_webhook B digest order_by now millis env (Some ''pull_request'') (Inr event) db = (r, db')"
    using e(1) by (simp add: github_webhook_def assms(2) task task_def or_default_def split: sum.split)
  then show ?thesis using e(2,3) by blast
qed

definition sample_merge :: pull_request_event where
  "sample_merge = \<lparr>pe_action = ''closed'', pe_full_name = ''astra/repo'', pe_pull_request = Some
     \<lparr>pl_merged = True, pl_merge_commit_sha = Some ''0xAb'', pl_number = Fin 4, pl_title = ''typo'', pl_body = None,
      pl_html_url = ''https://x'', pl_user_login = ''u'', pl_labels = None, pl_base_ref = Some ''dev'', pl_head_sha = None\<rparr>\<rparr>"

definition sample_env :: server_env where
  "sample_env = \<lparr>sv_STELLAR_NETWORK = Testnet, sv_ESCROW_CONTRACT_ID = Some ''C'', sv_SOROBAN_RPC_URL = None,
     sv_INDEXER_POLL_MS = Fin 5000\<rparr>"

text \<open>A store that holds an escrow under the address C, with an active demo's milestones.\<close>

definition sample_store :: indexer_db where
  "sample_store = cache_upsert ((seedEscrow ''now'')\<lparr>ie_id := ''C'', ie_address := ''C''\<rparr>) sample_db"

theorem unnamed_merge_proves_first_milestone_witness:
  "\<exists>r db' e. github_webhook (sample_soroban Null) (\<lambda>bs. bs) stable_order sample_clock 60000 sample_env
       (Some ''pull_request'') (Inr sample_merge) sample_store = (r, db')
     \<and> cache_get ''C'' db' = Inr (Some e)
     \<and> map_option status (milestone_at (Fin 1) (ie_milestones e)) = Some MS_Under_Review"
proof -
  let ?e = "(seedEscrow ''now'')\<lparr>ie_id := ''C'', ie_address := ''C''\<rparr>"
  have ok: "escrow_ok ?e" using seed_escrow_ok by (simp add: escrow_ok_def)
  have sound: "db_sound sample_db" using sample_store_inv by (simp add: store_inv_def)
  have inv: "store_inv sample_store" unfolding sample_store_def by (rule store_inv_upsert [OF sample_store_inv ok])
  have get: "cache_get ''C'' sample_store = Inr (Some ?e)"
    using escrows.read_store [OF sound [unfolded db_sound_def] escrow_ok_storable [OF ok]]
    by (simp add: sample_store_def cache_get_read cache_upsert_store)
  obtain p where p: "extractMergedPullRequest sample_merge = Some p" "mp_labels p = []" "mp_body p = []" "mp_title p = ''typo''"
    by (simp add: extractMergedPullRequest_def sample_merge_def or_default_def)
  have title: "no_m ''typo''" unfolding no_m_def by code_simp
  show ?thesis
    using unnamed_merge_proves_first_milestone [OF inv p(1-3) _ _ _ _ get, of sample_env "sample_soroban Null" "\<lambda>bs. bs"
        stable_order sample_clock 60000] title p(4)
    by (auto simp: sample_env_def proof_patch_def)
qed

section \<open>Texts that name a milestone\<close>

lemma mt_digits_all:
  assumes "is_dec d" "list_all is_dec ds"
  shows "\<exists>ms. mt (Cap n (Plus reDigit)) (pre, d # ds, cs) = (rev ds @ d # pre, [], (n, d # ds) # cs) # ms"
proof -
  have run: "takeWhile is_dec ds = ds" "dropWhile is_dec ds = []"
    using assms(2) by (simp_all add: list_all_iff)
  from assms(1) show ?thesis by (simp add: Plus_def reDigit_def mt_Star_Cls_hd run)
qed

lemma capture_label:
  assumes "is_dec d" "list_all is_dec ds"
  shows "capture LABEL_MILESTONE_RE (''milestone:'' @ d # ds) = Some (d # ds)"
proof -
  let ?pre = "rev ''milestone:''"
  obtain ms where ms: "mt (Cap 1 (Plus reDigit)) (?pre, d # ds, []) = (rev ds @ d # ?pre, [], (1, d # ds) # []) # ms"
    using mt_digits_all [OF assms] by blast
  have low: "to_lower (CHR ''m'') \<noteq> to_lower (CHR ''a'')" by code_simp
  have "mt (seqs [astra_prefix, LitI ''milestone'', reOneOf '':/-'', Cap 1 (Plus reDigit), Eol]) ([], ''milestone:'' @ d # ds, []) =
      concat (map (mt (seqs [Eol])) (mt (Cap 1 (Plus reDigit)) (?pre, d # ds, [])))"
    using low by (simp add: mt_seqs_Cons astra_prefix_def mt_Opt mt_LitI reOneOf_def lit_at_def del: mt.simps(8) seqs.simps)
  then have hit: "mt (seqs [astra_prefix, LitI ''milestone'', reOneOf '':/-'', Cap 1 (Plus reDigit), Eol]) ([], ''milestone:'' @ d # ds, []) =
      (rev ds @ d # ?pre, [], [(1, d # ds)]) # concat (map (mt (seqs [Eol])) ms)"
    unfolding ms by (simp add: mt_seqs_Cons)
  show ?thesis unfolding capture_def LABEL_MILESTONE_RE_def re_exec_Bol hit by simp
qed

text \<open>The label \<open>milestone:n\<close> names the milestone n.\<close>

lemma label_milestone:
  assumes "0 < n" "n < 2 ^ 53"
  shows "parseNumber (capture LABEL_MILESTONE_RE (''milestone:'' @ nat_radix 10 n)) = Some (Fin (of_nat n))"
proof -
  obtain d ds where ds: "nat_radix 10 n = d # ds" by (cases "nat_radix 10 n") auto
  then have "is_dec d" "list_all is_dec ds" using nat_dec_is_dec [of n] by simp_all
  then show ?thesis
    using capture_label [of d ds] parseInt_dec [OF assms(2)] is_integer_of_int [of "int n"] assms(1)
    by (simp add: ds parseNumber_def)
qed

text \<open>A pull request whose only metadata is the label \<open>milestone:n\<close> is taken as the proof of milestone
  n.\<close>

theorem labelled_merge:
  assumes "0 < n" "n < 2 ^ 53" "mp_labels p = [''milestone:'' @ nat_radix 10 n]" "mp_body p = []" "no_m (mp_title p)"
  shows "em_milestoneId (parsePrMilestoneMetadata p) = Fin (of_nat n)"
proof -
  let ?l = "''milestone:'' @ nat_radix 10 n"
  have "list_all (\<lambda>c. \<not> is_ws c) ?l" using nat_dec_no_ws [of n] by (simp add: is_ws_def)
  then have "trim ?l = ?l" by (rule trim_id)
  then have "snd (read_label ?l (None, None)) = Some (Fin (of_nat n))"
    using label_milestone [OF assms(1,2)] by (auto simp: read_label_def first_some_def capture_def parseNumber_def Let_def split: option.splits)
  then show ?thesis
    using title_without_m [OF assms(5)]
    by (auto simp: parsePrMilestoneMetadata_def assms(3,4) empty_body parseEscrowId_def parseNumber_def first_some_def or_default_def
        Let_def split: prod.split)
qed

theorem labelled_merge_witness:
  "em_milestoneId (parsePrMilestoneMetadata \<lparr>mp_repo = ''r'', mp_prNumber = Fin 1, mp_title = ''typo'', mp_body = [],
     mp_sha = ''ab'', mp_author = ''u'', mp_url = [], mp_labels = [''milestone:'' @ nat_radix 10 2], mp_baseRef = None\<rparr>) = Fin 2"
proof -
  have "no_m ''typo''" unfolding no_m_def by code_simp
  then show ?thesis using labelled_merge [of 2] by simp
qed

definition sample_merged :: merged_pull_request where
  "sample_merged = \<lparr>mp_repo = ''r'', mp_prNumber = Fin 1, mp_title = ''typo'', mp_body = [], mp_sha = ''0xAb'', mp_author = ''u'',
     mp_url = [], mp_labels = [], mp_baseRef = None\<rparr>"

theorem task_well_formed_witness:
  "\<exists>task. mapMergedCommitToEscrowTask (\<lambda>_. replicate 32 7) sample_merged (Some ''C'') = Some task
     \<and> positive_id (pt_milestoneId task) \<and> hexToBytes (pt_proofHash task) = Inr (replicate 32 7)
     \<and> list_all lower_hex (pt_proofHash task)"
proof -
  have "no_m ''typo''" unfolding no_m_def by code_simp
  then have "em_escrowId (parsePrMilestoneMetadata sample_merged) = None"
    using title_without_m by (simp add: parsePrMilestoneMetadata_def sample_merged_def empty_body parseEscrowId_def first_some_def Let_def)
  then obtain task where t: "mapMergedCommitToEscrowTask (\<lambda>_. replicate 32 7) sample_merged (Some ''C'') = Some task"
    by (simp add: mapMergedCommitToEscrowTask_def first_some_def or_default_def Let_def)
  have "\<And>bs :: 8 word list. length (replicate 32 (7 :: 8 word)) = 32" by simp
  from task_well_formed [OF t this] t show ?thesis by blast
qed

end
