(* ===== verification/Amounts.thy ===== *)
theory Amounts
  imports JsArith GitHub
begin

text \<open>
  Amounts in the client: apps/client/lib/utils.ts (\<open>formatStroops\<close>, \<open>shortenAddress\<close>) and, of
  apps/client/components/escrow/CreateEscrowForm.tsx, \<open>toStroops\<close>, the check of the schema's
  \<open>superRefine\<close>, the digest of a description and \<open>onSubmit\<close>. A submitted form is an
  argument here; the schema it passed and the wizard that filled it in are in EscrowForm.
\<close>

section \<open>Showing amounts and addresses\<close>

text \<open>\<open>a % b\<close> on BigInts: the sign of the dividend.\<close>

definition bigint_rem :: "int \<Rightarrow> int \<Rightarrow> int" where
  "bigint_rem a b = a - b * bigint_quot a b"

definition strip_zeros :: "string \<Rightarrow> string" where
  "strip_zeros s = rev (dropWhile (\<lambda>c. c = CHR ''0'') (rev s))"

definition formatStroops :: "jsval \<Rightarrow> nat \<Rightarrow> string js" where
  "formatStroops v decimals =
     bindR (js_bigint v) (\<lambda>asBig.
       let base = 10 ^ decimals;
           whole = bigint_quot asBig base;
           fraction = strip_zeros (padStart decimals (CHR ''0'') (int_dec (bigint_rem asBig base)))
       in Inr (if fraction \<noteq> [] then int_dec whole @ CHR ''.'' # fraction else int_dec whole))"

text \<open>The ellipsis between the two ends is not a character of the model.\<close>

datatype shown_address = Whole string | Ends string string

definition slice_end :: "nat \<Rightarrow> string \<Rightarrow> string" where
  "slice_end n s = (if n = 0 then s else drop (length s - n) s)"

definition shortenAddress :: "string \<Rightarrow> nat \<Rightarrow> shown_address" where
  "shortenAddress address sz =
     (if length address \<le> sz * 2 + 3 then Whole address else Ends (take sz address) (slice_end sz address))"

section \<open>The form\<close>

text \<open>\<open>/^\d+(\.\d{1,7})?$/\<close>\<close>

fun UpTo :: "nat \<Rightarrow> re \<Rightarrow> re" where
  "UpTo 0 r = Eps"
| "UpTo (Suc n) r = Opt (Seq r (UpTo n r))"

definition AMOUNT_RE :: re where
  "AMOUNT_RE = Seq Bol (Seq (Plus reDigit) (Seq (Opt (Cap 1 (Seq (Cls (\<lambda>c. c = CHR ''.'')) (Seq reDigit (UpTo 6 reDigit))))) Eol))"

text \<open>The first two parts of \<open>amount.split(".")\<close>.\<close>

definition split_dot :: "string \<Rightarrow> string \<times> string option" where
  "split_dot s =
     (case dropWhile (\<lambda>c. c \<noteq> CHR ''.'') s of
        [] \<Rightarrow> (s, None)
      | _ # t \<Rightarrow> (takeWhile (\<lambda>c. c \<noteq> CHR ''.'') s, Some (takeWhile (\<lambda>c. c \<noteq> CHR ''.'') t)))"

definition toStroops :: "string \<Rightarrow> int js" where
  "toStroops amount =
     (case split_dot amount of (whole, fraction) \<Rightarrow>
        let padded = take 7 (or_default fraction [] @ ''0000000'') in
        bindR (js_bigint (Str (if whole \<noteq> [] then whole else ''0''))) (\<lambda>w.
        bindR (js_bigint (Str padded)) (\<lambda>f. Inr (w * 100000000 + f))))"

definition description_digest :: "(8 word list \<Rightarrow> 8 word list) \<Rightarrow> string \<Rightarrow> string" where
  "description_digest digest text = bytesToHex (digest (utf8 text))"

datatype token_choice = USDC | XLM

record form_milestone =
  fm_description :: string
  fm_amount :: string

record form_values =
  fv_recipient :: string
  fv_arbitrator :: string
  fv_token :: token_choice
  fv_tokenContract :: string
  fv_lockDays :: jsnum
  fv_threshold :: jsnum
  fv_milestones :: "form_milestone list"

datatype form_issue = Same_Arbitrator | Zero_Total

definition superRefine :: "form_values \<Rightarrow> form_issue list" where
  "superRefine v =
     (let t = fold (\<lambda>m sum. num_add sum (js_number (if fm_amount m \<noteq> [] then Str (fm_amount m) else Num (Fin 0)))) (fv_milestones v) (Fin 0)
      in (if fv_recipient v = fv_arbitrator v then [Same_Arbitrator] else [])
         @ (if \<not> num_lt (Fin 0) t then [Zero_Total] else []))"

record wallet_view =
  wv_publicKey :: "string option"
  wv_network :: network_name

datatype form_outcome =
    Connect_Wallet
  | Not_Distinct
  | No_Asset
  | Initialize_Assembled string
  | Draft_Ready nat

definition form_milestone_input :: "(8 word list \<Rightarrow> 8 word list) \<Rightarrow> nat \<times> form_milestone \<Rightarrow> milestone_input js" where
  "form_milestone_input digest im =
     (case im of (index, item) \<Rightarrow>
        bindR (toStroops (fm_amount item)) (\<lambda>amount.
          Inr \<lparr>in_milestoneId = Fin (of_nat (index + 1)), in_payoutAmount = amount,
               in_descriptionHash = HashText (description_digest digest (int_dec (int (index + 1)) @ CHR '':'' # fm_description item))\<rparr>))"

definition form_params :: "(8 word list \<Rightarrow> 8 word list) \<Rightarrow> string \<Rightarrow> string \<Rightarrow> form_values \<Rightarrow> initialize_params js" where
  "form_params digest funder token v =
     bindR (mapR (form_milestone_input digest) (List.enumerate 0 (fv_milestones v))) (\<lambda>milestones.
       Inr \<lparr>ip_funder = funder, ip_recipient = fv_recipient v, ip_arbitrator = fv_arbitrator v, ip_token = token,
            ip_milestones = milestones\<rparr>)"

definition token_address :: "network_name \<Rightarrow> form_values \<Rightarrow> string" where
  "token_address network v =
     (if fv_tokenContract v \<noteq> [] then fv_tokenContract v
      else if network = Testnet then ''CDLZFC3SYJYDZT7K67VZ75HPJVIEUVNIXF47ZG2FB2RMQQVU2HHGCYSC''
      else fv_tokenContract v)"

text \<open>\<open>contract\<close> is \<open>NEXT_PUBLIC_ESCROW_CONTRACT_ID\<close>.\<close>

definition onSubmit :: "('sc, 'tx) soroban \<Rightarrow> (8 word list \<Rightarrow> 8 word list) \<Rightarrow> string option \<Rightarrow> wallet_view \<Rightarrow> form_values
    \<Rightarrow> form_outcome js" where
  "onSubmit B digest contract w v =
     (let publicKey = or_default (wv_publicKey w) [] in
      if publicKey = [] then Inr Connect_Wallet
      else if fv_recipient v = publicKey \<or> fv_arbitrator v = publicKey then Inr Not_Distinct
      else if token_address (wv_network w) v = [] then Inr No_Asset
      else
        bindR (form_params digest publicKey (token_address (wv_network w) v) v) (\<lambda>params.
          if or_default contract [] \<noteq> []
          then bindR (new_client B \<lparr>co_contractId = or_default contract [], co_network = Some (wv_network w), co_rpcUrl = None,
                   co_networkPassphrase = None\<rparr>) (\<lambda>client.
               bindR (initializeEscrow B client publicKey params) (\<lambda>xdr. Inr (Initialize_Assembled xdr)))
          else Inr (Draft_Ready (length (ip_milestones params)))))"

section \<open>Decimal texts\<close>

lemma radix_val_app: "radix_val b (s @ t) = radix_val b s * b ^ length t + radix_val b t"
proof (induction t rule: rev_induct)
  case (snoc c t)
  then show ?case by (simp add: radix_val_def algebra_simps)
qed (simp add: radix_val_def)

lemma radix_val_zeros: "radix_val b (replicate k (CHR ''0'')) = 0"
proof -
  have zero: "digit_val (CHR ''0'') = 0" by code_simp
  show ?thesis by (induction k) (simp_all add: radix_val_def zero)
qed

lemma dec_digit: "is_dec c \<Longrightarrow> digit_val c < 10 \<and> \<not> is_ws c \<and> c \<notin> set ''xXoObB+-.eE''"
  by (auto simp: is_dec_def digit_val_def is_ws_def Let_def)

lemma radix_val_less: "list_all is_dec f \<Longrightarrow> radix_val 10 f < 10 ^ length f"
proof (induction f rule: rev_induct)
  case (snoc c f)
  then have "radix_val 10 f < 10 ^ length f" "digit_val c < 10" using dec_digit by auto
  then show ?case by (simp add: radix_val_def)
qed (simp add: radix_val_def)

lemma bigint_digits:
  assumes "w \<noteq> []" "list_all is_dec w"
  shows "js_bigint (Str w) = Inr (int (radix_val 10 w))"
proof -
  have "trim w = w" using assms(2) dec_digit by (intro trim_id) (auto simp: list_all_iff)
  moreover have "radix_prefix w = None" using assms(2) dec_digit by (intro radix_prefix_None) (auto simp: list_all_iff)
  moreover have "split_sign w = (False, w)"
    using assms dec_digit by (cases w) (auto simp: split_sign_def)
  moreover have "all_digits 10 w" using assms dec_digit by (auto simp: all_digits_def list_all_iff)
  ultimately show ?thesis using assms(1) by (simp add: string_to_bigint_def)
qed

lemma decimal_literal_whole: "w \<noteq> [] \<Longrightarrow> list_all is_dec w \<Longrightarrow> decimal_literal w = Some (of_nat (radix_val 10 w))"
  by (simp add: decimal_literal_def list_all_iff takeWhile_eq_all_conv [THEN iffD2] dropWhile_eq_Nil_conv [THEN iffD2] Let_def)

lemma decimal_literal_point:
  assumes "w \<noteq> []" "list_all is_dec w" "list_all is_dec f"
  shows "decimal_literal (w @ CHR ''.'' # f) = Some (of_nat (radix_val 10 w) + of_nat (radix_val 10 f) / 10 ^ length f)"
proof -
  have dot: "\<not> is_dec (CHR ''.'')" by (simp add: is_dec_def)
  have run: "takeWhile is_dec (w @ CHR ''.'' # f) = w" "dropWhile is_dec (w @ CHR ''.'' # f) = CHR ''.'' # f"
    using run_append [OF assms(2) dot, of f] by simp_all
  have fr: "takeWhile is_dec f = f" "dropWhile is_dec f = []"
    using assms(3) by (simp_all add: list_all_iff)
  show ?thesis
    using assms(1) by (simp add: decimal_literal_def run fr radix_val_app Let_def field_simps)
qed

section \<open>What the form accepts\<close>

lemma UpTo_mem:
  "x \<in> set (mt (UpTo n (Cls p)) (pre, rest, cs)) \<Longrightarrow>
     \<exists>k\<le>n. k \<le> length rest \<and> list_all p (take k rest) \<and> fst (snd x) = drop k rest"
proof (induction n arbitrary: pre rest)
  case (Suc n)
  then consider "x \<in> set (mt (Seq (Cls p) (UpTo n (Cls p))) (pre, rest, cs))" | "x = (pre, rest, cs)"
    by (auto simp: mt_Opt)
  then show ?case
  proof cases
    case 1
    then obtain c r where r: "rest = c # r" "p c" "x \<in> set (mt (UpTo n (Cls p)) (c # pre, r, cs))"
      by (cases rest) (auto split: if_splits)
    from Suc.IH [OF r(3)] obtain k where "k \<le> n" "k \<le> length r" "list_all p (take k r)" "fst (snd x) = drop k r" by blast
    then show ?thesis using r by (intro exI [of _ "Suc k"]) simp
  next
    case 2
    then show ?thesis by (intro exI [of _ 0]) simp
  qed
qed auto

definition amount_parts :: "string \<Rightarrow> string \<Rightarrow> string \<Rightarrow> bool" where
  "amount_parts s w f \<longleftrightarrow> w \<noteq> [] \<and> list_all is_dec w \<and> list_all is_dec f \<and> length f \<le> 7
     \<and> s = (if f = [] then w else w @ CHR ''.'' # f)"

lemma amount_shape:
  assumes "re_test AMOUNT_RE s"
  obtains w f where "amount_parts s w f"
proof -
  let ?frac = "Seq (Cls (\<lambda>c. c = CHR ''.'')) (Seq reDigit (UpTo 6 reDigit))"
  obtain x where x: "x \<in> set (mt (Seq (Plus reDigit) (Seq (Opt (Cap 1 ?frac)) Eol)) ([], s, []))"
    using assms unfolding AMOUNT_RE_def re_test_Bol by (metis last_in_set)
  then obtain p r cs where y: "(p, r, cs) \<in> set (mt (Plus reDigit) ([], s, []))"
      "x \<in> set (mt (Seq (Opt (Cap 1 ?frac)) Eol) (p, r, cs))" by (auto simp del: mt.simps(8))
  then obtain c t k where s: "s = c # t" "is_dec c" "r = drop k t" "k \<le> length (takeWhile is_dec t)"
    by (cases s) (auto simp: Plus_def reDigit_def mt_Star_Cls split: if_splits)
  let ?w = "c # take k t"
  have "take k t = take k (takeWhile is_dec t)" by (metis min.absorb1 s(4) take_take takeWhile_eq_take)
  then have "list_all is_dec (take k t)" by (metis in_set_takeD list_all_iff set_takeWhileD)
  then have w: "?w \<noteq> []" "list_all is_dec ?w" "s = ?w @ r" using s by simp_all
  from y(2) obtain z where z: "z \<in> set (mt (Opt (Cap 1 ?frac)) (p, r, cs))" "fst (snd z) = []"
    by (auto simp del: mt.simps(8) split: if_splits)
  then consider "r = []" | v where "v \<in> set (mt ?frac (p, r, cs))" "fst (snd v) = []"
    by (fastforce simp: mt_Opt)
  then show thesis
  proof cases
    case 1
    then show ?thesis using that [of ?w "[]"] w by (simp add: amount_parts_def)
  next
    case 2
    then obtain d q where d: "r = CHR ''.'' # d # q" "is_dec d" "v \<in> set (mt (UpTo 6 (Cls is_dec)) (d # CHR ''.'' # p, q, cs))"
      by (cases r; cases "tl r") (auto simp: reDigit_def split: if_splits)
    from UpTo_mem [OF d(3)] 2(2) obtain j where "j \<le> 6" "j \<le> length q" "list_all is_dec (take j q)" "drop j q = []" by auto
    then show ?thesis using that [of ?w "d # q"] w d by (simp add: amount_parts_def)
  qed
qed

lemma split_dot_parts: "amount_parts s w f \<Longrightarrow> split_dot s = (w, if f = [] then None else Some f)"
proof -
  assume p: "amount_parts s w f"
  have dig: "is_dec c \<Longrightarrow> c \<noteq> CHR ''.''" for c using dec_digit by auto
  have all: "takeWhile (\<lambda>c. c \<noteq> CHR ''.'') t = t" "dropWhile (\<lambda>c. c \<noteq> CHR ''.'') t = []" if "list_all is_dec t" for t
    using that dig by (auto simp: list_all_iff)
  show ?thesis
  proof (cases "f = []")
    case True
    then show ?thesis using p by (simp add: amount_parts_def split_dot_def all)
  next
    case False
    have "list_all (\<lambda>c. c \<noteq> CHR ''.'') w" using p dig by (auto simp: amount_parts_def list_all_iff)
    then have "takeWhile (\<lambda>c. c \<noteq> CHR ''.'') (w @ CHR ''.'' # f) = w \<and> dropWhile (\<lambda>c. c \<noteq> CHR ''.'') (w @ CHR ''.'' # f) = CHR ''.'' # f"
      by (rule run_append) simp
    then show ?thesis using p False by (simp add: amount_parts_def split_dot_def all)
  qed
qed

lemma zero_digits: "''0000000'' = replicate 7 (CHR ''0'')" by (simp add: numeral_eq_Suc)

lemma toStroops_parts:
  assumes "amount_parts s w f"
  shows "toStroops s = Inr (int (radix_val 10 w) * 100000000 + int (radix_val 10 f) * 10 ^ (7 - length f))"
proof -
  have p: "w \<noteq> []" "list_all is_dec w" "list_all is_dec f" "length f \<le> 7" using assms by (simp_all add: amount_parts_def)
  let ?padded = "take 7 (f @ ''0000000'')"
  have pad: "?padded = f @ replicate (7 - length f) (CHR ''0'')"
    using p(4) by (simp only: zero_digits take_append take_replicate) simp
  have "is_dec (CHR ''0'')" by (simp add: is_dec_def)
  then have dec: "list_all is_dec ?padded" "?padded \<noteq> []"
    unfolding pad using p(1,3,4) by (auto simp: list_all_iff)
  have frac: "js_bigint (Str ?padded) = Inr (int (radix_val 10 f) * 10 ^ (7 - length f))"
    using bigint_digits [OF dec(2,1)] unfolding pad by (simp add: radix_val_app radix_val_zeros del: js_bigint.simps)
  have "or_default (if f = [] then None else Some f) [] = f" by simp
  then show ?thesis
    using p(1) by (simp add: toStroops_def split_dot_parts [OF assms] frac bigint_digits [OF p(1,2)] Let_def
        del: js_bigint.simps take_append)
qed

lemma amount_value:
  assumes "amount_parts s w f"
  shows "decimal_literal s = Some (of_nat (radix_val 10 w) + of_nat (radix_val 10 f) / 10 ^ length f)"
  using assms decimal_literal_whole [of w] decimal_literal_point [of w f] by (auto simp: amount_parts_def)

lemma toStroops_value:
  assumes "amount_parts s w f" "q = of_nat (radix_val 10 w) + of_nat (radix_val 10 f) / (10 :: rat) ^ length f"
  shows "\<exists>n. toStroops s = Inr n \<and> 0 \<le> n \<and> of_int n = 10 ^ 7 * (q + 9 * of_int \<lfloor>q\<rfloor>)"
proof -
  have p: "list_all is_dec f" "length f \<le> 7" using assms(1) by (simp_all add: amount_parts_def)
  have "(of_nat (radix_val 10 f) :: rat) < 10 ^ length f"
    using radix_val_less [OF p(1)] by (metis of_nat_less_iff of_nat_numeral of_nat_power)
  then have "0 \<le> (of_nat (radix_val 10 f) :: rat) / 10 ^ length f" "(of_nat (radix_val 10 f) :: rat) / 10 ^ length f < 1" by simp_all
  then have fl: "\<lfloor>q\<rfloor> = int (radix_val 10 w)" unfolding assms(2) by (intro floor_unique) simp_all
  have "(10 :: rat) ^ (7 - length f) = 10 ^ 7 / 10 ^ length f" using p(2) by (intro power_diff) simp_all
  then have "(10 :: rat) ^ 7 * (of_nat (radix_val 10 f) / 10 ^ length f) = of_nat (radix_val 10 f) * 10 ^ (7 - length f)" by simp
  then show ?thesis
    unfolding toStroops_parts [OF assms(1)] fl by (simp add: assms(2) algebra_simps)
qed

section \<open>What is shown\<close>

lemma strip_zeros_split: "\<exists>k. s = strip_zeros s @ replicate k (CHR ''0'')"
proof -
  have "rev s = takeWhile (\<lambda>c. c = CHR ''0'') (rev s) @ dropWhile (\<lambda>c. c = CHR ''0'') (rev s)" by simp
  moreover have "takeWhile (\<lambda>c. c = CHR ''0'') (rev s) = replicate (length (takeWhile (\<lambda>c. c = CHR ''0'') (rev s))) (CHR ''0'')"
    by (rule replicate_eqI [symmetric, THEN sym]) (auto dest: set_takeWhileD)
  ultimately show ?thesis unfolding strip_zeros_def by (metis rev_append rev_replicate rev_rev_ident)
qed

text \<open>The digits kept after the point denote the remainder.\<close>

lemma fraction_value:
  assumes "0 \<le> r" "r < 10 ^ d" "fr = strip_zeros (padStart d (CHR ''0'') (int_dec r))"
  shows "list_all is_dec fr" "(of_nat (radix_val 10 fr) / 10 ^ length fr :: rat) = of_int r / 10 ^ d" "fr = [] \<Longrightarrow> r = 0"
proof -
  let ?p = "padStart d (CHR ''0'') (int_dec r)"
  have p: "?p = replicate (d - length (nat_radix 10 (nat r))) (CHR ''0'') @ nat_radix 10 (nat r)"
    using assms(1) by (simp add: padStart_def int_dec_def)
  have val: "int (radix_val 10 ?p) = r"
    using assms(1) by (simp add: p radix_val_app radix_val_zeros radix_val_dec)
  obtain k where k: "?p = fr @ replicate k (CHR ''0'')" using strip_zeros_split [of ?p] assms(3) by auto
  have "is_dec (CHR ''0'')" by (simp add: is_dec_def)
  then have "list_all is_dec ?p" using nat_dec_is_dec [of "nat r"] by (auto simp: p list_all_iff)
  then show "list_all is_dec fr" by (simp add: k)
  have rk: "r = int (radix_val 10 fr) * 10 ^ k" using val by (simp add: k radix_val_app radix_val_zeros)
  then show "fr = [] \<Longrightarrow> r = 0" by simp
  show "(of_nat (radix_val 10 fr) / 10 ^ length fr :: rat) = of_int r / 10 ^ d"
  proof (cases "d = 0")
    case True
    then have "r = 0" using assms(1,2) by simp
    then have "radix_val 10 fr = 0" using rk by simp
    then show ?thesis using \<open>r = 0\<close> by simp
  next
    case False
    have "nat r < 10 ^ d" using assms(1,2) by (simp add: nat_less_iff)
    then have "length (nat_radix 10 (nat r)) \<le> d" using False nat_radix_length [of 10 d "nat r"] by simp
    then have "length fr + k = d" using k p by (metis add_diff_cancel_right' le_add_diff_inverse2 length_append length_replicate)
    then have "(10 :: rat) ^ d = 10 ^ length fr * 10 ^ k" by (simp flip: power_add)
    then show ?thesis by (simp add: rk)
  qed
qed

lemma formatStroops_value:
  assumes "0 \<le> n"
  shows "\<exists>t. formatStroops (BigInt n) d = Inr t \<and> decimal_literal t = Some (of_int n / 10 ^ d)"
proof -
  let ?r = "n mod 10 ^ d" and ?w = "nat_radix 10 (nat (n div 10 ^ d))"
  define fr where "fr = strip_zeros (padStart d (CHR ''0'') (int_dec ?r))"
  have q: "bigint_quot n (10 ^ d) = n div 10 ^ d" "bigint_rem n (10 ^ d) = ?r"
    using assms by (simp_all add: bigint_rem_def minus_mult_div_eq_mod)
  have w: "int_dec (n div 10 ^ d) = ?w" using assms by (simp add: int_dec_def pos_imp_zdiv_neg_iff)
  have f: "list_all is_dec fr" "(of_nat (radix_val 10 fr) / 10 ^ length fr :: rat) = of_int ?r / 10 ^ d" "fr = [] \<Longrightarrow> ?r = 0"
    using fraction_value [of ?r d fr] assms by (simp_all add: fr_def)
  have whole: "(of_nat (radix_val 10 ?w) :: rat) = of_int (n div 10 ^ d)"
    using assms by (simp add: radix_val_dec pos_imp_zdiv_nonneg_iff)
  have "(of_int n :: rat) = of_int (n div 10 ^ d * 10 ^ d + ?r)" by (simp only: div_mult_mod_eq)
  then have n: "(of_int n :: rat) / 10 ^ d = of_int (n div 10 ^ d) + of_int ?r / 10 ^ d"
    unfolding of_int_add of_int_mult by (simp add: add_divide_distrib)
  have "decimal_literal (if fr \<noteq> [] then ?w @ CHR ''.'' # fr else ?w) = Some (of_int n / 10 ^ d)"
    using decimal_literal_whole [of ?w] decimal_literal_point [of ?w fr] nat_dec_is_dec f n whole by auto
  then show ?thesis by (auto simp: formatStroops_def Let_def q w fr_def [symmetric] split: if_splits)
qed

text \<open>C38: A non-negative amount is shown exactly: the text \<open>formatStroops\<close> makes of it, read as a decimal
  number, is the amount divided by ten to the number of decimals.\<close>

theorem formatStroops_exact:
  assumes "0 \<le> n" "js_bigint v = Inr n"
  shows "\<exists>t. formatStroops v d = Inr t \<and> decimal_literal t = Some (of_int n / 10 ^ d)"
  using formatStroops_value [OF assms(1), of d] assms(2) by (simp add: formatStroops_def)

theorem formatStroops_exact_witness:
  "\<exists>t. formatStroops (BigInt 1500000010) 7 = Inr t \<and> decimal_literal t = Some (150000001 / 1000000)"
  using formatStroops_exact [of 1500000010 "BigInt 1500000010" 7] by simp

text \<open>A negative amount is not a decimal number when its fraction is not zero: the sign is padded too.\<close>

lemma formatStroops_negative: "formatStroops (BigInt (- 5)) 7 = Inr ''0.00000-5''"
  by code_simp

text \<open>C16: The escrow form multiplies the whole part of an amount by ten to the eighth instead of the
  seventh: an accepted amount q becomes the number of stroops that \<open>formatStroops\<close> shows as q
  plus nine times its whole part, so 150 is escrowed, and shown, as 1500.\<close>

theorem form_amount_tenfold:
  assumes "re_test AMOUNT_RE s"
  shows "\<exists>q n t. decimal_literal s = Some q \<and> toStroops s = Inr n \<and> formatStroops (BigInt n) 7 = Inr t
     \<and> decimal_literal t = Some (q + 9 * of_int \<lfloor>q\<rfloor>)"
proof -
  obtain w f where p: "amount_parts s w f" by (rule amount_shape [OF assms])
  let ?q = "of_nat (radix_val 10 w) + of_nat (radix_val 10 f) / (10 :: rat) ^ length f"
  obtain n where n: "toStroops s = Inr n" "0 \<le> n" "of_int n = 10 ^ 7 * (?q + 9 * of_int \<lfloor>?q\<rfloor>)"
    using toStroops_value [OF p refl] by blast
  obtain t where t: "formatStroops (BigInt n) 7 = Inr t" "decimal_literal t = Some (of_int n / 10 ^ 7)"
    using formatStroops_value [OF n(2)] by blast
  have "decimal_literal t = Some (?q + 9 * of_int \<lfloor>?q\<rfloor>)" unfolding t(2) n(3) by simp
  then show ?thesis using amount_value [OF p] n(1) t(1) by blast
qed

theorem form_amount_tenfold_witness:
  "\<exists>n t. toStroops ''150'' = Inr n \<and> formatStroops (BigInt n) 7 = Inr t \<and> decimal_literal t = Some 1500"
proof -
  have "radix_val 10 ''150'' = 150" by code_simp
  then have "decimal_literal ''150'' = Some 150" using decimal_literal_whole [of "''150''"] by (simp add: is_dec_def)
  moreover have "re_test AMOUNT_RE ''150''"
    by (simp add: AMOUNT_RE_def re_test_Bol Plus_def reDigit_def mt_Star_Cls mt_Opt is_dec_def)
  ultimately show ?thesis using form_amount_tenfold [of "''150''"] by auto
qed

end
