(* ===== verification/EscrowForm.thy ===== *)
theory EscrowForm
  imports EscrowBuilder Amounts
begin

text \<open>
  The escrow form of apps/client/components/escrow/CreateEscrowForm.tsx: the schema zod checks
  (\<open>stellarAccount\<close>, \<open>milestoneSchema\<close>, \<open>escrowSchema\<close> with its refinement), the fields each step of the
  wizard validates, and the wizard itself as a step relation. The validation of a step is awaited:
  a click on Next fixes its outcome, and the step advances when the outcome arrives, so that a
  second click can come in between. A number input of a browser holds an empty text or a number;
  its text is never read as NaN. Rendering, styles and where messages appear are not modelled.
\<close>

section \<open>The schema\<close>

record form_input =
  fi_recipient :: string
  fi_arbitrator :: string
  fi_token :: token_choice
  fi_tokenContract :: string
  fi_lockDays :: jsval
  fi_threshold :: jsval
  fi_milestones :: "form_milestone list"

datatype form_field = F_recipient | F_arbitrator | F_token | F_tokenContract | F_lockDays | F_threshold | F_milestones

text \<open>Where an issue is, and what it is. \<open>Invalid_Number\<close> is NaN, after which zod gives up the value.\<close>

datatype issue_path = Field form_field | Description nat | Amount nat

datatype issue_kind = Invalid_Text | Invalid_Number | Not_Integer | Too_Small | Too_Big | Refined form_issue

type_synonym issue = "issue_path \<times> issue_kind"

fun issue_field :: "issue_path \<Rightarrow> form_field" where
  "issue_field (Field f) = f"
| "issue_field (Description _) = F_milestones"
| "issue_field (Amount _) = F_milestones"

definition stellarAccount :: "form_field \<Rightarrow> string \<Rightarrow> issue list" where
  "stellarAccount f s = (if re_test ACCOUNT_ID_RE s then [] else [(Field f, Invalid_Text)])"

definition milestoneSchema :: "nat \<Rightarrow> form_milestone \<Rightarrow> issue list" where
  "milestoneSchema k m =
     (if length (fm_description m) < 4 then [(Description k, Too_Small)] else [])
     @ (if re_test AMOUNT_RE (fm_amount m) then [] else [(Amount k, Invalid_Text)])"

text \<open>\<open>z.string().regex(..).or(z.literal(""))\<close>\<close>

definition contractSchema :: "string \<Rightarrow> issue list" where
  "contractSchema s = (if re_test CONTRACT_ID_RE s \<or> s = [] then [] else [(Field F_tokenContract, Invalid_Text)])"

text \<open>\<open>z.coerce.number().int().min(lo).max(hi)\<close>\<close>

definition intSchema :: "form_field \<Rightarrow> rat \<Rightarrow> rat \<Rightarrow> jsval \<Rightarrow> issue list" where
  "intSchema f lo hi v =
     (let n = js_number v in
      if n = NaN then [(Field f, Invalid_Number)]
      else (if num_isInteger n then [] else [(Field f, Not_Integer)])
        @ (if num_lt n (Fin lo) then [(Field f, Too_Small)] else [])
        @ (if num_lt (Fin hi) n then [(Field f, Too_Big)] else []))"

definition milestonesSchema :: "form_milestone list \<Rightarrow> issue list" where
  "milestonesSchema ms =
     (if length ms < 1 then [(Field F_milestones, Too_Small)] else [])
     @ (if 12 < length ms then [(Field F_milestones, Too_Big)] else [])
     @ concat (map (\<lambda>(k, m). milestoneSchema k m) (List.enumerate 0 ms))"

definition base_issues :: "form_input \<Rightarrow> issue list" where
  "base_issues i =
     stellarAccount F_recipient (fi_recipient i) @ stellarAccount F_arbitrator (fi_arbitrator i)
     @ contractSchema (fi_tokenContract i) @ intSchema F_lockDays 1 180 (fi_lockDays i)
     @ intSchema F_threshold 1 2 (fi_threshold i) @ milestonesSchema (fi_milestones i)"

definition coerced :: "form_input \<Rightarrow> form_values" where
  "coerced i =
     \<lparr>fv_recipient = fi_recipient i, fv_arbitrator = fi_arbitrator i, fv_token = fi_token i,
      fv_tokenContract = fi_tokenContract i, fv_lockDays = js_number (fi_lockDays i),
      fv_threshold = js_number (fi_threshold i), fv_milestones = fi_milestones i\<rparr>"

definition refinement_path :: "form_issue \<Rightarrow> form_field" where
  "refinement_path x = (case x of Same_Arbitrator \<Rightarrow> F_arbitrator | Zero_Total \<Rightarrow> F_milestones)"

text \<open>The refinement runs also on a value with issues, unless one of them is a NaN.\<close>

definition aborted :: "form_input \<Rightarrow> bool" where
  "aborted i = (js_number (fi_lockDays i) = NaN \<or> js_number (fi_threshold i) = NaN)"

definition schema_issues :: "form_input \<Rightarrow> issue list" where
  "schema_issues i =
     base_issues i
     @ (if aborted i then [] else map (\<lambda>x. (Field (refinement_path x), Refined x)) (superRefine (coerced i)))"

definition escrowSchema :: "form_input \<Rightarrow> issue list + form_values" where
  "escrowSchema i = (if schema_issues i = [] then Inr (coerced i) else Inl (schema_issues i))"

section \<open>The wizard\<close>

definition defaultValues :: form_input where
  "defaultValues =
     \<lparr>fi_recipient = [], fi_arbitrator = [], fi_token = USDC, fi_tokenContract = [], fi_lockDays = Num (Fin 30),
      fi_threshold = Num (Fin 1),
      fi_milestones = [\<lparr>fm_description = ''Specification freeze'', fm_amount = ''150''\<rparr>,
                       \<lparr>fm_description = ''Implementation complete'', fm_amount = ''200''\<rparr>]\<rparr>"

text \<open>Reading past the last entry gives \<open>undefined\<close>, which has \<open>trigger\<close> check every field.\<close>

definition fieldsByStep :: "nat \<Rightarrow> form_field list" where
  "fieldsByStep step =
     (if step = 0 then [F_recipient, F_arbitrator]
      else if step = 1 then [F_token, F_tokenContract, F_lockDays, F_threshold]
      else if step = 2 then [F_milestones]
      else if step = 3 then []
      else [F_recipient, F_arbitrator, F_token, F_tokenContract, F_lockDays, F_threshold, F_milestones])"

definition validateStep :: "nat \<Rightarrow> form_input \<Rightarrow> bool" where
  "validateStep step i = list_all (\<lambda>x. issue_field (fst x) \<notin> set (fieldsByStep step)) (schema_issues i)"

datatype form_edit =
    Recipient_Text string
  | Arbitrator_Text string
  | Token_Button token_choice
  | Contract_Text string
  | LockDays_Text string
  | Threshold_Option bool
  | Description_Text nat string
  | Amount_Text nat string
  | Append_Milestone
  | Remove_Milestone nat

definition change_milestone :: "nat \<Rightarrow> (form_milestone \<Rightarrow> form_milestone) \<Rightarrow> form_input \<Rightarrow> form_input option" where
  "change_milestone k f i =
     (if k < length (fi_milestones i) then Some (i\<lparr>fi_milestones := (fi_milestones i)[k := f (fi_milestones i ! k)]\<rparr>) else None)"

definition remove_at :: "nat \<Rightarrow> 'a list \<Rightarrow> 'a list" where
  "remove_at k xs = take k xs @ drop (Suc k) xs"

fun parties_edit :: "form_edit \<Rightarrow> form_input \<Rightarrow> form_input option" where
  "parties_edit (Recipient_Text s) i = Some (i\<lparr>fi_recipient := s\<rparr>)"
| "parties_edit (Arbitrator_Text s) i = Some (i\<lparr>fi_arbitrator := s\<rparr>)"
| "parties_edit _ i = None"

fun asset_edit :: "form_edit \<Rightarrow> form_input \<Rightarrow> form_input option" where
  "asset_edit (Token_Button t) i = Some (i\<lparr>fi_token := t\<rparr>)"
| "asset_edit (Contract_Text s) i = Some (i\<lparr>fi_tokenContract := s\<rparr>)"
| "asset_edit (LockDays_Text s) i = (if js_number (Str s) = NaN then None else Some (i\<lparr>fi_lockDays := Str s\<rparr>))"
| "asset_edit (Threshold_Option two) i = Some (i\<lparr>fi_threshold := Str (if two then ''2'' else ''1'')\<rparr>)"
| "asset_edit _ i = None"

fun milestones_edit :: "form_edit \<Rightarrow> form_input \<Rightarrow> form_input option" where
  "milestones_edit (Description_Text k s) i = change_milestone k (\<lambda>m. m\<lparr>fm_description := s\<rparr>) i"
| "milestones_edit (Amount_Text k s) i = change_milestone k (\<lambda>m. m\<lparr>fm_amount := s\<rparr>) i"
| "milestones_edit Append_Milestone i =
     Some (i\<lparr>fi_milestones := fi_milestones i @ [\<lparr>fm_description = [], fm_amount = []\<rparr>]\<rparr>)"
| "milestones_edit (Remove_Milestone k) i =
     (if length (fi_milestones i) = 1 \<or> length (fi_milestones i) \<le> k then None
      else Some (i\<lparr>fi_milestones := remove_at k (fi_milestones i)\<rparr>))"
| "milestones_edit _ i = None"

text \<open>The inputs and buttons each step shows; \<open>None\<close> is one that is not there.\<close>

definition edit_shown :: "nat \<Rightarrow> form_edit \<Rightarrow> form_input \<Rightarrow> form_input option" where
  "edit_shown step e i =
     (if step = 0 then parties_edit e i else if step = 1 then asset_edit e i
      else if step = 2 then milestones_edit e i else None)"

record wizard =
  wz_input :: form_input
  wz_step :: nat
  wz_awaited :: "bool list"

definition initial_wizard :: wizard where
  "initial_wizard = \<lparr>wz_input = defaultValues, wz_step = 0, wz_awaited = []\<rparr>"

definition back_button :: "wizard \<Rightarrow> wizard" where
  "back_button w = w\<lparr>wz_step := wz_step w - 1\<rparr>"

definition next_button :: "wizard \<Rightarrow> wizard" where
  "next_button w = w\<lparr>wz_awaited := wz_awaited w @ [validateStep (wz_step w) (wz_input w)]\<rparr>"

definition validated :: "wizard \<Rightarrow> wizard" where
  "validated w =
     (case wz_awaited w of
        [] \<Rightarrow> w
      | ok # rest \<Rightarrow> w\<lparr>wz_step := (if ok then wz_step w + 1 else wz_step w), wz_awaited := rest\<rparr>)"

inductive wizard_step :: "wizard \<Rightarrow> wizard \<Rightarrow> bool" where
  Edit: "edit_shown (wz_step w) e (wz_input w) = Some i \<Longrightarrow> wizard_step w (w\<lparr>wz_input := i\<rparr>)"
| Back: "wz_step w \<noteq> 0 \<Longrightarrow> wizard_step w (back_button w)"
| Next: "wz_step w < 3 \<Longrightarrow> wizard_step w (next_button w)"
| Validated: "wz_awaited w \<noteq> [] \<Longrightarrow> wizard_step w (validated w)"

text \<open>\<open>handleSubmit\<close> parses the whole form again; \<open>onSubmit\<close> sees parsed values only.\<close>

definition submit_form :: "('sc, 'tx) soroban \<Rightarrow> (8 word list \<Rightarrow> 8 word list) \<Rightarrow> string option \<Rightarrow> wallet_view \<Rightarrow> form_input
    \<Rightarrow> issue list + form_outcome js" where
  "submit_form B digest contract w i =
     (case escrowSchema i of Inl issues \<Rightarrow> Inl issues | Inr v \<Rightarrow> Inr (onSubmit B digest contract w v))"

section \<open>What each step checks\<close>

definition total_positive :: "form_milestone list \<Rightarrow> bool" where
  "total_positive ms =
     num_lt (Fin 0) (fold (\<lambda>m sum. num_add sum (js_number (if fm_amount m \<noteq> [] then Str (fm_amount m) else Num (Fin 0)))) ms (Fin 0))"

lemma issue_fields:
  "x \<in> set (stellarAccount f s) \<Longrightarrow> issue_field (fst x) = f"
  "x \<in> set (contractSchema s) \<Longrightarrow> issue_field (fst x) = F_tokenContract"
  "x \<in> set (intSchema f lo hi v) \<Longrightarrow> issue_field (fst x) = f"
  "x \<in> set (milestonesSchema ms) \<Longrightarrow> issue_field (fst x) = F_milestones"
  by (auto simp: stellarAccount_def contractSchema_def intSchema_def milestonesSchema_def milestoneSchema_def Let_def split: if_splits)

definition field_ok :: "form_field \<Rightarrow> form_input \<Rightarrow> bool" where
  "field_ok f i =
     (case f of
        F_recipient \<Rightarrow> stellarAccount f (fi_recipient i) = []
      | F_arbitrator \<Rightarrow> stellarAccount f (fi_arbitrator i) = [] \<and> fi_recipient i \<noteq> fi_arbitrator i
      | F_token \<Rightarrow> True
      | F_tokenContract \<Rightarrow> contractSchema (fi_tokenContract i) = []
      | F_lockDays \<Rightarrow> intSchema f 1 180 (fi_lockDays i) = []
      | F_threshold \<Rightarrow> intSchema f 1 2 (fi_threshold i) = []
      | F_milestones \<Rightarrow> milestonesSchema (fi_milestones i) = [] \<and> total_positive (fi_milestones i))"

lemma issues_of:
  assumes "\<not> aborted i"
  shows "list_all (\<lambda>x. issue_field (fst x) \<notin> F) (schema_issues i) \<longleftrightarrow> (\<forall>f\<in>F. field_ok f i)"
proof -
  have only: "list_all (\<lambda>x. issue_field (fst x) \<notin> F) xs \<longleftrightarrow> f \<notin> F \<or> xs = []"
    if "\<And>x. x \<in> set xs \<Longrightarrow> issue_field (fst x) = f" for xs and f
    using that by (cases xs) (auto simp: list_all_iff)
  have parts:
    "list_all (\<lambda>x. issue_field (fst x) \<notin> F) (stellarAccount f s) \<longleftrightarrow> f \<notin> F \<or> stellarAccount f s = []"
    "list_all (\<lambda>x. issue_field (fst x) \<notin> F) (contractSchema s) \<longleftrightarrow> F_tokenContract \<notin> F \<or> contractSchema s = []"
    "list_all (\<lambda>x. issue_field (fst x) \<notin> F) (intSchema f lo hi v) \<longleftrightarrow> f \<notin> F \<or> intSchema f lo hi v = []"
    "list_all (\<lambda>x. issue_field (fst x) \<notin> F) (milestonesSchema ms) \<longleftrightarrow> F_milestones \<notin> F \<or> milestonesSchema ms = []" for f s lo hi v ms
    by (rule only, erule issue_fields)+
  have refined: "map (\<lambda>x. (Field (refinement_path x), Refined x)) (superRefine (coerced i)) =
      (if fi_recipient i = fi_arbitrator i then [(Field F_arbitrator, Refined Same_Arbitrator)] else [])
      @ (if total_positive (fi_milestones i) then [] else [(Field F_milestones, Refined Zero_Total)])"
    by (simp add: superRefine_def coerced_def refinement_path_def total_positive_def Let_def)
  have "list_all (\<lambda>x. issue_field (fst x) \<notin> F) (schema_issues i) \<longleftrightarrow>
      (F_recipient \<notin> F \<or> field_ok F_recipient i) \<and> (F_arbitrator \<notin> F \<or> field_ok F_arbitrator i)
      \<and> (F_tokenContract \<notin> F \<or> field_ok F_tokenContract i) \<and> (F_lockDays \<notin> F \<or> field_ok F_lockDays i)
      \<and> (F_threshold \<notin> F \<or> field_ok F_threshold i) \<and> (F_milestones \<notin> F \<or> field_ok F_milestones i)"
    unfolding schema_issues_def base_issues_def list_all_append if_not_P [OF assms] refined field_ok_def form_field.case parts
    by (cases "fi_recipient i = fi_arbitrator i"; cases "total_positive (fi_milestones i)") (simp_all, blast+)
  also have "\<dots> \<longleftrightarrow> (\<forall>f. f \<notin> F \<or> field_ok f i)"
  proof (rule iffI)
    assume all: "(F_recipient \<notin> F \<or> field_ok F_recipient i) \<and> (F_arbitrator \<notin> F \<or> field_ok F_arbitrator i)
      \<and> (F_tokenContract \<notin> F \<or> field_ok F_tokenContract i) \<and> (F_lockDays \<notin> F \<or> field_ok F_lockDays i)
      \<and> (F_threshold \<notin> F \<or> field_ok F_threshold i) \<and> (F_milestones \<notin> F \<or> field_ok F_milestones i)"
    have "field_ok F_token i" by (simp add: field_ok_def)
    then have "f \<notin> F \<or> field_ok f i" for f using all by (cases f) simp_all
    then show "\<forall>f. f \<notin> F \<or> field_ok f i" ..
  qed simp
  also have "\<dots> \<longleftrightarrow> (\<forall>f\<in>F. field_ok f i)" by auto
  finally show ?thesis .
qed

lemma validateStep_iff: "\<not> aborted i \<Longrightarrow> validateStep step i \<longleftrightarrow> (\<forall>f\<in>set (fieldsByStep step). field_ok f i)"
  unfolding validateStep_def by (rule issues_of)

lemma validate_all:
  assumes "\<not> aborted i" "\<And>k. k < 3 \<Longrightarrow> validateStep k i"
  shows "schema_issues i = []"
proof -
  have "\<forall>f\<in>UNIV. field_ok f i"
  proof
    fix f
    have "field_ok f i" if "k < 3" "f \<in> set (fieldsByStep k)" for k
      using assms(2) [OF that(1)] that(2) by (simp add: validateStep_iff [OF assms(1)])
    note this [of 0] this [of 1] this [of 2]
    then show "field_ok f i" by (cases f) (simp_all add: fieldsByStep_def)
  qed
  then show ?thesis unfolding issues_of [OF assms(1), of UNIV, symmetric] by (cases "schema_issues i") simp_all
qed

section \<open>A form under review is accepted\<close>

text \<open>Runs in which nothing is done while the validation of a step is awaited.\<close>

inductive calm_wizard :: "wizard \<Rightarrow> bool" where
  Start: "calm_wizard initial_wizard"
| Step: "calm_wizard w \<Longrightarrow> wizard_step w w' \<Longrightarrow> wz_awaited w = [] \<or> w' = validated w \<Longrightarrow> calm_wizard w'"

definition wizard_inv :: "wizard \<Rightarrow> bool" where
  "wizard_inv w \<longleftrightarrow>
     \<not> aborted (wz_input w) \<and> fi_milestones (wz_input w) \<noteq> [] \<and> wz_step w \<le> 3
     \<and> (\<forall>k < wz_step w. validateStep k (wz_input w))
     \<and> (wz_awaited w = [] \<or> wz_step w < 3 \<and> wz_awaited w = [validateStep (wz_step w) (wz_input w)])"

lemma remove_at_nonempty: "length xs \<noteq> 1 \<Longrightarrow> k < length xs \<Longrightarrow> remove_at k xs \<noteq> []"
  by (cases xs; cases k) (auto simp: remove_at_def)

text \<open>An edit keeps the fields of the other steps.\<close>

lemma edit_keeps:
  assumes "edit_shown step e i = Some i'" "\<not> aborted i" "fi_milestones i \<noteq> []"
  shows "\<not> aborted i'" "fi_milestones i' \<noteq> []" "k < step \<Longrightarrow> validateStep k i \<Longrightarrow> validateStep k i'"
proof -
  have nan: "js_number (Str ''1'') \<noteq> NaN" "js_number (Str ''2'') \<noteq> NaN"
  proof -
    have one: "int_dec 1 = ''1''" and two: "int_dec 2 = ''2''" by code_simp+
    show "js_number (Str ''1'') \<noteq> NaN" unfolding one [symmetric] by (subst js_number_int_dec) simp_all
    show "js_number (Str ''2'') \<noteq> NaN" unfolding two [symmetric] by (subst js_number_int_dec) simp_all
  qed
  consider "step = 0" "parties_edit e i = Some i'" | "step = 1" "asset_edit e i = Some i'" | "step = 2" "milestones_edit e i = Some i'"
    using assms(1) by (auto simp: edit_shown_def split: if_splits)
  then have "\<not> aborted i' \<and> fi_milestones i' \<noteq> [] \<and> (k < step \<longrightarrow> validateStep k i \<longrightarrow> validateStep k i')"
  proof cases
    case 1
    then show ?thesis using assms(2,3) by (cases e) (auto simp: aborted_def)
  next
    case 2
    then have "\<not> aborted i' \<and> fi_milestones i' \<noteq> [] \<and> fi_recipient i' = fi_recipient i \<and> fi_arbitrator i' = fi_arbitrator i"
      using assms(2,3) nan by (cases e) (auto simp: aborted_def split: if_splits simp del: js_number.simps)
    then show ?thesis using 2(1) assms(2) by (auto simp: validateStep_iff fieldsByStep_def field_ok_def)
  next
    case 3
    then have "i' = i\<lparr>fi_milestones := fi_milestones i'\<rparr> \<and> fi_milestones i' \<noteq> []"
      using assms(3) remove_at_nonempty [of "fi_milestones i"]
      by (cases e) (auto simp: change_milestone_def split: if_splits)
    then obtain ms where ms: "i' = i\<lparr>fi_milestones := ms\<rparr>" "ms \<noteq> []" by blast
    have live: "\<not> aborted i'" using assms(2) ms(1) by (simp add: aborted_def)
    have "validateStep j i' = validateStep j i" if "j < 2" for j
      using that ms(1) unfolding validateStep_iff [OF assms(2)] validateStep_iff [OF live]
      by (auto simp: fieldsByStep_def field_ok_def)
    then show ?thesis using 3(1) ms live by simp
  qed
  then show "\<not> aborted i'" "fi_milestones i' \<noteq> []" "k < step \<Longrightarrow> validateStep k i \<Longrightarrow> validateStep k i'" by simp_all
qed

lemma calm_inv: "calm_wizard w \<Longrightarrow> wizard_inv w"
proof (induction rule: calm_wizard.induct)
  case Start
  then show ?case by (simp add: wizard_inv_def initial_wizard_def defaultValues_def aborted_def)
next
  case (Step w w')
  have validated: "wizard_inv (validated w)"
    using Step.IH by (auto simp: wizard_inv_def validated_def less_Suc_eq split: list.splits)
  show ?case
  proof (cases "w' = validated w")
    case True
    then show ?thesis using validated by simp
  next
    case False
    then have idle: "wz_awaited w = []" using Step.hyps(3) by simp
    from Step.hyps(2) show ?thesis
    proof cases
      case (Edit e i)
      then show ?thesis using Step.IH idle edit_keeps [OF Edit(2)] by (auto simp: wizard_inv_def)
    qed (use Step.IH idle False in \<open>auto simp: wizard_inv_def back_button_def next_button_def\<close>)
  qed
qed

text \<open>C12: However the fields are filled in, step after step and back again, the last step of the wizard shows a
  form the schema accepts in full, so that submitting it reaches \<open>onSubmit\<close> with the values
  shown, provided nothing is done while a validation is awaited; the wizard never leaves its four
  steps, and a milestone is always left.\<close>

theorem review_is_accepted:
  assumes "calm_wizard w"
  shows "wz_step w \<le> 3 \<and> fi_milestones (wz_input w) \<noteq> []
     \<and> (wz_step w = 3 \<longrightarrow>
          submit_form B digest contract view (wz_input w) = Inr (onSubmit B digest contract view (coerced (wz_input w))))"
proof -
  have w: "wizard_inv w" by (rule calm_inv [OF assms])
  have "submit_form B digest contract view (wz_input w) = Inr (onSubmit B digest contract view (coerced (wz_input w)))"
    if "wz_step w = 3"
  proof -
    have "schema_issues (wz_input w) = []" using w that by (intro validate_all) (auto simp: wizard_inv_def)
    then show ?thesis by (simp add: submit_form_def escrowSchema_def)
  qed
  then show ?thesis using w by (simp add: wizard_inv_def)
qed

section \<open>A form filled in\<close>

definition sample_parties :: form_input where
  "sample_parties = defaultValues\<lparr>fi_recipient := replicate 56 (CHR ''G''), fi_arbitrator := CHR ''G'' # replicate 55 (CHR ''A'')\<rparr>"

lemma dec_text: "nat_radix 10 150 = ''150''" "nat_radix 10 200 = ''200''" by code_simp+

lemma sample_amounts: "js_number (Str ''150'') = Fin 150" "js_number (Str ''200'') = Fin 200"
  using js_number_int_dec [of 150] js_number_int_dec [of 200] by (simp_all add: int_dec_def dec_text del: js_number.simps)

lemma sample_fields: "f \<noteq> F_tokenContract \<Longrightarrow> field_ok f (sample_parties\<lparr>fi_tokenContract := t\<rparr>)" "\<not> aborted (sample_parties\<lparr>fi_tokenContract := t\<rparr>)"
proof -
  have digits: "re_test AMOUNT_RE ''150''" "re_test AMOUNT_RE ''200''"
    by (simp_all add: AMOUNT_RE_def re_test_Bol Plus_def reDigit_def mt_Star_Cls mt_Opt is_dec_def)
  have "to_double (350 :: rat) = Fin 350" "to_double (150 :: rat) = Fin 150"
    using to_double_nat [of 350] to_double_nat [of 150] by simp_all
  then have sum: "total_positive (fi_milestones defaultValues)"
    by (simp add: total_positive_def defaultValues_def sample_amounts del: js_number.simps(6))
  have ids: "re_test ACCOUNT_ID_RE (replicate 56 (CHR ''G''))" "re_test ACCOUNT_ID_RE (CHR ''G'' # replicate 55 (CHR ''A''))"
    by (simp_all add: contract_id_test numeral_eq_Suc list_all_iff upper_or_digit_def between_def)
  show "\<not> aborted (sample_parties\<lparr>fi_tokenContract := t\<rparr>)" by (simp add: aborted_def sample_parties_def defaultValues_def)
  show "field_ok f (sample_parties\<lparr>fi_tokenContract := t\<rparr>)" if "f \<noteq> F_tokenContract"
  proof (cases f)
    case F_milestones
    then show ?thesis using sum digits
      by (simp add: field_ok_def sample_parties_def milestonesSchema_def milestoneSchema_def defaultValues_def)
  qed (use ids that in \<open>simp_all add: field_ok_def sample_parties_def stellarAccount_def intSchema_def defaultValues_def
      num_isInteger_def is_integer_def numeral_eq_Suc\<close>)
qed

lemma sample_step: "validateStep s (sample_parties\<lparr>fi_tokenContract := t\<rparr>) \<longleftrightarrow> F_tokenContract \<notin> set (fieldsByStep s) \<or> contractSchema t = []"
proof -
  have "field_ok f (sample_parties\<lparr>fi_tokenContract := t\<rparr>) \<longleftrightarrow> f \<noteq> F_tokenContract \<or> contractSchema t = []" for f
    using sample_fields(1) [of f t] by (cases "f = F_tokenContract") (simp_all add: field_ok_def)
  then show ?thesis unfolding validateStep_iff [OF sample_fields(2)] by auto
qed

lemma calm_next:
  assumes "calm_wizard \<lparr>wz_input = i, wz_step = s, wz_awaited = []\<rparr>" "s < 3" "validateStep s i"
  shows "calm_wizard \<lparr>wz_input = i, wz_step = Suc s, wz_awaited = []\<rparr>"
proof -
  let ?w = "\<lparr>wz_input = i, wz_step = s, wz_awaited = []\<rparr>"
  have "calm_wizard (next_button ?w)" by (rule calm_wizard.Step [OF assms(1) wizard_step.Next]) (simp_all add: assms(2))
  then have "calm_wizard (validated (next_button ?w))"
    by (rule calm_wizard.Step [OF _ wizard_step.Validated]) (simp_all add: next_button_def)
  then show ?thesis by (simp add: next_button_def validated_def assms(3))
qed

lemma calm_edit:
  assumes "calm_wizard \<lparr>wz_input = i, wz_step = s, wz_awaited = []\<rparr>" "edit_shown s e i = Some i'"
  shows "calm_wizard \<lparr>wz_input = i', wz_step = s, wz_awaited = []\<rparr>"
  using calm_wizard.Step [OF assms(1) wizard_step.Edit, of e i'] assms(2) by simp

lemma calm_parties: "calm_wizard \<lparr>wz_input = sample_parties\<lparr>fi_tokenContract := []\<rparr>, wz_step = 0, wz_awaited = []\<rparr>"
proof -
  have "calm_wizard \<lparr>wz_input = defaultValues, wz_step = 0, wz_awaited = []\<rparr>"
    using calm_wizard.Start by (simp add: initial_wizard_def)
  then have "calm_wizard \<lparr>wz_input = defaultValues\<lparr>fi_recipient := replicate 56 (CHR ''G'')\<rparr>, wz_step = 0, wz_awaited = []\<rparr>"
    by (rule calm_edit [where e = "Recipient_Text (replicate 56 (CHR ''G''))"]) (simp add: edit_shown_def)
  then have "calm_wizard \<lparr>wz_input = sample_parties, wz_step = 0, wz_awaited = []\<rparr>"
    by (rule calm_edit [where e = "Arbitrator_Text (CHR ''G'' # replicate 55 (CHR ''A''))"]) (simp add: edit_shown_def sample_parties_def)
  then show ?thesis by (simp add: sample_parties_def defaultValues_def)
qed

definition sample_view :: wallet_view where
  "sample_view = \<lparr>wv_publicKey = Some (replicate 56 (CHR ''A'')), wv_network = Testnet\<rparr>"

theorem review_is_accepted_witness:
  "submit_form (sample_soroban Null) (\<lambda>bs. bs) None sample_view (sample_parties\<lparr>fi_tokenContract := []\<rparr>) =
     Inr (onSubmit (sample_soroban Null) (\<lambda>bs. bs) None sample_view (coerced (sample_parties\<lparr>fi_tokenContract := []\<rparr>)))"
proof -
  let ?i = "sample_parties\<lparr>fi_tokenContract := []\<rparr>"
  have ok: "validateStep s ?i" for s by (simp add: sample_step contractSchema_def)
  have "calm_wizard \<lparr>wz_input = ?i, wz_step = 3, wz_awaited = []\<rparr>"
    using calm_next [OF calm_next [OF calm_next [OF calm_parties]]] ok by (simp add: numeral_3_eq_3)
  from review_is_accepted [OF this, of "sample_soroban Null" "\<lambda>bs. bs" None sample_view] show ?thesis by simp
qed

section \<open>Two clicks on Next\<close>

inductive any_wizard :: "wizard \<Rightarrow> bool" where
  Start: "any_wizard initial_wizard"
| Step: "any_wizard w \<Longrightarrow> wizard_step w w' \<Longrightarrow> any_wizard w'"

lemma calm_any: "calm_wizard w \<Longrightarrow> any_wizard w"
  by (induction rule: calm_wizard.induct) (auto intro: any_wizard.intros)

lemma any_twice:
  assumes "any_wizard \<lparr>wz_input = i, wz_step = s, wz_awaited = []\<rparr>" "s < 3" "validateStep s i"
  shows "any_wizard \<lparr>wz_input = i, wz_step = Suc (Suc s), wz_awaited = []\<rparr>"
proof -
  let ?w = "\<lparr>wz_input = i, wz_step = s, wz_awaited = []\<rparr>"
  have "any_wizard (next_button ?w)" by (rule any_wizard.Step [OF assms(1) wizard_step.Next]) (simp add: assms(2))
  then have "any_wizard (next_button (next_button ?w))"
    by (rule any_wizard.Step [OF _ wizard_step.Next]) (simp add: next_button_def assms(2))
  then have "any_wizard (validated (next_button (next_button ?w)))"
    by (rule any_wizard.Step [OF _ wizard_step.Validated]) (simp add: next_button_def)
  then have "any_wizard (validated (validated (next_button (next_button ?w))))"
    by (rule any_wizard.Step [OF _ wizard_step.Validated]) (simp add: next_button_def validated_def)
  then show ?thesis by (simp add: next_button_def validated_def assms(3))
qed

text \<open>Without the proviso the last step may show a form that is then refused, for a field it does not
  show: a second click on Next that comes before the first has been validated skips a step.\<close>

theorem hasty_review:
  "\<exists>w. any_wizard w \<and> wz_step w = 4 \<and> wz_awaited w = []"
  "\<exists>w issues. any_wizard w \<and> wz_step w = 3 \<and> wz_awaited w = [] \<and> escrowSchema (wz_input w) = Inl issues"
proof -
  let ?i = "sample_parties\<lparr>fi_tokenContract := []\<rparr>" and ?j = "sample_parties\<lparr>fi_tokenContract := ''x''\<rparr>"
  have ok: "validateStep s ?i" for s by (simp add: sample_step contractSchema_def)
  have one: "calm_wizard \<lparr>wz_input = ?i, wz_step = 1, wz_awaited = []\<rparr>"
    using calm_next [OF calm_parties] ok by simp
  then have "calm_wizard \<lparr>wz_input = ?i, wz_step = 2, wz_awaited = []\<rparr>"
    using calm_next ok by (simp add: numeral_2_eq_2)
  from any_twice [OF calm_any [OF this]] ok
  show "\<exists>w. any_wizard w \<and> wz_step w = 4 \<and> wz_awaited w = []" by (intro exI conjI) auto
  have "calm_wizard \<lparr>wz_input = ?j, wz_step = 1, wz_awaited = []\<rparr>"
    by (rule calm_edit [OF one, where e = "Contract_Text ''x''"]) (simp add: edit_shown_def)
  then have "any_wizard (back_button \<lparr>wz_input = ?j, wz_step = 1, wz_awaited = []\<rparr>)"
    by (intro any_wizard.Step [OF calm_any wizard_step.Back]) simp_all
  then have zero: "any_wizard \<lparr>wz_input = ?j, wz_step = 0, wz_awaited = []\<rparr>" by (simp add: back_button_def)
  have "validateStep 0 ?j" "validateStep 2 ?j" unfolding sample_step by (simp_all add: fieldsByStep_def)
  then have "any_wizard (validated (next_button \<lparr>wz_input = ?j, wz_step = 2, wz_awaited = []\<rparr>))"
    using any_twice [OF zero]
    by (intro any_wizard.Step [OF any_wizard.Step [OF _ wizard_step.Next] wizard_step.Validated]) (simp_all add: next_button_def numeral_2_eq_2)
  then have three: "any_wizard \<lparr>wz_input = ?j, wz_step = 3, wz_awaited = []\<rparr>"
    using \<open>validateStep 2 ?j\<close> by (simp add: next_button_def validated_def)
  have "\<not> validateStep 1 ?j" unfolding sample_step by (simp add: fieldsByStep_def contractSchema_def contract_id_test)
  then have "schema_issues ?j \<noteq> []" by (auto simp: validateStep_def)
  then have "escrowSchema ?j = Inl (schema_issues ?j)" by (simp add: escrowSchema_def)
  with three show "\<exists>w issues. any_wizard w \<and> wz_step w = 3 \<and> wz_awaited w = [] \<and> escrowSchema (wz_input w) = Inl issues"
    by (intro exI conjI) auto
qed

section \<open>What an accepted form escrows\<close>

lemma amount_number:
  assumes "amount_parts s w f"
  shows "js_number (Str s) = to_double (of_nat (radix_val 10 w) + of_nat (radix_val 10 f) / 10 ^ length f)"
proof -
  obtain c u where s: "s = c # u" "is_dec c" and chars: "list_all (\<lambda>c. is_dec c \<or> c = CHR ''.'') s"
    using assms by (cases w) (auto simp: amount_parts_def list_all_iff split: if_splits)
  have "\<not> is_ws (CHR ''.'')" "CHR ''.'' \<notin> set ''xXoObB''" by code_simp+
  moreover have "set ''xXoObB'' \<subseteq> set ''xXoObB+-.eE''" by simp
  ultimately have "list_all (\<lambda>c. \<not> is_ws c) s" "list_all (\<lambda>c. c \<notin> set ''xXoObB'') s"
    using chars dec_digit unfolding list_all_iff by blast+
  then have "trim s = s" "radix_prefix s = None" by (simp_all add: trim_id radix_prefix_None)
  moreover have "split_sign s = (False, s)" "s \<noteq> ''Infinity''"
  proof -
    have "\<not> is_dec (CHR ''I'')" by code_simp
    then show "s \<noteq> ''Infinity''" using s by auto
    show "split_sign s = (False, s)" using s(1) dec_digit [OF s(2)] by (simp add: split_sign_def)
  qed
  moreover have "s \<noteq> []" using s(1) by simp
  ultimately show ?thesis using amount_value [OF assms] by (simp add: string_to_number_def)
qed

lemma zero_amount:
  assumes "re_test AMOUNT_RE s" "toStroops s = Inr 0"
  shows "js_number (Str s) = Fin 0"
proof -
  obtain w f where p: "amount_parts s w f" by (rule amount_shape [OF assms(1)])
  have "int (radix_val 10 w) * 100000000 + int (radix_val 10 f) * 10 ^ (7 - length f) = 0"
    using assms(2) unfolding toStroops_parts [OF p] by simp
  then have "radix_val 10 w = 0" "radix_val 10 f = 0" by (simp_all add: add_nonneg_eq_0_iff)
  then show ?thesis unfolding amount_number [OF p] by (simp add: to_double_def)
qed

text \<open>An accepted form: what the fields are known to hold.\<close>

lemma escrowSchema_ok:
  assumes "escrowSchema i = Inr v"
  shows "v = coerced i" "field_ok f i"
proof -
  have none: "schema_issues i = []" and v: "v = coerced i"
    using assms by (auto simp: escrowSchema_def split: if_splits)
  show "v = coerced i" by (rule v)
  have "base_issues i = []" using none by (simp add: schema_issues_def)
  then have "\<not> aborted i" by (auto simp: base_issues_def aborted_def intSchema_def)
  then show "field_ok f i" using issues_of [of i UNIV] none by simp
qed

lemma milestonesSchema_ok:
  "milestonesSchema ms = [] \<longleftrightarrow> 1 \<le> length ms \<and> length ms \<le> 12
     \<and> (\<forall>m\<in>set ms. 4 \<le> length (fm_description m) \<and> re_test AMOUNT_RE (fm_amount m))"
proof -
  have "concat (map (\<lambda>(k, m). milestoneSchema k m) (List.enumerate j ms)) = [] \<longleftrightarrow>
      (\<forall>m\<in>set ms. 4 \<le> length (fm_description m) \<and> re_test AMOUNT_RE (fm_amount m))" for j
    by (induction ms arbitrary: j) (auto simp: milestoneSchema_def)
  then show ?thesis by (auto simp: milestonesSchema_def Suc_le_eq)
qed

lemma accepted_amounts:
  assumes "escrowSchema i = Inr v"
  shows "\<exists>ns. mapR (\<lambda>m. toStroops (fm_amount m)) (fv_milestones v) = Inr ns \<and> (\<forall>n\<in>set ns. 0 \<le> n) \<and> 0 < sum_list ns"
proof -
  let ?ms = "fi_milestones i"
  have v: "fv_milestones v = ?ms" using escrowSchema_ok(1) [OF assms] by (simp add: coerced_def)
  have ok: "milestonesSchema ?ms = []" "total_positive ?ms"
    using escrowSchema_ok(2) [OF assms, of F_milestones] by (simp_all add: field_ok_def)
  have "\<exists>n. toStroops (fm_amount m) = Inr n \<and> 0 \<le> n" if "m \<in> set ?ms" for m
    using ok(1) that toStroops_value amount_shape unfolding milestonesSchema_ok by meson
  then obtain g where g: "\<And>m. m \<in> set ?ms \<Longrightarrow> toStroops (fm_amount m) = Inr (g m) \<and> 0 \<le> g m" by metis
  have "\<exists>m\<in>set ?ms. g m \<noteq> 0"
  proof (rule ccontr)
    assume "\<not> (\<exists>m\<in>set ?ms. g m \<noteq> 0)"
    then have zero: "js_number (Str (fm_amount m)) = Fin 0" if "m \<in> set ?ms" for m
      using zero_amount ok(1) g that unfolding milestonesSchema_ok by fastforce
    have "fold (\<lambda>m sum. num_add sum (js_number (if fm_amount m \<noteq> [] then Str (fm_amount m) else Num (Fin 0)))) ms (Fin 0) = Fin 0"
      if "set ms \<subseteq> set ?ms" for ms
      using that by (induction ms) (auto simp: zero to_double_def simp del: js_number.simps(6))
    then show False using ok(2) by (simp add: total_positive_def)
  qed
  then have "sum_list (map g ?ms) \<noteq> 0" using g by (subst sum_list_nonneg_eq_0_iff) auto
  moreover have "0 \<le> sum_list (map g ?ms)" using g by (intro sum_list_nonneg) auto
  ultimately have "0 < sum_list (map g ?ms)" by simp
  moreover have "mapR (\<lambda>m. toStroops (fm_amount m)) ?ms = Inr (map g ?ms)" using g by (intro mapR_all_ok) simp
  ultimately show ?thesis using g v by auto
qed

lemma form_inputs:
  assumes "mapR (\<lambda>m. toStroops (fm_amount m)) ms = Inr ns"
  shows "\<exists>xs. mapR (form_milestone_input digest) (List.enumerate k ms) = Inr xs \<and> map in_payoutAmount xs = ns
      \<and> list_all2 (\<lambda>(j, m) x. in_milestoneId x = Fin (of_nat (j + 1)) \<and> toStroops (fm_amount m) = Inr (in_payoutAmount x)
           \<and> in_descriptionHash x = HashText (bytesToHex (digest (utf8 (int_dec (int j + 1) @ '':'' @ fm_description m)))))
         (List.enumerate k ms) xs"
  using assms
proof (induction ms arbitrary: k ns)
  case (Cons m ms)
  then obtain n ns' where n: "toStroops (fm_amount m) = Inr n" "mapR (\<lambda>m. toStroops (fm_amount m)) ms = Inr ns'" "ns = n # ns'"
    by (auto simp: bindR_def split: sum.splits)
  from Cons.IH [OF n(2), of "Suc k"] show ?case
    by (auto simp: form_milestone_input_def description_digest_def n add.commute)
qed simp

text \<open>C14: A form the schema accepts is turned into an escrow without an error: between one and twelve
  milestones, one for each of the form's and in its order, numbered from 1, each with its own
  entry's amount as \<open>toStroops\<close> converts it, which is not negative, and the hex digest of its
  number, a colon and its own description; payouts that sum to more than zero; and a recipient other than the
  arbitrator.\<close>

theorem accepted_form_escrow:
  assumes "escrowSchema i = Inr v"
  shows "\<exists>p. form_params digest funder token v = Inr p \<and> ip_funder p = funder \<and> ip_token p = token
     \<and> ip_recipient p = fi_recipient i \<and> ip_arbitrator p = fi_arbitrator i \<and> ip_recipient p \<noteq> ip_arbitrator p
     \<and> 1 \<le> length (ip_milestones p) \<and> length (ip_milestones p) \<le> 12
     \<and> list_all2 (\<lambda>(k, m) x. in_milestoneId x = Fin (of_nat (k + 1)) \<and> toStroops (fm_amount m) = Inr (in_payoutAmount x)
          \<and> in_descriptionHash x = HashText (bytesToHex (digest (utf8 (int_dec (int k + 1) @ '':'' @ fm_description m)))))
         (List.enumerate 0 (fi_milestones i)) (ip_milestones p)
     \<and> list_all (\<lambda>m. 0 \<le> in_payoutAmount m) (ip_milestones p)
     \<and> 0 < sum_list (map in_payoutAmount (ip_milestones p))"
proof -
  have v: "v = coerced i" by (rule escrowSchema_ok(1) [OF assms])
  obtain ns where ns: "mapR (\<lambda>m. toStroops (fm_amount m)) (fi_milestones i) = Inr ns" "\<forall>n\<in>set ns. 0 \<le> n" "0 < sum_list ns"
    using accepted_amounts [OF assms] by (auto simp: v coerced_def)
  from form_inputs [OF ns(1), of digest 0] obtain xs where
    xs: "mapR (form_milestone_input digest) (List.enumerate 0 (fi_milestones i)) = Inr xs" "map in_payoutAmount xs = ns"
      "list_all2 (\<lambda>(k, m) x. in_milestoneId x = Fin (of_nat (k + 1)) \<and> toStroops (fm_amount m) = Inr (in_payoutAmount x)
          \<and> in_descriptionHash x = HashText (bytesToHex (digest (utf8 (int_dec (int k + 1) @ '':'' @ fm_description m)))))
         (List.enumerate 0 (fi_milestones i)) xs"
    by blast
  have len: "length xs = length (fi_milestones i)" using mapR_length [OF xs(1)] by simp
  have "milestonesSchema (fi_milestones i) = []" "fi_recipient i \<noteq> fi_arbitrator i"
    using escrowSchema_ok(2) [OF assms, of F_milestones] escrowSchema_ok(2) [OF assms, of F_arbitrator] by (simp_all add: field_ok_def)
  moreover from this have "1 \<le> length xs" "length xs \<le> 12" unfolding milestonesSchema_ok len by simp_all
  moreover have "list_all (\<lambda>m. 0 \<le> in_payoutAmount m) xs"
    using ns(2) unfolding xs(2) [symmetric] by (simp add: list_all_iff)
  moreover define p :: initialize_params where "p = \<lparr>ip_funder = funder, ip_recipient = fi_recipient i,
      ip_arbitrator = fi_arbitrator i, ip_token = token, ip_milestones = xs\<rparr>"
  moreover have "form_params digest funder token v = Inr p"
    by (simp add: form_params_def v coerced_def xs(1) p_def)
  ultimately show ?thesis using xs(2,3) ns(3) by (intro exI [of _ p]) simp
qed

theorem accepted_form_escrow_witness:
  "\<exists>p. form_params (\<lambda>bs. bs) ''GF'' ''CT'' (coerced (sample_parties\<lparr>fi_tokenContract := []\<rparr>)) = Inr p
     \<and> map in_milestoneId (ip_milestones p) = [Fin 1, Fin 2] \<and> 0 < sum_list (map in_payoutAmount (ip_milestones p))"
proof -
  have "escrowSchema (sample_parties\<lparr>fi_tokenContract := []\<rparr>) = Inr (coerced (sample_parties\<lparr>fi_tokenContract := []\<rparr>))"
    using validate_all [OF sample_fields(2)] by (simp add: escrowSchema_def sample_step contractSchema_def)
  from accepted_form_escrow [OF this, of "\<lambda>bs. bs" "''GF''" "''CT''"] show ?thesis
    by (auto simp: sample_parties_def defaultValues_def list_all2_Cons1)
qed

text \<open>The form accepts what the SDK's own builder refuses: a milestone that pays nothing, and
  addresses with the digits 0, 1, 8 and 9.\<close>

lemma builder_is_stricter:
  "milestonesSchema [\<lparr>fm_description = ''gift'', fm_amount = ''0''\<rparr>] = []"
  "toStroops ''0'' = Inr 0 \<and> toAmount (BigInt 0) l = Inl (astraErr (l @ '' must be greater than zero'') ''ZERO_AMOUNT'')"
  "stellarAccount f (CHR ''G'' # replicate 55 (CHR ''1'')) = []"
  "\<not> is_ok (assertAddress (CHR ''G'' # replicate 55 (CHR ''1'')) l b)"
proof -
  have zero: "re_test AMOUNT_RE ''0''"
    by (simp add: AMOUNT_RE_def re_test_Bol Plus_def reDigit_def mt_Star_Cls mt_Opt is_dec_def)
  then show "milestonesSchema [\<lparr>fm_description = ''gift'', fm_amount = ''0''\<rparr>] = []"
    by (simp add: milestonesSchema_def milestoneSchema_def)
  have "toStroops ''0'' = Inr 0" by code_simp
  then show "toStroops ''0'' = Inr 0 \<and> toAmount (BigInt 0) l = Inl (astraErr (l @ '' must be greater than zero'') ''ZERO_AMOUNT'')"
    by (simp add: toAmount_def)
  let ?a = "CHR ''G'' # replicate 55 (CHR ''1'')"
  show "stellarAccount f ?a = []" by (simp add: stellarAccount_def contract_id_test list_all_iff upper_or_digit_def between_def is_dec_def)
  have "\<not> is_ws (CHR ''1'')" "\<not> is_ws (CHR ''G'')" "\<not> base32_char (CHR ''1'')" by code_simp+
  then have "trim ?a = ?a" "\<not> stellar_address ?a" by (auto simp: list_all_iff stellar_address_def intro!: trim_id)
  then show "\<not> is_ok (assertAddress ?a l b)" by (simp add: assertAddress_eq)
qed

end
