(* ===== verification/Routes.thy ===== *)
theory Routes
  imports JsArith Auth Indexer
begin

text \<open>
  The server's HTTP handlers: apps/server/src/routes/escrows.ts and apps/server/src/routes/auth.ts.
  A reply is its status code and its JSON value; a request is what the zod schemas make of it: the
  parsed query, or the details of what is wrong with it (the schemas are in Schemas). An error of the
  store is not caught by the handlers and stays an error here. Express itself is not modelled.
\<close>

type_synonym reply = "nat \<times> jsval"

section \<open>Escrows\<close>

text \<open>The bigints of an escrow are sent as decimal texts.\<close>

definition escrow_reply :: "indexed_escrow \<Rightarrow> jsval" where
  "escrow_reply e =
     Obj [(''id'', Str (ie_id e)), (''address'', Str (ie_address e)), (''role'', Str (role_text (ie_role e))),
          (''state'', Str (escrow_state_text (ie_state e))), (''lockedBalance'', Str (int_dec (ie_lockedBalance e))),
          (''updatedAt'', Str (ie_updatedAt e)), (''config'', config_object (ie_config e)),
          (''milestones'', Arr (map stored_milestone_object (ie_milestones e)))]"

text \<open>\<open>Math.max(1, Math.ceil(total / pageSize))\<close>\<close>

definition num_ceil :: "jsnum \<Rightarrow> jsnum" where
  "num_ceil n = (case n of Fin q \<Rightarrow> Fin (of_int \<lceil>q\<rceil>) | _ \<Rightarrow> n)"

definition page_count :: "nat \<Rightarrow> int \<Rightarrow> jsnum" where
  "page_count n sz =
     (let c = num_ceil (num_quot (of_nat n) (of_int sz)) in if num_lt c (Fin 1) then Fin 1 else c)"

definition list_reply :: "int \<Rightarrow> int \<Rightarrow> nat \<Rightarrow> indexed_escrow list \<Rightarrow> reply" where
  "list_reply page sz n items =
     (200, Obj [(''page'', Num (Fin (of_int page))), (''pageSize'', Num (Fin (of_int sz))),
                (''total'', Num (Fin (of_nat n))), (''pageCount'', Num (page_count n sz)),
                (''items'', Arr (map escrow_reply items))])"

definition list_route :: "row_order \<Rightarrow> (jsval, list_query) result \<Rightarrow> indexer_db \<Rightarrow> reply js" where
  "list_route order_by parsed db =
     (case parsed of
        Inl details \<Rightarrow> Inr (400, Obj [(''error'', Str ''invalid query''), (''details'', details)])
      | Inr q \<Rightarrow>
          bindR (listEscrows order_by q db) (\<lambda>(items, n, page, sz). Inr (list_reply page sz n items)))"

definition detail_of :: "(jsval, 'a) result \<Rightarrow> jsval" where
  "detail_of r = (case r of Inl d \<Rightarrow> d | Inr _ \<Rightarrow> Undefined)"

definition not_found :: "string \<Rightarrow> reply" where
  "not_found k = (404, Obj [(''error'', Str ''escrow not found''), (''id'', Str k)])"

definition timeline_item :: "timeline_entry \<Rightarrow> jsval" where
  "timeline_item t =
     Obj [(''id'', Num (Fin (of_nat (te_id t)))), (''escrowId'', Str (te_escrowId t)), (''topic'', Str (te_topic t)),
          (''ledger'', case te_ledger t of Some n \<Rightarrow> Num n | None \<Rightarrow> Null),
          (''txHash'', case te_txHash t of Some h \<Rightarrow> Str h | None \<Rightarrow> Null),
          (''payload'', te_payload t), (''createdAt'', Str (te_createdAt t))]"

definition timeline_route :: "(jsval, string) result \<Rightarrow> (jsval, int \<times> int) result \<Rightarrow> indexer_db \<Rightarrow> reply js" where
  "timeline_route idParsed queryParsed db =
     (case (idParsed, queryParsed) of
        (Inr k, Inr (page, sz)) \<Rightarrow>
          bindR (getEscrowById k db) (\<lambda>found.
            case found of
              None \<Rightarrow> Inr (not_found k)
            | Some e \<Rightarrow>
                bindR (getEscrowTimeline k page sz db) (\<lambda>(items, n, page', sz').
                  Inr (200, Obj [(''id'', Str k), (''state'', Str (escrow_state_text (ie_state e))),
                                 (''page'', Num (Fin (of_int page'))), (''pageSize'', Num (Fin (of_int sz'))),
                                 (''total'', Num (Fin (of_nat n))), (''items'', Arr (map timeline_item items))])))
      | _ \<Rightarrow> Inr (400, Obj [(''error'', Str ''invalid timeline request''),
                          (''details'', Obj [(''params'', detail_of idParsed), (''query'', detail_of queryParsed)])]))"

definition is_active :: "indexed_escrow \<Rightarrow> bool" where
  "is_active e = (ie_state e = ES_Active \<or> ie_state e = ES_Disputed)"

definition is_historical :: "indexed_escrow \<Rightarrow> bool" where
  "is_historical e = (ie_state e = ES_Completed \<or> ie_state e = ES_Cancelled)"

definition address_reply :: "string \<Rightarrow> indexed_escrow list \<Rightarrow> jsval" where
  "address_reply a es =
     Obj [(''address'', Str a), (''count'', Num (Fin (of_nat (length es)))),
          (''active'', Arr (map escrow_reply (filter is_active es))),
          (''historical'', Arr (map escrow_reply (filter is_historical es))),
          (''escrows'', Arr (map escrow_reply es))]"

definition escrow_route :: "row_order \<Rightarrow> (jsval, string) result \<Rightarrow> indexer_db \<Rightarrow> reply js" where
  "escrow_route order_by parsed db =
     (case parsed of
        Inl _ \<Rightarrow> Inr (400, Obj [(''error'', Str ''id is required'')])
      | Inr k \<Rightarrow>
          bindR (getEscrowById k db) (\<lambda>exact.
            case exact of
              Some e \<Rightarrow> Inr (200, Obj [(''escrow'', escrow_reply e)])
            | None \<Rightarrow>
                bindR (listEscrowsForAddress order_by k db) (\<lambda>es.
                  Inr (if es = [] then not_found k else (200, address_reply k es)))))"

section \<open>Challenges\<close>

definition error_reply :: "nat \<Rightarrow> string \<Rightarrow> reply" where
  "error_reply c msg = (c, Obj [(''error'', Str msg)])"

definition challenge_object :: "challenge \<Rightarrow> jsval" where
  "challenge_object c =
     Obj [(''publicKey'', Str (ch_publicKey c)), (''nonce'', Str (ch_nonce c)), (''message'', Str (ch_message c)),
          (''expiresAt'', Num (Fin (of_int (ch_expiresAt c))))]"

text \<open>\<open>parsed\<close> is the public key of the query, when it is a text of the form the schema wants.\<close>

definition challenge_route :: "auth_lib \<Rightarrow> network_name \<Rightarrow> int \<Rightarrow> int \<Rightarrow> 8 word list \<Rightarrow> string option
    \<Rightarrow> challenge_table \<Rightarrow> reply \<times> challenge_table" where
  "challenge_route L net t1 t2 random parsed m =
     (case parsed of
        None \<Rightarrow> (error_reply 400 ''valid Stellar publicKey query param is required'', m)
      | Some k \<Rightarrow>
          (case issueStellarChallenge L net t1 t2 random k m of
             (Inr c, m') \<Rightarrow> ((200, challenge_object c), m')
           | (Inl cause, m') \<Rightarrow> (error_reply 400 (err_message cause), m')))"

definition verify_route :: "auth_lib \<Rightarrow> int \<Rightarrow> int \<Rightarrow> jsval \<Rightarrow> challenge_table \<Rightarrow> reply \<times> challenge_table" where
  "verify_route L t1 t2 body m =
     (case requireStellarChallengeBody L t1 t2 body m of
        (Reply c msg, m') \<Rightarrow> (error_reply c msg, m')
      | (Next k, m') \<Rightarrow> ((200, Obj [(''ok'', Bool True), (''publicKey'', opt_str k)]), m'))"

section \<open>Listing\<close>

lemma page_count_ceiling:
  assumes "1 \<le> sz" "sz \<le> 100" "n < 2 ^ 39"
  shows "page_count n sz = Fin (of_int (max 1 \<lceil>rat_of_nat n / of_int sz\<rceil>))"
proof (cases "n = 0")
  case True
  then show ?thesis by (simp add: page_count_def num_quot_def to_double_def num_ceil_def Let_def)
next
  case False
  let ?q = "rat_of_nat n / of_int sz"
  have pos: "0 < ?q" using False assms(1) by simp
  have "?q \<le> rat_of_nat n / 1" using assms(1) by (intro divide_left_mono) simp_all
  moreover have "rat_of_nat n < of_nat (2 ^ 39)" using assms(3) by (simp only: of_nat_less_iff)
  ultimately have lt: "?q < pow2 39" by (simp add: pow2_def)
  obtain r where r: "to_double ?q = Fin r" "\<bar>r - ?q\<bar> \<le> pow2 (max 39 (- 1021) - 54)"
      "\<And>k. ?q \<le> of_int k \<Longrightarrow> r \<le> of_int k"
    by (rule to_double_near [OF pos lt]) (simp, blast)
  let ?c = "\<lceil>?q\<rceil>"
  have hi: "r \<le> of_int ?c" by (rule r(3)) simp
  have "of_int (?c - 1) < ?q" using ceiling_correct [of ?q] by simp
  then have "rat_of_int ((?c - 1) * sz) < rat_of_int (int n)" using assms(1) by (simp add: pos_less_divide_eq)
  then have "(?c - 1) * sz + 1 \<le> int n" by (simp only: of_int_less_iff)
  then have "rat_of_int ((?c - 1) * sz + 1) \<le> rat_of_int (int n)" by (simp only: of_int_le_iff)
  then have "(of_int (?c - 1) * of_int sz + 1) / of_int sz \<le> ?q" using assms(1) by (intro divide_right_mono) simp_all
  then have gap: "of_int (?c - 1) + 1 / of_int sz \<le> ?q" using assms(1) by (simp add: add_divide_distrib)
  have "1 / 100 \<le> 1 / rat_of_int sz" using assms(1,2) by (intro divide_left_mono) simp_all
  moreover have "pow2 (max 39 (- 1021) - 54) = 1 / 2 ^ 15" by (simp add: pow2_def)
  ultimately have "of_int (?c - 1) < r" using gap r(2) by (simp add: abs_le_iff)
  then have "\<lceil>r\<rceil> = ?c" using hi by (intro ceiling_unique) simp_all
  moreover have "1 \<le> ?c" using pos by (simp add: less_ceiling_iff flip: zless_iff_Suc_zadd)
  ultimately show ?thesis by (simp add: page_count_def num_quot_def r(1) num_ceil_def)
qed

lemma list_route_page:
  assumes "cache_list order_by (q\<lparr>lq_page := Some (int i + 1), lq_pageSize := Some sz\<rparr>) db = Inr (items, n)" "1 \<le> sz" "sz \<le> 100"
  shows "list_route order_by (Inr (q\<lparr>lq_page := Some (int i + 1), lq_pageSize := Some sz\<rparr>)) db = Inr (list_reply (int i + 1) sz n items)"
  using assms by (simp add: list_route_def listEscrows_def clamp_page_def clamp_size_def Let_def)

text \<open>The pages 1 to the \<open>pageCount\<close> that is told hold every escrow that matches the query once, the one
  updated last first, and every page states the number of all of them.\<close>

lemma list_route_pages:
  assumes "db_sound db" "sql_order order_by" "1 \<le> sz" "sz \<le> 100"
    and "length (filter (escrow_matches q) (stored_escrows db)) < 2 ^ 39"
  obtains pages es where "map (\<lambda>i. list_route order_by (Inr (q\<lparr>lq_page := Some (int i + 1), lq_pageSize := Some sz\<rparr>)) db) [0..<length pages]
       = map (\<lambda>i. Inr (list_reply (int i + 1) sz (length es) (pages ! i))) [0..<length pages]"
    "page_count (length es) sz = Fin (of_nat (length pages))" "concat pages = map (viewed_as q) es"
    "distinct (map ie_id es)" "set es = {e. cache_get (ie_id e) db = Inr (Some e) \<and> escrow_matches q e}"
    "sorted_wrt (\<lambda>a b. ie_updatedAt b \<le> ie_updatedAt a) es" "length es < 2 ^ 39"
proof -
  obtain es where es: "length es = length (filter (escrow_matches q) (stored_escrows db))" "distinct (map ie_id es)"
      "set es = {e. cache_get (ie_id e) db = Inr (Some e) \<and> escrow_matches q e}"
      "sorted_wrt (\<lambda>a b. ie_updatedAt b \<le> ie_updatedAt a) es"
      "\<And>i sz. 1 \<le> sz \<Longrightarrow> sz \<le> 100 \<Longrightarrow> i * nat sz < 2 ^ 53 \<Longrightarrow>
       cache_list order_by (q\<lparr>lq_page := Some (int i + 1), lq_pageSize := Some sz\<rparr>) db =
         Inr (map (viewed_as q) (take (nat sz) (drop (i * nat sz) es)), length es)"
    by (rule query_result [OF assms(1,2), of q]) (rule that)
  let ?w = "\<lambda>i. map (viewed_as q) (take (nat sz) (drop (i * nat sz) es))"
  let ?c = "max 1 \<lceil>rat_of_nat (length es) / of_int sz\<rceil>"
  define pages where "pages = map ?w [0..<nat ?c]"
  have "rat_of_nat (length es) / of_int sz \<le> of_int ?c" by linarith
  then have "rat_of_int (int (length es)) \<le> of_int (?c * sz)" using assms(3) by (simp add: pos_divide_le_eq)
  then have "int (length es) \<le> ?c * sz" by (simp only: of_int_le_iff)
  also have "?c * sz = int (nat ?c * nat sz)" using assms(3) by simp
  finally have "length es \<le> nat ?c * nat sz" by (simp only: of_nat_le_iff)
  moreover have "0 < nat sz" using assms(3) by simp
  ultimately have "concat (map (\<lambda>i. take (nat sz) (drop (i * nat sz) es)) [0..<nat ?c]) = es"
    using concat_windows [of "nat sz" es "nat ?c"] by simp
  moreover have "concat pages = map (viewed_as q) (concat (map (\<lambda>i. take (nat sz) (drop (i * nat sz) es)) [0..<nat ?c]))"
    by (simp add: pages_def map_concat comp_def)
  ultimately have "concat pages = map (viewed_as q) es" by (simp only:)
  moreover have "page_count (length es) sz = Fin (of_nat (length pages))"
    using page_count_ceiling [OF assms(3,4)] assms(5) es(1) by (simp add: pages_def)
  moreover have "i * nat sz < 2 ^ 53" if "i < nat ?c" for i
  proof -
    have "(?c - 1) * sz \<le> int (length es)"
    proof (cases "?c = 1")
      case False
      then have "?c = \<lceil>rat_of_nat (length es) / of_int sz\<rceil>" by linarith
      then have "rat_of_int (?c - 1) < rat_of_nat (length es) / of_int sz" by (metis less_ceiling_iff diff_less_eq less_add_one)
      then have "rat_of_int (?c - 1) * of_int sz < of_nat (length es)"
        using assms(3) by (simp add: pos_less_divide_eq del: of_int_diff)
      then have "rat_of_int ((?c - 1) * sz) < of_int (int (length es))" by (simp only: of_int_mult of_int_of_nat_eq)
      then show ?thesis by (simp only: of_int_less_iff order.strict_implies_order)
    qed simp
    moreover have "int i * sz \<le> (?c - 1) * sz" using that assms(3) by (intro mult_right_mono) simp_all
    moreover have "int i * sz = int (i * nat sz)" using assms(3) by simp
    ultimately have "i * nat sz \<le> length es" by linarith
    then show ?thesis using assms(5) es(1) by simp
  qed
  then have "list_route order_by (Inr (q\<lparr>lq_page := Some (int i + 1), lq_pageSize := Some sz\<rparr>)) db
      = Inr (list_reply (int i + 1) sz (length es) (?w i))" if "i < nat ?c" for i
    using list_route_page [OF es(5) [OF assms(3,4)] assms(3,4)] that by blast
  then have "map (\<lambda>i. list_route order_by (Inr (q\<lparr>lq_page := Some (int i + 1), lq_pageSize := Some sz\<rparr>)) db) [0..<length pages]
       = map (\<lambda>i. Inr (list_reply (int i + 1) sz (length es) (pages ! i))) [0..<length pages]"
    by (simp add: pages_def)
  ultimately show thesis using es(1-4) assms(5) by (intro that [of pages es]) simp_all
qed

section \<open>One escrow, or those of an address\<close>

lemma listEscrowsForAddress_some:
  assumes "db_sound db" "sql_order order_by" "filter (escrow_matches (address_query a)) (stored_escrows db) \<noteq> []"
  shows "\<exists>es. listEscrowsForAddress order_by a db = Inr es \<and> es \<noteq> []"
proof -
  obtain es where es: "length es = length (filter (escrow_matches (address_query a)) (stored_escrows db))"
      "\<And>i sz. 1 \<le> sz \<Longrightarrow> sz \<le> 100 \<Longrightarrow> i * nat sz < 2 ^ 53 \<Longrightarrow>
       cache_list order_by ((address_query a)\<lparr>lq_page := Some (int i + 1), lq_pageSize := Some sz\<rparr>) db =
         Inr (map (viewed_as (address_query a)) (take (nat sz) (drop (i * nat sz) es)), length es)"
    by (rule query_result [OF assms(1,2), of "address_query a"]) (rule that)
  have "es \<noteq> []" using es(1) assms(3) by auto
  then show ?thesis
    using es(2) [of 100 0] by (simp add: listEscrowsForAddress_def listEscrows_def clamp_page_def clamp_size_def address_query_def Let_def)
qed

lemma escrow_route_demo:
  assumes "store_inv db" "sql_order order_by" "cache_get ''demo-escrow'' db = Inr (Some demo)"
  shows "\<exists>body. escrow_route order_by (Inr k) db = Inr (200, body)
     \<and> (cache_get k db = Inr None \<and> filter (escrow_matches (address_query k)) (stored_escrows db) = [] \<longrightarrow>
          body = address_reply k [demo\<lparr>ie_address := k, ie_role := Funder, ie_config := (ie_config demo)\<lparr>cfg_funder := k\<rparr>\<rparr>])"
proof -
  obtain x where x: "cache_get k db = Inr x" by (rule store_inv_get [OF assms(1), of k])
  have sound: "db_sound db" using assms(1) by (simp add: store_inv_def)
  show ?thesis
  proof (cases x)
    case (Some e)
    then show ?thesis by (simp add: escrow_route_def getEscrowById_def x)
  next
    case None
    show ?thesis
    proof (cases "filter (escrow_matches (address_query k)) (stored_escrows db) = []")
      case True
      then show ?thesis
        using listEscrowsForAddress_none [OF assms(1,2) True assms(3)] None x by (simp add: escrow_route_def getEscrowById_def)
    next
      case False
      then obtain es where "listEscrowsForAddress order_by k db = Inr es" "es \<noteq> []"
        using listEscrowsForAddress_some [OF sound assms(2)] by blast
      then show ?thesis using None x False by (simp add: escrow_route_def getEscrowById_def)
    qed
  qed
qed

lemma run_events_keeps:
  "store_inv db \<Longrightarrow> list_all (\<lambda>(now, ev). event_ok ev) evs \<Longrightarrow> cache_get k db = Inr (Some e) \<Longrightarrow>
     \<exists>e'. cache_get k (run_events evs db) = Inr (Some e')"
proof (induction evs arbitrary: db e)
  case (Cons x evs)
  obtain now ev where x: "x = (now, ev)" by (cases x)
  let ?db = "snd (applyEvent now ev db)"
  have step: "store_inv ?db" "cache_get k ?db =
      (if k = ev_contractId (event_common ev)
       then bindR (cache_get k db) (\<lambda>x. bindR (event_effect ev (or_default x (unknown_escrow k (now 0)))) (\<lambda>e. Inr (Some (e\<lparr>ie_updatedAt := now 1\<rparr>))))
       else cache_get k db)"
    using applyEvent_step [OF Cons.prems(1), of ev now] Cons.prems(2) by (simp_all add: x)
  obtain y where y: "cache_get k ?db = Inr y" by (rule store_inv_get [OF step(1), of k])
  then have "\<exists>e'. y = Some e'" using step(2) Cons.prems(3) by (auto simp: bindR_Inr_iff split: if_splits)
  then show ?case using Cons.IH [OF step(1)] Cons.prems(2) y by (auto simp: run_events_def x)
qed (simp add: run_events_def)

text \<open>\<open>GET /api/escrows/:id\<close> never answers that there is no such escrow: a fresh store holds the demo
  escrow, no event removes it, and an id or address that no stored escrow has anything to do with
  is answered, with status 200, by the demo escrow with that address as its funder.\<close>

theorem escrow_route_never_404:
  assumes "list_all (\<lambda>(now, ev). event_ok ev) evs" "sql_order order_by"
  shows "let db = run_events evs (new_cache now0 empty_db) in
     \<exists>body demo. escrow_route order_by (Inr k) db = Inr (200, body) \<and> cache_get ''demo-escrow'' db = Inr (Some demo)
     \<and> (cache_get k db = Inr None \<and> filter (escrow_matches (address_query k)) (stored_escrows db) = [] \<longrightarrow>
          body = address_reply k [demo\<lparr>ie_address := k, ie_role := Funder, ie_config := (ie_config demo)\<lparr>cfg_funder := k\<rparr>\<rparr>])"
proof -
  let ?db = "run_events evs (new_cache now0 empty_db)"
  have "cache_get (ie_id (seedEscrow now0)) (cache_upsert (seedEscrow now0) empty_db) = Inr (Some (seedEscrow now0))"
    using escrows.read_store [OF db_sound_empty [unfolded db_sound_def] seed_storable] by (simp add: cache_get_read cache_upsert_store)
  moreover have "ie_id (seedEscrow now0) = ''demo-escrow''" by (simp add: seedEscrow_def)
  moreover have "new_cache now0 empty_db = cache_upsert (seedEscrow now0) empty_db" by (simp add: new_cache_def empty_db_def)
  ultimately have "\<exists>e. cache_get ''demo-escrow'' (new_cache now0 empty_db) = Inr (Some e)" by simp
  then obtain demo where demo: "cache_get ''demo-escrow'' ?db = Inr (Some demo)"
    using run_events_keeps [OF store_inv_new_cache assms(1)] by blast
  have "store_inv ?db" using run_events_inv [OF store_inv_new_cache assms(1)] by simp
  from escrow_route_demo [OF this assms(2) demo, of k] demo show ?thesis by (auto simp: Let_def)
qed

theorem escrow_route_never_404_witness:
  "\<exists>body. escrow_route stable_order (Inr ''GNOBODY'') (run_events [(sample_clock, sample_release ''CX'')] (new_cache ''now'' empty_db)) = Inr (200, body)"
proof -
  have "list_all (\<lambda>(now, ev). event_ok ev) [(sample_clock, sample_release ''CX'')]"
    by (simp add: sample_release_def event_ok_def)
  from escrow_route_never_404 [OF this sql_order_stable, of "''now''" "''GNOBODY''"] show ?thesis by (auto simp: Let_def)
qed

section \<open>Signing in\<close>

text \<open>A request that does not touch the challenge under \<open>key\<close>, made before the challenge expires.\<close>

definition other_request :: "string \<Rightarrow> int \<Rightarrow> auth_request \<Rightarrow> bool" where
  "other_request key expiry req =
     (case req of
        Issue t1 _ random k \<Rightarrow> t1 < expiry \<and> challenge_key k (bytesToHex random) \<noteq> key
      | Verify t1 _ k nonce _ \<Rightarrow> t1 < expiry \<and> challenge_key k nonce \<noteq> key)"

lemma prune_keeps_live:
  assumes "jm_wf m" "jm_get key m = Some r" "challenge_live t r" "length m \<le> MAX_CHALLENGES"
  shows "jm_get key (pruneChallenges t m) = Some r \<and> length (pruneChallenges t m) \<le> length m"
proof -
  have "length (filter (\<lambda>e. challenge_live t (snd e)) m) \<le> MAX_CHALLENGES"
    using assms(4) length_filter_le [of "\<lambda>e. challenge_live t (snd e)" m] by linarith
  then have "pruneChallenges t m = filter (\<lambda>e. challenge_live t (snd e)) m" by (rule challenges.prune_keeps [OF assms(1)])
  then show ?thesis using assms(2,3) by (simp add: jm_get_filter [OF assms(1)])
qed

lemma prune_shorter: "length (pruneChallenges t m) \<le> length m"
  by (simp add: prune_filter Let_def)

lemma auth_step_length: "length (auth_step L net req m) \<le> Suc (length m)"
proof -
  have set: "length (jm_set k r m') \<le> Suc (length m')" for k r and m' :: challenge_table
    by (induction k r m' rule: jm_set.induct) auto
  show ?thesis
  proof (cases req)
    case (Issue t1 t2 random k)
    then show ?thesis
      using set [of _ _ "pruneChallenges t1 m"] prune_shorter [of t1 m]
      by (auto simp: auth_step_def issue_table split: option.split intro: le_trans)
  next
    case (Verify t1 t2 k nonce sig)
    have "length (jm_delete (challenge_key k nonce) (pruneChallenges t1 m)) \<le> length (pruneChallenges t1 m)"
      by (simp add: jm_delete_def)
    then have "length (jm_delete (challenge_key k nonce) (pruneChallenges t1 m)) \<le> Suc (length m)"
        "length (pruneChallenges t1 m) \<le> Suc (length m)"
      using prune_shorter [of t1 m] by linarith+
    then show ?thesis using verify_table [of L t1 t2 k nonce sig m] by (auto simp: auth_step_def Verify)
  qed
qed

lemma auth_run_length: "length (auth_run L net reqs m) \<le> length m + length reqs"
proof (induction reqs arbitrary: m)
  case (Cons req reqs)
  have "length (auth_run L net reqs (auth_step L net req m)) \<le> length (auth_step L net req m) + length reqs" by (rule Cons.IH)
  then show ?case using auth_step_length [of L net req m] by (simp add: auth_run_def)
qed (simp add: auth_run_def)

lemma other_step:
  assumes "jm_wf m" "jm_get key m = Some r" "\<not> ch_consumed r" "length m \<le> MAX_CHALLENGES" "other_request key (ch_expiresAt r) req"
  shows "jm_get key (auth_step L net req m) = Some r"
proof (cases req)
  case (Issue t1 t2 random k)
  then show ?thesis
    using prune_keeps_live [OF assms(1,2), of t1] assms(2-5)
    by (auto simp: auth_step_def issue_table other_request_def challenge_live_def jm_get_set issued_by_def)
next
  case (Verify t1 t2 k nonce sig)
  then show ?thesis
    using prune_keeps_live [OF assms(1,2), of t1] assms(3-5) verify_table [of L t1 t2 k nonce sig m]
    by (auto simp: auth_step_def other_request_def challenge_live_def jm_get_delete)
qed

lemma other_run:
  "jm_wf m \<Longrightarrow> jm_get key m = Some r \<Longrightarrow> \<not> ch_consumed r \<Longrightarrow> length m + length reqs \<le> MAX_CHALLENGES \<Longrightarrow>
     list_all (other_request key (ch_expiresAt r)) reqs \<Longrightarrow> jm_get key (auth_run L net reqs m) = Some r"
proof (induction reqs arbitrary: m)
  case (Cons req reqs)
  have "jm_get key (auth_step L net req m) = Some r" using Cons.prems by (intro other_step) simp_all
  then show ?case
    using Cons.IH [of "auth_step L net req m"] auth_step_wf [OF Cons.prems(1), of L net req] auth_step_length [of L net req m] Cons.prems(3-5)
    by (simp add: auth_run_def)
qed (simp add: auth_run_def)

lemma bytesToHex_Nil_iff [simp]: "bytesToHex bs = [] \<longleftrightarrow> bs = []"
proof
  assume "bytesToHex bs = []"
  then have "buffer_from_hex [] = bs" using buffer_from_bytesToHex [of bs] by simp
  then show "bs = []" by simp
qed (simp add: bytesToHex_def)

definition sign_in_body :: "challenge \<Rightarrow> string \<Rightarrow> jsval" where
  "sign_in_body c sig = Obj [(''publicKey'', Str (ch_publicKey c)), (''nonce'', Str (ch_nonce c)), (''signature'', Str sig)]"

text \<open>C17: A wallet can sign in: the challenge route answers a key it can parse with a challenge, and
  whoever sends a good signature of its message back before it expires is told \<open>ok\<close> with that key,
  whatever other requests come between, as long as fewer requests than the table holds were made.\<close>

theorem sign_in_succeeds:
  assumes "is_ok (al_key L k)" "k \<noteq> []" "random \<noteq> []" "length reqs + length others < MAX_CHALLENGES"
  shows "\<exists>c m. challenge_route L net t1 t2 random (Some k) (auth_run L net reqs []) = ((200, challenge_object c), m)
     \<and> ch_publicKey c = k \<and> ch_expiresAt c = t2 + CHALLENGE_TTL_MS
     \<and> (\<forall>sig t3 t4. sig \<noteq> [] \<and> length (decodeSignature sig) = 64 \<and> al_verify L k (utf8 (ch_message c)) (decodeSignature sig)
          \<and> t3 < ch_expiresAt c \<and> t4 < ch_expiresAt c
          \<and> list_all (other_request (challenge_key k (ch_nonce c)) (ch_expiresAt c)) others \<longrightarrow>
        fst (verify_route L t3 t4 (sign_in_body c sig) (auth_run L net others m)) =
          (200, Obj [(''ok'', Bool True), (''publicKey'', Str k)]))"
proof -
  let ?m0 = "auth_run L net reqs []"
  let ?nonce = "bytesToHex random"
  let ?key = "challenge_key k ?nonce"
  define r where "r = new_challenge net k ?nonce (t2 + CHALLENGE_TTL_MS)"
  define c where "c = challenge.truncate r"
  define m where "m = jm_set ?key r (pruneChallenges t1 ?m0)"
  obtain u where u: "al_key L k = Inr u" using assms(1) by (cases "al_key L k") simp_all
  have c: "ch_publicKey c = k" "ch_nonce c = ?nonce" "ch_expiresAt c = t2 + CHALLENGE_TTL_MS" "ch_message c = ch_message r"
      "ch_expiresAt r = ch_expiresAt c" "\<not> ch_consumed r"
    by (simp_all add: c_def r_def new_challenge_def challenge.truncate_def)
  have route: "challenge_route L net t1 t2 random (Some k) ?m0 = ((200, challenge_object c), m)"
    by (simp add: challenge_route_def issueStellarChallenge_def u Let_def c_def m_def r_def)
  have wf0: "jm_wf ?m0" using auth_run_wf [of "[]" L net reqs] by simp
  have wf: "jm_wf m" unfolding m_def by (intro jm_wf_set challenges.prune_wf wf0)
  have get: "jm_get ?key m = Some r" by (simp add: m_def jm_get_set)
  have "m = auth_step L net (Issue t1 t2 random k) ?m0"
    by (simp add: auth_step_def issueStellarChallenge_def u Let_def m_def r_def)
  then have len: "length m + length others \<le> MAX_CHALLENGES"
    using auth_step_length [of L net "Issue t1 t2 random k" ?m0] auth_run_length [of L net reqs "[]"] assms(4) by simp
  have nonce: "?nonce \<noteq> []" using assms(3) by simp
  have "fst (verify_route L t3 t4 (sign_in_body c sig) (auth_run L net others m)) = (200, Obj [(''ok'', Bool True), (''publicKey'', Str k)])"
    if h: "sig \<noteq> []" "length (decodeSignature sig) = 64" "al_verify L k (utf8 (ch_message c)) (decodeSignature sig)"
      "t3 < ch_expiresAt c" "t4 < ch_expiresAt c" "list_all (other_request (challenge_key k (ch_nonce c)) (ch_expiresAt c)) others" for sig t3 t4
  proof -
    let ?m1 = "auth_run L net others m"
    have g1: "jm_get ?key ?m1 = Some r" using other_run [OF wf get c(6) len, of L net] h(6) by (simp add: c)
    have wf1: "jm_wf ?m1" by (rule auth_run_wf [OF wf])
    have "length ?m1 \<le> MAX_CHALLENGES" using auth_run_length [of L net others m] len by linarith
    then have "jm_get ?key (pruneChallenges t3 ?m1) = Some r"
      using prune_keeps_live [OF wf1 g1, of t3] h(4) c by (simp add: challenge_live_def)
    then have "fst (verifyStellarChallenge L t3 t4 k ?nonce sig ?m1) = Inr ()"
      using h c u by (simp add: verifyStellarChallenge_def Let_def)
    then show ?thesis
      using h(1) assms(2) nonce c(1,2)
      by (cases "verifyStellarChallenge L t3 t4 k ?nonce sig ?m1")
        (simp add: verify_route_def requireStellarChallengeBody_def sign_in_body_def body_text_def auth_reply_def opt_str_def Let_def)
  qed
  then show ?thesis using route c by blast
qed

theorem sign_in_succeeds_witness:
  "\<exists>c m. challenge_route sample_auth Testnet 0 0 [7] (Some ''GA'') (auth_run sample_auth Testnet [] []) = ((200, challenge_object c), m)
     \<and> fst (verify_route sample_auth 1 2 (sign_in_body c sample_signature) (auth_run sample_auth Testnet [Issue 1 1 [8] ''GA''] m))
         = (200, Obj [(''ok'', Bool True), (''publicKey'', Str ''GA'')])"
proof -
  have ok: "is_ok (al_key sample_auth ''GA'')" "length [] + length [Issue 1 1 [8] ''GA''] < MAX_CHALLENGES"
    by (simp_all add: sample_auth_def MAX_CHALLENGES_def)
  obtain c m where c: "challenge_route sample_auth Testnet 0 0 [7] (Some ''GA'') (auth_run sample_auth Testnet [] []) = ((200, challenge_object c), m)"
      "ch_publicKey c = ''GA''" "ch_expiresAt c = 0 + CHALLENGE_TTL_MS"
      "\<And>sig t3 t4. sig \<noteq> [] \<and> length (decodeSignature sig) = 64 \<and> al_verify sample_auth ''GA'' (utf8 (ch_message c)) (decodeSignature sig)
          \<and> t3 < ch_expiresAt c \<and> t4 < ch_expiresAt c
          \<and> list_all (other_request (challenge_key ''GA'' (ch_nonce c)) (ch_expiresAt c)) [Issue 1 1 [8] ''GA''] \<Longrightarrow>
        fst (verify_route sample_auth t3 t4 (sign_in_body c sig) (auth_run sample_auth Testnet [Issue 1 1 [8] ''GA''] m)) =
          (200, Obj [(''ok'', Bool True), (''publicKey'', Str ''GA'')])"
    using sign_in_succeeds [OF ok(1) _ _ ok(2), of "[7]" Testnet 0 0] by auto
  have "ch_nonce c = bytesToHex [7]"
    using c(1) by (auto simp: challenge_route_def issueStellarChallenge_def sample_auth_def challenge_object_def new_challenge_def
        challenge.truncate_def Let_def)
  moreover have "sample_signature \<noteq> []" "decodeSignature sample_signature = replicate 64 1"
    by (simp_all add: sample_signature_def decodeSignature_hex)
  moreover have "challenge_key ''GA'' (bytesToHex [8]) \<noteq> challenge_key ''GA'' (bytesToHex [7])"
    by (auto simp: challenge_key_def dest!: arg_cong [where f = buffer_from_hex] simp: buffer_from_bytesToHex)
  ultimately show ?thesis
    using c(1,3) c(4) [of sample_signature 1 2] by (auto simp: sample_auth_def other_request_def CHALLENGE_TTL_MS_def)
qed

end
