(* ===== verification/Attestation.thy ===== *)
theory Attestation
  imports Client Auth
begin

text \<open>
  apps/server/src/services/attestation.ts and apps/server/src/routes/attestation.ts: the check
  of an off-chain attestation and the endpoint that answers it with an approval of the
  milestone. Parsing a public key is a parameter; the schema of the body is in Schemas.
\<close>

datatype attestor_role = AR_funder | AR_recipient | AR_arbitrator | AR_attestor

record attestation_signer =
  as_publicKey :: string
  as_signature :: string
  as_role :: attestor_role

record attestation =
  at_escrowAddress :: string
  at_milestoneId :: jsnum
  at_proofHash :: string
  at_signers :: "attestation_signer list"
  at_payload :: string

record attestation_result =
  ar_valid :: bool
  ar_thresholdMet :: bool
  ar_signers :: "string list"
  ar_errors :: "string list"

definition looksLikeSignature :: "string \<Rightarrow> bool" where
  "looksLikeSignature v = (re_test ANY_HEX_RE v \<and> 64 \<le> length v)"

text \<open>One turn of the loop over the signers: the errors, and the keys in order of insertion.\<close>

definition check_signer :: "(string \<Rightarrow> bool) \<Rightarrow> attestation_signer \<Rightarrow> string list \<times> string list \<Rightarrow> string list \<times> string list" where
  "check_signer valid_key s st =
     (case st of (errors, unique) \<Rightarrow>
        if \<not> valid_key (as_publicKey s) then (errors @ [''invalid public key: '' @ as_publicKey s], unique)
        else if \<not> looksLikeSignature (as_signature s) then (errors @ [''malformed signature for '' @ as_publicKey s], unique)
        else (errors, if as_publicKey s \<in> set unique then unique else unique @ [as_publicKey s]))"

definition verifyAttestation :: "(string \<Rightarrow> bool) \<Rightarrow> attestation \<Rightarrow> attestation_result" where
  "verifyAttestation valid_key input =
     (case fold (check_signer valid_key) (at_signers input) ([], []) of (errors, unique) \<Rightarrow>
        \<lparr>ar_valid = (errors = []), ar_thresholdMet = (2 \<le> length unique \<and> errors = []),
         ar_signers = unique, ar_errors = errors\<rparr>)"

section \<open>The endpoint\<close>

datatype approval = Queued string | Approval string string jsnum

datatype attestation_reply =
    Invalid_Payload
  | Rejected attestation_result
  | Accepted attestation_result approval

text \<open>\<open>parsed\<close> is what \<open>attestationSchema.safeParse\<close> gives; \<open>env\<close> the contract, network and RPC URL configured.\<close>

definition attestation_endpoint :: "('sc, 'tx) soroban \<Rightarrow> (string \<Rightarrow> bool) \<Rightarrow> string option \<times> network_name \<times> string option
    \<Rightarrow> attestation option \<Rightarrow> attestation_reply js" where
  "attestation_endpoint B valid_key env parsed =
     (case parsed of
        None \<Rightarrow> Inr Invalid_Payload
      | Some input \<Rightarrow>
          let verification = verifyAttestation valid_key input in
          if \<not> ar_valid verification \<or> \<not> ar_thresholdMet verification then Inr (Rejected verification)
          else (case env of (contract, network, rpcUrl) \<Rightarrow>
            if or_default contract [] \<noteq> []
            then bindR (new_client B \<lparr>co_contractId = or_default contract [], co_network = Some network, co_rpcUrl = rpcUrl,
                     co_networkPassphrase = None\<rparr>) (\<lambda>client.
                 bindR (approveMilestone (sb_stellar B) client (at_milestoneId input)) (\<lambda>tx.
                   Inr (Accepted verification (Approval (bi_method tx) (bi_contractId tx) (at_milestoneId input)))))
            else Inr (Accepted verification
              (Queued ''ESCROW_CONTRACT_ID is not configured; attestation accepted without broadcast''))))"

section \<open>What is checked\<close>

definition signer_ok :: "(string \<Rightarrow> bool) \<Rightarrow> attestation_signer \<Rightarrow> bool" where
  "signer_ok valid_key s = (valid_key (as_publicKey s) \<and> list_all is_hex (as_signature s) \<and> 64 \<le> length (as_signature s))"

lemma looksLikeSignature_iff: "looksLikeSignature v \<longleftrightarrow> list_all is_hex v \<and> 64 \<le> length v"
  unfolding looksLikeSignature_def ANY_HEX_RE_def test_plus_run any_hex_class by auto

lemma check_signer_simp:
  "check_signer valid_key s (errors, unique) =
     (if signer_ok valid_key s then (errors, if as_publicKey s \<in> set unique then unique else unique @ [as_publicKey s])
      else (errors @ [if valid_key (as_publicKey s) then ''malformed signature for '' @ as_publicKey s
                      else ''invalid public key: '' @ as_publicKey s], unique))"
  by (simp add: check_signer_def signer_ok_def looksLikeSignature_iff)

lemma check_signers:
  assumes "distinct unique" "fold (check_signer valid_key) ss (errors, unique) = (errors', unique')"
  shows "length errors' = length errors + length (filter (\<lambda>s. \<not> signer_ok valid_key s) ss)
     \<and> distinct unique' \<and> set unique' = set unique \<union> as_publicKey ` set (filter (signer_ok valid_key) ss)"
  using assms
proof (induction ss arbitrary: errors unique)
  case (Cons s ss)
  show ?case
  proof (cases "signer_ok valid_key s")
    case True
    with Cons.prems Cons.IH [of "if as_publicKey s \<in> set unique then unique else unique @ [as_publicKey s]" errors]
    show ?thesis by (auto simp: check_signer_simp split: if_splits)
  next
    case False
    with Cons.prems show ?thesis using Cons.IH [OF Cons.prems(1)] by (force simp: check_signer_simp)
  qed
qed simp

text \<open>C21: An attestation passes exactly when every signer's key parses and every signature is at least
  64 hex digits, and two different keys occur. The escrow, milestone, proof hash and payload play
  no part: no signature is checked against anything.\<close>

theorem attestation_threshold:
  "ar_valid (verifyAttestation valid_key input) \<and> ar_thresholdMet (verifyAttestation valid_key input) \<longleftrightarrow>
     list_all (signer_ok valid_key) (at_signers input) \<and> 2 \<le> card (as_publicKey ` set (at_signers input))"
proof -
  obtain errors unique where f: "fold (check_signer valid_key) (at_signers input) ([], []) = (errors, unique)" by fastforce
  from check_signers [OF _ f] have c: "length errors = length (filter (\<lambda>s. \<not> signer_ok valid_key s) (at_signers input))"
      "distinct unique" "set unique = as_publicKey ` set (filter (signer_ok valid_key) (at_signers input))" by simp_all
  have e: "errors = [] \<longleftrightarrow> list_all (signer_ok valid_key) (at_signers input)"
    using c(1) by (metis (no_types, lifting) filter_empty_conv length_0_conv list_all_iff)
  have "length unique = card (as_publicKey ` set (at_signers input))" if "errors = []"
  proof -
    have "filter (signer_ok valid_key) (at_signers input) = at_signers input"
      using e that by (simp add: list_all_iff)
    then show ?thesis using c(2,3) by (metis distinct_card)
  qed
  then show ?thesis using e by (auto simp: verifyAttestation_def f)
qed

end
