(* ===== verification/App.thy ===== *)
theory App
  imports Routes GitHub Attestation
begin

text \<open>
  apps/server/src/app.ts: the server as one function from a request and the server's state to a reply
  and a state, with the paths and the order of the middlewares, and \<open>parsePayload\<close> of
  apps/server/src/routes/webhooks.ts. A request holds what Express and zod make of it; under
  \<open>/api/webhooks\<close> the body is a Buffer when its content type is application/json, else there is none.
\<close>

section \<open>Requests\<close>

record server =
  se_db :: indexer_db
  se_challenges :: challenge_table

record ('sc, 'tx) app =
  ap_lib :: auth_lib
  ap_secret :: string
  ap_env :: server_env
  ap_stellar :: "('sc, 'tx) soroban"
  ap_digest :: "8 word list \<Rightarrow> 8 word list"
  ap_order :: row_order
  ap_parse :: "8 word list \<Rightarrow> pull_request_event js"

text \<open>The readings of the clock while a request is handled, and its random bytes.\<close>

record moment =
  mo_iso :: "nat \<Rightarrow> string"
  mo_millis :: int
  mo_later :: int
  mo_random :: "8 word list"

datatype request =
    Post_GitHub "8 word list option" "string option" "string option"
  | Get_Healthz
  | Get_Challenge "string option"
  | Post_Verify jsval
  | Get_Escrows "(jsval, list_query) result"
  | Get_Timeline "(jsval, string) result" "(jsval, int \<times> int) result"
  | Get_Escrow "(jsval, string) result"
  | Post_Attestation "attestation option"
  | Other_Path

datatype app_reply =
    Json reply
  | Webhook webhook_reply
  | Attested attestation_reply
  | Express_Error js_error
  | No_Route

definition app_result :: "('a \<Rightarrow> app_reply) \<Rightarrow> 'a js \<Rightarrow> app_reply" where
  "app_result f r = (case r of Inl e \<Rightarrow> Express_Error e | Inr x \<Rightarrow> f x)"

text \<open>Without a raw body \<open>req.body\<close> is undefined: the handler reads \<open>{}\<close>, of which every field is missing.\<close>

definition parsePayload :: "('sc, 'tx) app \<Rightarrow> 8 word list option \<Rightarrow> pull_request_event js" where
  "parsePayload A body =
     (case body of
        Some bs \<Rightarrow> ap_parse A bs
      | None \<Rightarrow> Inr \<lparr>pe_action = [], pe_full_name = [], pe_pull_request = None\<rparr>)"

definition raw_value :: "8 word list option \<Rightarrow> jsval" where
  "raw_value body = (case body of Some bs \<Rightarrow> Bytes bs | None \<Rightarrow> Undefined)"

definition post_github :: "('sc, 'tx) app \<Rightarrow> moment \<Rightarrow> 8 word list option \<Rightarrow> string option \<Rightarrow> string option
    \<Rightarrow> server \<Rightarrow> app_reply \<times> server" where
  "post_github A t body signature event s =
     (case githubWebhookAuth (ap_lib A) (ap_secret A) (raw_value body) signature of
        Inl e \<Rightarrow> (Express_Error e, s)
      | Inr (Reply c msg) \<Rightarrow> (Json (error_reply c msg), s)
      | Inr (Next _) \<Rightarrow>
          (case github_webhook (ap_stellar A) (ap_digest A) (ap_order A) (mo_iso t) (mo_millis t) (ap_env A) event
                  (parsePayload A body) (se_db s) of
             (r, db) \<Rightarrow> (app_result Webhook r, s\<lparr>se_db := db\<rparr>)))"

definition handle :: "('sc, 'tx) app \<Rightarrow> moment \<times> request \<Rightarrow> server \<Rightarrow> app_reply \<times> server" where
  "handle A tr s =
     (case tr of (t, req) \<Rightarrow>
        case req of
          Post_GitHub body signature event \<Rightarrow> post_github A t body signature event s
        | Get_Healthz \<Rightarrow> (Json (200, Obj [(''ok'', Bool True), (''service'', Str ''astra-flow-indexer'')]), s)
        | Get_Challenge k \<Rightarrow>
            (case challenge_route (ap_lib A) (sv_STELLAR_NETWORK (ap_env A)) (mo_millis t) (mo_later t) (mo_random t) k (se_challenges s) of
               (r, m) \<Rightarrow> (Json r, s\<lparr>se_challenges := m\<rparr>))
        | Post_Verify body \<Rightarrow>
            (case verify_route (ap_lib A) (mo_millis t) (mo_later t) body (se_challenges s) of
               (r, m) \<Rightarrow> (Json r, s\<lparr>se_challenges := m\<rparr>))
        | Get_Escrows q \<Rightarrow> (app_result Json (list_route (ap_order A) q (se_db s)), s)
        | Get_Timeline k q \<Rightarrow> (app_result Json (timeline_route k q (se_db s)), s)
        | Get_Escrow k \<Rightarrow> (app_result Json (escrow_route (ap_order A) k (se_db s)), s)
        | Post_Attestation parsed \<Rightarrow>
            (app_result Attested (attestation_endpoint (ap_stellar A) (\<lambda>k. is_ok (al_key (ap_lib A) k))
               (sv_ESCROW_CONTRACT_ID (ap_env A), sv_STELLAR_NETWORK (ap_env A), sv_SOROBAN_RPC_URL (ap_env A)) parsed), s)
        | Other_Path \<Rightarrow> (No_Route, s))"

text \<open>What the server receives: contract events through the watcher's handler, and requests.\<close>

datatype input = On_Event "nat \<Rightarrow> string" astra_event | On_Request moment request

definition receive :: "('sc, 'tx) app \<Rightarrow> input \<Rightarrow> server \<Rightarrow> server" where
  "receive A i s =
     (case i of
        On_Event now ev \<Rightarrow> s\<lparr>se_db := snd (applyEvent now ev (se_db s))\<rparr>
      | On_Request t req \<Rightarrow> snd (handle A (t, req) s))"

definition serve :: "('sc, 'tx) app \<Rightarrow> input list \<Rightarrow> server \<Rightarrow> server" where
  "serve A ins s = fold (receive A) ins s"

section \<open>What can change the store\<close>

definition signed_merge :: "('sc, 'tx) app \<Rightarrow> request \<Rightarrow> bool" where
  "signed_merge A req =
     (case req of
        Post_GitHub body signature event \<Rightarrow>
          (case asRawBody (raw_value body) of
             Inl _ \<Rightarrow> False
           | Inr raw \<Rightarrow> verifyGitHubHmac (ap_lib A) raw signature (ap_secret A))
          \<and> event = Some ''pull_request''
          \<and> (case parsePayload A body of Inl _ \<Rightarrow> False | Inr payload \<Rightarrow> extractMergedPullRequest payload \<noteq> None)
      | _ \<Rightarrow> False)"

definition writes :: "('sc, 'tx) app \<Rightarrow> input \<Rightarrow> bool" where
  "writes A i = (case i of On_Event _ _ \<Rightarrow> True | On_Request _ req \<Rightarrow> signed_merge A req)"

definition is_auth :: "request \<Rightarrow> bool" where
  "is_auth req = (case req of Get_Challenge _ \<Rightarrow> True | Post_Verify _ \<Rightarrow> True | _ \<Rightarrow> False)"

lemma post_github_store:
  "se_db (snd (post_github A t body signature event s)) =
     (if signed_merge A (Post_GitHub body signature event)
      then snd (github_webhook (ap_stellar A) (ap_digest A) (ap_order A) (mo_iso t) (mo_millis t) (ap_env A) event
             (parsePayload A body) (se_db s))
      else se_db s)"
  "se_challenges (snd (post_github A t body signature event s)) = se_challenges s"
proof -
  have none: "snd (github_webhook B digest ord now millis env event parsed db) = db"
    if "event \<noteq> Some ''pull_request'' \<or> (case parsed of Inl _ \<Rightarrow> True | Inr payload \<Rightarrow> extractMergedPullRequest payload = None)"
    for B digest ord now millis env and parsed :: "pull_request_event js" and db
    using that by (cases event; cases parsed) (auto simp: github_webhook_def Let_def)
  show "se_db (snd (post_github A t body signature event s)) =
     (if signed_merge A (Post_GitHub body signature event)
      then snd (github_webhook (ap_stellar A) (ap_digest A) (ap_order A) (mo_iso t) (mo_millis t) (ap_env A) event
             (parsePayload A body) (se_db s))
      else se_db s)"
    using none [of "parsePayload A body"]
    by (cases "asRawBody (raw_value body)"; cases "parsePayload A body")
      (auto simp: post_github_def githubWebhookAuth_def bindR_def signed_merge_def case_prod_beta)
  show "se_challenges (snd (post_github A t body signature event s)) = se_challenges s"
    by (simp add: post_github_def split: sum.split auth_outcome.split prod.split)
qed

lemma handle_store:
  "\<not> signed_merge A req \<Longrightarrow> se_db (snd (handle A (t, req) s)) = se_db s"
  "se_db s = se_db s' \<Longrightarrow> se_db (snd (handle A (t, req) s)) = se_db (snd (handle A (t, req) s'))"
  "\<not> is_auth req \<Longrightarrow> se_challenges (snd (handle A (t, req) s)) = se_challenges s"
  "se_challenges s = se_challenges s' \<Longrightarrow> se_challenges (snd (handle A (t, req) s)) = se_challenges (snd (handle A (t, req) s'))"
proof -
  show "\<not> signed_merge A req \<Longrightarrow> se_db (snd (handle A (t, req) s)) = se_db s"
    by (cases req) (simp_all add: handle_def post_github_store case_prod_beta)
  show "\<not> is_auth req \<Longrightarrow> se_challenges (snd (handle A (t, req) s)) = se_challenges s"
    by (cases req) (simp_all add: handle_def post_github_store case_prod_beta is_auth_def)
  show "se_db s = se_db s' \<Longrightarrow> se_db (snd (handle A (t, req) s)) = se_db (snd (handle A (t, req) s'))"
    by (cases req) (simp_all add: handle_def post_github_store case_prod_beta)
  show "se_challenges s = se_challenges s' \<Longrightarrow> se_challenges (snd (handle A (t, req) s)) = se_challenges (snd (handle A (t, req) s'))"
    by (cases req) (simp_all add: handle_def post_github_store case_prod_beta)
qed

text \<open>What a fold leaves of \<open>f\<close> depends only on the elements that can change it.\<close>

lemma fold_relevant:
  assumes "\<And>x s. \<not> P x \<Longrightarrow> f (step x s) = f s" "\<And>x s s'. f s = f s' \<Longrightarrow> f (step x s) = f (step x s')"
  shows "f s = f s' \<Longrightarrow> f (fold step xs s) = f (fold step (filter P xs) s')"
proof (induction xs arbitrary: s s')
  case (Cons x xs)
  show ?case
  proof (cases "P x")
    case True
    then show ?thesis using Cons.IH [OF assms(2) [OF Cons.prems]] by simp
  next
    case False
    then have "f (step x s) = f s'" using assms(1) Cons.prems by simp
    from Cons.IH [OF this] show ?thesis using False by simp
  qed
qed simp

definition is_sign_in :: "input \<Rightarrow> bool" where
  "is_sign_in i = (case i of On_Event _ _ \<Rightarrow> False | On_Request _ req \<Rightarrow> is_auth req)"

text \<open>C7: Only contract events and signed merge events of GitHub have an influence on the stored escrows and
  their timeline: without all other requests the store would be the same, whatever they are and
  however they are mixed with the events. In the same way only the requests under \<open>/api/auth\<close>
  reach the challenges.\<close>

theorem store_noninterference:
  "se_db (serve A ins s) = se_db (serve A (filter (writes A) ins) s)
     \<and> se_challenges (serve A ins s) = se_challenges (serve A (filter is_sign_in ins) s)"
proof
  have "\<not> writes A i \<Longrightarrow> se_db (receive A i s) = se_db s" for i s
    by (cases i) (simp_all add: writes_def receive_def handle_store(1))
  moreover have "se_db s = se_db s' \<Longrightarrow> se_db (receive A i s) = se_db (receive A i s')" for i s s'
    using handle_store(2) [of s s'] by (cases i) (simp_all add: receive_def)
  ultimately show "se_db (serve A ins s) = se_db (serve A (filter (writes A) ins) s)"
    unfolding serve_def by (rule fold_relevant [where f = se_db]) simp_all
  have "\<not> is_sign_in i \<Longrightarrow> se_challenges (receive A i s) = se_challenges s" for i s
    by (cases i) (simp_all add: is_sign_in_def receive_def handle_store(3))
  moreover have "se_challenges s = se_challenges s' \<Longrightarrow> se_challenges (receive A i s) = se_challenges (receive A i s')" for i s s'
    using handle_store(4) [of s s'] by (cases i) (simp_all add: receive_def)
  ultimately show "se_challenges (serve A ins s) = se_challenges (serve A (filter is_sign_in ins) s)"
    unfolding serve_def by (rule fold_relevant [where f = se_challenges]) simp_all
qed

section \<open>The store stays sound\<close>

lemma escrow_ok_viewed [simp]: "escrow_ok (viewed_as q e) = escrow_ok e"
  by (simp add: viewed_as_def escrow_ok_def split: option.split)

lemma proof_base_ok:
  assumes "store_inv db" "sql_order order_by"
  shows "\<exists>e. proof_base order_by now a db = Inr e \<and> escrow_ok e"
proof -
  have sound: "db_sound db" using assms(1) by (simp add: store_inv_def)
  obtain x where x: "cache_get a db = Inr x" "\<And>e. x = Some e \<Longrightarrow> escrow_ok e" by (rule store_inv_get [OF assms(1), of a]) blast
  show ?thesis
  proof (cases x)
    case (Some e)
    then show ?thesis using x by (simp add: proof_base_def)
  next
    case None
    have "\<exists>es. listEscrowsForAddress order_by a db = Inr es \<and> list_all escrow_ok es"
    proof -
      obtain es where es: "set es = {e. cache_get (ie_id e) db = Inr (Some e) \<and> escrow_matches (address_query a) e}"
          "\<And>i sz. 1 \<le> sz \<Longrightarrow> sz \<le> 100 \<Longrightarrow> i * nat sz < 2 ^ 53 \<Longrightarrow>
           cache_list order_by ((address_query a)\<lparr>lq_page := Some (int i + 1), lq_pageSize := Some sz\<rparr>) db =
             Inr (map (viewed_as (address_query a)) (take (nat sz) (drop (i * nat sz) es)), length es)"
        by (rule query_result [OF sound assms(2), of "address_query a"]) (rule that)
      have ok: "list_all escrow_ok (take 100 es)"
        using es(1) assms(1) by (force simp: list_all_iff store_inv_def dest: in_set_takeD)
      obtain y where y: "cache_get ''demo-escrow'' db = Inr y" "\<And>e. y = Some e \<Longrightarrow> escrow_ok e"
        by (rule store_inv_get [OF assms(1), of "''demo-escrow''"]) blast
      have "cache_list order_by (address_query a) db = Inr (map (viewed_as (address_query a)) (take 100 es), length es)"
        using es(2) [of 100 0] by (simp add: address_query_def)
      moreover have "(address_query a)\<lparr>lq_page := Some 1, lq_pageSize := Some 100\<rparr> = address_query a" by (simp add: address_query_def)
      ultimately have "listEscrowsForAddress order_by a db =
          (if take 100 es \<noteq> [] then Inr (map (viewed_as (address_query a)) (take 100 es))
           else Inr (case y of None \<Rightarrow> [] | Some d \<Rightarrow> [d\<lparr>ie_address := a, ie_role := Funder, ie_config := (ie_config d)\<lparr>cfg_funder := a\<rparr>\<rparr>]))"
        by (simp add: listEscrowsForAddress_def listEscrows_def clamp_page_def clamp_size_def address_query_def y(1) Let_def split: option.split)
      moreover have "list_all escrow_ok (map (viewed_as (address_query a)) (take 100 es))"
        using ok by (simp add: list.pred_map comp_def)
      moreover have "escrow_ok (d\<lparr>ie_address := a, ie_role := Funder, ie_config := (ie_config d)\<lparr>cfg_funder := a\<rparr>\<rparr>)" if "y = Some d" for d
        using y(2) [OF that] by (simp add: escrow_ok_def)
      ultimately show ?thesis by (cases y) simp_all
    qed
    then obtain es where "listEscrowsForAddress order_by a db = Inr es" "list_all escrow_ok es" by blast
    then show ?thesis using None x(1) seed_escrow_ok by (cases es) (simp_all add: proof_base_def)
  qed
qed

text \<open>The milestone a merge names, if the request is a merge, is an integer below \<open>2 ^ 53\<close>.\<close>

definition milestone_named_safe :: "('sc, 'tx) app \<Rightarrow> request \<Rightarrow> bool" where
  "milestone_named_safe A req =
     (case req of
        Post_GitHub body _ _ \<Rightarrow>
          (case parsePayload A body of
             Inl _ \<Rightarrow> True
           | Inr payload \<Rightarrow> pred_option (\<lambda>p. safe_num (em_milestoneId (parsePrMilestoneMetadata p))) (extractMergedPullRequest payload))
      | _ \<Rightarrow> True)"

lemma github_webhook_inv:
  assumes "store_inv db" "sql_order order_by"
    "\<And>payload p. parsed = Inr payload \<Longrightarrow> extractMergedPullRequest payload = Some p \<Longrightarrow> safe_num (em_milestoneId (parsePrMilestoneMetadata p))"
  shows "store_inv (snd (github_webhook B digest order_by now millis env event parsed db))"
proof -
  have rec: "store_inv (snd (recordProof order_by now millis a m h db))" if "safe_num m" for a m h
  proof -
    obtain e where "proof_base order_by now a db = Inr e" "escrow_ok e" using proof_base_ok [OF assms(1,2)] by blast
    from recordProof_on [OF assms(1) that this] show ?thesis by blast
  qed
  show ?thesis
  proof (cases "\<exists>payload p task. event = Some ''pull_request'' \<and> parsed = Inr payload \<and> extractMergedPullRequest payload = Some p
      \<and> mapMergedCommitToEscrowTask digest p (sv_ESCROW_CONTRACT_ID env) = Some task")
    case True
    then obtain payload p task where t: "event = Some ''pull_request''" "parsed = Inr payload" "extractMergedPullRequest payload = Some p"
        "mapMergedCommitToEscrowTask digest p (sv_ESCROW_CONTRACT_ID env) = Some task" by blast
    have "safe_num (pt_milestoneId task)"
      using assms(3) [OF t(2,3)] t(4) by (auto simp: mapMergedCommitToEscrowTask_def Let_def split: if_splits)
    then have "store_inv (snd (recordProof order_by now millis (pt_escrowId task) (pt_milestoneId task) (pt_proofHash task) db))" by (rule rec)
    moreover have "snd (github_webhook B digest order_by now millis env event parsed db) =
        snd (recordProof order_by now millis (pt_escrowId task) (pt_milestoneId task) (pt_proofHash task) db)"
      by (auto simp: github_webhook_def t split: prod.split sum.split)
    ultimately show ?thesis by simp
  next
    case False
    then have "snd (github_webhook B digest order_by now millis env event parsed db) = db"
      by (cases event; cases parsed)
        (auto simp: github_webhook_def Let_def split: option.split)
    then show ?thesis using assms(1) by simp
  qed
qed

lemma auth_step_bound:
  assumes "jm_wf m" "length m \<le> Suc MAX_CHALLENGES"
  shows "jm_wf (auth_step L net req m) \<and> length (auth_step L net req m) \<le> Suc MAX_CHALLENGES"
proof -
  have prune: "length (pruneChallenges t m) \<le> MAX_CHALLENGES" for t by (rule challenges.prune_cap [OF assms(1)])
  have "length (auth_step L net req m) \<le> Suc MAX_CHALLENGES"
  proof (cases req)
    case (Issue t1 t2 random k)
    then show ?thesis
      using assms(2) challenges.prune_then_set_size [OF assms(1)] by (auto simp: auth_step_def issue_table split: option.split)
  next
    case (Verify t1 t2 k nonce sig)
    have "length (jm_delete (challenge_key k nonce) (pruneChallenges t1 m)) \<le> length (pruneChallenges t1 m)" by (simp add: jm_delete_def)
    then show ?thesis using verify_table [of L t1 t2 k nonce sig m] prune [of t1] by (auto simp: auth_step_def Verify)
  qed
  then show ?thesis using auth_step_wf [OF assms(1)] by blast
qed

text \<open>Each request under \<open>/api/auth\<close> makes at most one step of the challenge table.\<close>

lemma auth_routes_step:
  "snd (challenge_route L net t1 t2 random k m) = m \<or> (\<exists>req. snd (challenge_route L net t1 t2 random k m) = auth_step L net req m)"
  "snd (verify_route L t1 t2 body m) = m \<or> (\<exists>req. snd (verify_route L t1 t2 body m) = auth_step L net req m)"
proof -
  show "snd (challenge_route L net t1 t2 random k m) = m \<or> (\<exists>req. snd (challenge_route L net t1 t2 random k m) = auth_step L net req m)"
  proof (cases k)
    case (Some key)
    then have "snd (challenge_route L net t1 t2 random k m) = auth_step L net (Issue t1 t2 random key) m"
      by (simp add: challenge_route_def auth_step_def case_prod_beta split: sum.split)
    then show ?thesis by blast
  qed (simp add: challenge_route_def)
  let ?k = "body_text body ''publicKey''" and ?n = "body_text body ''nonce''" and ?g = "body_text body ''signature''"
  have "snd (verify_route L t1 t2 body m) = (if ?k = [] \<or> ?n = [] \<or> ?g = [] then m else auth_step L net (Verify t1 t2 ?k ?n ?g) m)"
    by (cases "verifyStellarChallenge L t1 t2 ?k ?n ?g m"; cases "fst (verifyStellarChallenge L t1 t2 ?k ?n ?g m)")
      (auto simp: verify_route_def requireStellarChallengeBody_def auth_reply_def auth_step_def Let_def)
  then show "snd (verify_route L t1 t2 body m) = m \<or> (\<exists>req. snd (verify_route L t1 t2 body m) = auth_step L net req m)"
    by (cases "?k = [] \<or> ?n = [] \<or> ?g = []") (auto split: if_splits)
qed

definition server_inv :: "server \<Rightarrow> bool" where
  "server_inv s \<longleftrightarrow> store_inv (se_db s) \<and> jm_wf (se_challenges s) \<and> length (se_challenges s) \<le> Suc MAX_CHALLENGES"

definition input_ok :: "('sc, 'tx) app \<Rightarrow> input \<Rightarrow> bool" where
  "input_ok A i = (case i of On_Event _ ev \<Rightarrow> event_ok ev | On_Request _ req \<Rightarrow> milestone_named_safe A req)"

lemma handle_inv:
  assumes "sql_order (ap_order A)" "milestone_named_safe A req" "server_inv s"
  shows "server_inv (snd (handle A (t, req) s))"
proof -
  have inv: "store_inv (se_db s)" "jm_wf (se_challenges s)" "length (se_challenges s) \<le> Suc MAX_CHALLENGES"
    using assms(3) by (simp_all add: server_inv_def)
  have "store_inv (se_db (snd (handle A (t, req) s)))"
  proof (cases req)
    case (Post_GitHub body signature event)
    have "store_inv (snd (github_webhook (ap_stellar A) (ap_digest A) (ap_order A) (mo_iso t) (mo_millis t) (ap_env A) event
             (parsePayload A body) (se_db s)))"
      by (rule github_webhook_inv) (use assms inv in \<open>auto simp: Post_GitHub milestone_named_safe_def\<close>)
    then show ?thesis using inv(1) by (simp add: handle_def Post_GitHub post_github_store)
  qed (use inv(1) in \<open>simp_all add: handle_def split: prod.split\<close>)
  moreover have "jm_wf (se_challenges (snd (handle A (t, req) s))) \<and> length (se_challenges (snd (handle A (t, req) s))) \<le> Suc MAX_CHALLENGES"
  proof (cases "is_auth req")
    case True
    have bound: "jm_wf m \<and> length m \<le> Suc MAX_CHALLENGES"
      if "m = se_challenges s \<or> (\<exists>r. m = auth_step (ap_lib A) (sv_STELLAR_NETWORK (ap_env A)) r (se_challenges s))" for m
      using that auth_step_bound [OF inv(2,3)] inv(2,3) by blast
    from True show ?thesis
    proof (cases req)
      case (Get_Challenge k)
      show ?thesis
        by (rule bound) (use auth_routes_step(1) in \<open>simp add: handle_def Get_Challenge case_prod_beta\<close>)
    next
      case (Post_Verify body)
      show ?thesis
        by (rule bound) (use auth_routes_step(2) in \<open>simp add: handle_def Post_Verify case_prod_beta\<close>)
    qed (simp_all add: is_auth_def)
  next
    case False
    then show ?thesis using handle_store(3) [of req A t s] inv(2,3) by simp
  qed
  ultimately show ?thesis by (simp add: server_inv_def)
qed

text \<open>C8: No mixture of contract events and requests breaks the server's state: every stored escrow can
  still be read and is well formed, the timeline's ids have no gap, and the challenge table has one
  entry per key and is bounded; provided the ids and ledgers of events, and the milestones merges
  name, are integers below \<open>2 ^ 53\<close>.\<close>

theorem server_invariant:
  assumes "sql_order (ap_order A)" "list_all (input_ok A) ins" "server_inv s"
  shows "server_inv (serve A ins s)"
  using assms(2,3)
proof (induction ins arbitrary: s)
  case (Cons i rest)
  have "server_inv (receive A i s)"
  proof (cases i)
    case (On_Event now ev)
    then show ?thesis using Cons.prems applyEvent_step [of "se_db s" ev now] by (simp add: receive_def input_ok_def server_inv_def)
  next
    case (On_Request t req)
    then show ?thesis using Cons.prems handle_inv [OF assms(1)] by (simp add: receive_def input_ok_def)
  qed
  then show ?case using Cons.IH [of "receive A i s"] Cons.prems(1) by (simp add: serve_def)
qed (simp add: serve_def)

definition sample_app :: "(jsval, unit) app" where
  "sample_app = \<lparr>ap_lib = sample_auth, ap_secret = ''s'', ap_env = sample_env, ap_stellar = sample_soroban Null, ap_digest = (\<lambda>bs. bs),
     ap_order = stable_order, ap_parse = (\<lambda>_. Inr sample_merge)\<rparr>"

definition sample_moment :: moment where
  "sample_moment = \<lparr>mo_iso = sample_clock, mo_millis = 60000, mo_later = 60000, mo_random = [7]\<rparr>"

definition sample_inputs :: "input list" where
  "sample_inputs =
     [On_Request sample_moment (Post_GitHub (Some []) (Some ''sha256=abcd'') (Some ''pull_request'')),
      On_Event sample_clock (sample_release ''C''),
      On_Request sample_moment (Get_Challenge (Some ''GA'')), On_Request sample_moment (Post_Verify Null)]"

lemma sample_merge_milestone:
  "pred_option (\<lambda>p. safe_num (em_milestoneId (parsePrMilestoneMetadata p))) (extractMergedPullRequest sample_merge)"
proof -
  obtain p where p: "extractMergedPullRequest sample_merge = Some p" "mp_labels p = []" "mp_body p = []" "mp_title p = ''typo''"
    by (simp add: extractMergedPullRequest_def sample_merge_def or_default_def)
  have "no_m ''typo''" unfolding no_m_def by code_simp
  then have "em_milestoneId (parsePrMilestoneMetadata p) = Fin 1"
    using title_without_m p by (simp add: parsePrMilestoneMetadata_def empty_body parseEscrowId_def parseNumber_def first_some_def or_default_def Let_def)
  then show ?thesis using p(1) by simp
qed

theorem server_invariant_witness:
  "server_inv (serve sample_app sample_inputs \<lparr>se_db = sample_store, se_challenges = []\<rparr>)"
proof -
  have ok: "escrow_ok ((seedEscrow ''now'')\<lparr>ie_id := ''C'', ie_address := ''C''\<rparr>)" using seed_escrow_ok by (simp add: escrow_ok_def)
  have "store_inv sample_store" unfolding sample_store_def by (rule store_inv_upsert [OF sample_store_inv ok])
  then have "server_inv \<lparr>se_db = sample_store, se_challenges = []\<rparr>" by (simp add: server_inv_def)
  moreover have "list_all (input_ok sample_app) sample_inputs"
    using sample_merge_milestone
    by (simp add: sample_inputs_def input_ok_def milestone_named_safe_def parsePayload_def sample_app_def sample_release_def event_ok_def)
  moreover have "sql_order (ap_order sample_app)" by (simp add: sample_app_def sql_order_stable)
  ultimately show ?thesis by (intro server_invariant)
qed

end
