(* ===== verification/Env.thy ===== *)
theory Env
  imports App
begin

text \<open>
  The start of the server: apps/server/src/lib/env.ts, which reads the environment through a zod
  schema, and apps/server/src/index.ts, which loads it, listens and then starts the indexer. The
  environment gives a text or nothing for each name; a text is coerced by \<open>Number\<close>, and a default
  stands only for a variable that is not set, not for an empty one.
\<close>

section \<open>The environment\<close>

record env = server_env +
  en_PORT :: jsnum
  en_HOST :: string
  en_CLIENT_ORIGIN :: string
  en_GITHUB_WEBHOOK_SECRET :: string
  en_INDEXER_DB_PATH :: string

datatype env_issue = Env_NaN string | Env_Not_Integer string | Env_Not_Positive string | Env_Not_Listed string

definition coerce_number :: "string option \<Rightarrow> jsnum \<Rightarrow> jsnum" where
  "coerce_number v d = (case v of None \<Rightarrow> d | Some s \<Rightarrow> js_number (Str s))"

definition port_issues :: "jsnum \<Rightarrow> env_issue list" where
  "port_issues n = (if n = NaN then [Env_NaN ''PORT''] else [])"

definition poll_issues :: "jsnum \<Rightarrow> env_issue list" where
  "poll_issues n =
     (if n = NaN then [Env_NaN ''INDEXER_POLL_MS'']
      else (if num_isInteger n then [] else [Env_Not_Integer ''INDEXER_POLL_MS''])
        @ (if num_lt (Fin 0) n then [] else [Env_Not_Positive ''INDEXER_POLL_MS'']))"

definition network_choice :: "string option \<Rightarrow> network_name option" where
  "network_choice v =
     (case v of
        None \<Rightarrow> Some Testnet
      | Some s \<Rightarrow> if s = ''testnet'' then Some Testnet else if s = ''mainnet'' then Some Mainnet else None)"

definition loadEnv :: "(string \<Rightarrow> string option) \<Rightarrow> env_issue list + env" where
  "loadEnv src =
     (let port = coerce_number (src ''PORT'') (Fin 4000);
          poll = coerce_number (src ''INDEXER_POLL_MS'') (Fin 4000);
          network = network_choice (src ''STELLAR_NETWORK'');
          issues = port_issues port @ (if network = None then [Env_Not_Listed ''STELLAR_NETWORK''] else []) @ poll_issues poll
      in if issues \<noteq> [] then Inl issues
         else Inr \<lparr>sv_STELLAR_NETWORK = or_default network Testnet, sv_ESCROW_CONTRACT_ID = src ''ESCROW_CONTRACT_ID'',
                sv_SOROBAN_RPC_URL = src ''SOROBAN_RPC_URL'', sv_INDEXER_POLL_MS = poll, en_PORT = port,
                en_HOST = or_default (src ''HOST'') ''0.0.0.0'',
                en_CLIENT_ORIGIN = or_default (src ''CLIENT_ORIGIN'') ''http://localhost:3000'',
                en_GITHUB_WEBHOOK_SECRET = or_default (src ''GITHUB_WEBHOOK_SECRET'') ''dev-webhook-secret'',
                en_INDEXER_DB_PATH = or_default (src ''INDEXER_DB_PATH'') '':memory:''\<rparr>)"

section \<open>The start\<close>

text \<open>
  What the process does: it ends with the issues of the environment, or listens on a port of a host
  with a module whose indexer was started; what goes wrong while it is started is only logged.
  \<open>disk\<close> is what the database file of a path holds.
\<close>

record started =
  st_port :: jsnum
  st_host :: string
  st_logged :: "js_error option"
  st_service :: service

definition start_server :: "(string \<Rightarrow> unit js) \<Rightarrow> (string \<Rightarrow> indexer_db) \<Rightarrow> string \<Rightarrow> (string \<Rightarrow> string option)
    \<Rightarrow> env_issue list + started" where
  "start_server connect disk now src =
     (case loadEnv src of
        Inl issues \<Rightarrow> Inl issues
      | Inr env \<Rightarrow>
          (case startIndexer connect (server_env.truncate env) now (disk (en_INDEXER_DB_PATH env)) \<lparr>sv_cache = None, sv_watcher = None\<rparr> of
             (r, sv) \<Rightarrow> Inr \<lparr>st_port = en_PORT env, st_host = en_HOST env,
                 st_logged = (case r of Inl e \<Rightarrow> Some e | Inr _ \<Rightarrow> None), st_service = sv\<rparr>))"

section \<open>What a started server is sure of\<close>

lemma loadEnv_ok:
  assumes "loadEnv src = Inr env"
  shows "\<exists>n. sv_INDEXER_POLL_MS env = Fin (of_int n) \<and> 0 < n" "en_PORT env \<noteq> NaN"
    "network_choice (src ''STELLAR_NETWORK'') = Some (sv_STELLAR_NETWORK env)"
    "sv_ESCROW_CONTRACT_ID env = src ''ESCROW_CONTRACT_ID''"
    "en_GITHUB_WEBHOOK_SECRET env = or_default (src ''GITHUB_WEBHOOK_SECRET'') ''dev-webhook-secret''"
proof -
  have none: "poll_issues (sv_INDEXER_POLL_MS env) = []" "port_issues (en_PORT env) = []"
    and net: "network_choice (src ''STELLAR_NETWORK'') = Some (sv_STELLAR_NETWORK env)"
    and rest: "sv_ESCROW_CONTRACT_ID env = src ''ESCROW_CONTRACT_ID''"
      "en_GITHUB_WEBHOOK_SECRET env = or_default (src ''GITHUB_WEBHOOK_SECRET'') ''dev-webhook-secret''"
    using assms by (auto simp: loadEnv_def Let_def split: if_splits)
  show "\<exists>n. sv_INDEXER_POLL_MS env = Fin (of_int n) \<and> 0 < n"
    using none(1) by (auto simp: poll_issues_def num_isInteger_iff split: if_splits)
  show "en_PORT env \<noteq> NaN" using none(2) by (auto simp: port_issues_def split: if_splits)
  show "network_choice (src ''STELLAR_NETWORK'') = Some (sv_STELLAR_NETWORK env)"
    "sv_ESCROW_CONTRACT_ID env = src ''ESCROW_CONTRACT_ID''"
    "en_GITHUB_WEBHOOK_SECRET env = or_default (src ''GITHUB_WEBHOOK_SECRET'') ''dev-webhook-secret''"
    by (rule net rest)+
qed

text \<open>A server that starts, on a machine whose watcher can be set up, polls the contract of the
  environment on its network with a period of a positive whole number of milliseconds, and has one
  request waiting; without a contract id it listens without an indexer.\<close>

theorem started_server_polls:
  assumes "start_server connect disk now src = Inr s" "st_logged s = None"
  shows "(if or_default (src ''ESCROW_CONTRACT_ID'') [] = [] then sv_watcher (st_service s) = None
     else \<exists>rt n. sv_watcher (st_service s) = Some rt \<and> wa_contractId (rt_watcher rt) = or_default (src ''ESCROW_CONTRACT_ID'') []
       \<and> wa_pollIntervalMs (rt_watcher rt) = Fin (of_int n) \<and> 0 < n \<and> wa_handlers (rt_watcher rt) = [0]
       \<and> rt_waiting rt = [Start_Ledger])"
proof -
  obtain env where env: "loadEnv src = Inr env"
    using assms(1) by (auto simp: start_server_def split: sum.splits)
  obtain n where n: "sv_INDEXER_POLL_MS env = Fin (of_int n)" "0 < n" using loadEnv_ok(1) [OF env] by blast
  have contract: "sv_ESCROW_CONTRACT_ID (server_env.truncate env) = src ''ESCROW_CONTRACT_ID''"
      "sv_INDEXER_POLL_MS (server_env.truncate env) = Fin (of_int n)"
    using loadEnv_ok(4) [OF env] n(1) by (simp_all add: server_env.truncate_def)
  obtain sv where sv: "startIndexer connect (server_env.truncate env) now (disk (en_INDEXER_DB_PATH env))
      \<lparr>sv_cache = None, sv_watcher = None\<rparr> = (Inr (), sv)" "st_service s = sv"
    using assms env by (auto simp: start_server_def split: prod.splits sum.splits)
  show ?thesis
    unfolding sv(2) using sv(1) n(2)
    by (auto simp: startIndexer_def getCache_def contract Let_def new_watcher_def watcher_options_of_def bindR_def
        start_call_def idle_runtime_def watcher_on_def split: sum.splits if_splits)
qed

lemma verifyGitHubHmac_signed:
  assumes "al_hmac L (utf8 secret) body \<noteq> []" "secret \<noteq> []"
  shows "verifyGitHubHmac L body (Some (''sha256='' @ bytesToHex (al_hmac L (utf8 secret) body))) secret"
proof -
  let ?mac = "al_hmac L (utf8 secret) body"
  have low: "map to_lower (bytesToHex ?mac) = bytesToHex ?mac"
    using buffer_from_hex_bytes [of "bytesToHex ?mac"] bytesToHex_is_hex [of ?mac] by (simp add: buffer_from_bytesToHex)
  have "list_all is_hex (map to_lower (bytesToHex ?mac))" unfolding low by (rule bytesToHex_is_hex)
  moreover have "bytesToHex ?mac \<noteq> []" using assms(1) length_bytesToHex [of ?mac] by auto
  ultimately have "re_test LOWER_HEX_RE (map to_lower (bytesToHex ?mac))"
    unfolding test_lower_hex by (simp add: list.pred_map comp_def)
  moreover have "drop (length ''sha256='') (''sha256='' @ bytesToHex ?mac) = bytesToHex ?mac" by (rule append_eq_conv_conj [THEN iffD1, THEN conjunct2, symmetric]) simp
  moreover have "starts_with ''sha256='' (''sha256='' @ bytesToHex ?mac)" by (rule starts_with_append)
  ultimately show ?thesis
    using assms(2) low by (simp add: verifyGitHubHmac_def Let_def buffer_from_bytesToHex)
qed

text \<open>The secret of an environment that sets none is printed in the sources: with it anyone can sign a
  delivery the server takes for GitHub's.\<close>

theorem default_secret_signs:
  assumes "loadEnv src = Inr env" "src ''GITHUB_WEBHOOK_SECRET'' = None" "ap_secret A = en_GITHUB_WEBHOOK_SECRET env"
    and "mac = al_hmac (ap_lib A) (utf8 ''dev-webhook-secret'') body" "mac \<noteq> []"
    and "parsePayload A (Some body) = Inr payload" "extractMergedPullRequest payload \<noteq> None"
  shows "signed_merge A (Post_GitHub (Some body) (Some (''sha256='' @ bytesToHex mac)) (Some ''pull_request''))"
proof -
  have secret: "ap_secret A = ''dev-webhook-secret''" using loadEnv_ok(5) [OF assms(1)] assms(2,3) by simp
  have "verifyGitHubHmac (ap_lib A) body (Some (''sha256='' @ bytesToHex mac)) ''dev-webhook-secret''"
    using verifyGitHubHmac_signed [of "ap_lib A" "''dev-webhook-secret''" body] assms(4,5) by simp
  then show ?thesis using assms(6,7) by (auto simp: signed_merge_def asRawBody_def raw_value_def secret)
qed

lemma empty_environment:
  "loadEnv (\<lambda>_. None) = Inr \<lparr>sv_STELLAR_NETWORK = Testnet, sv_ESCROW_CONTRACT_ID = None, sv_SOROBAN_RPC_URL = None,
     sv_INDEXER_POLL_MS = Fin 4000, en_PORT = Fin 4000, en_HOST = ''0.0.0.0'', en_CLIENT_ORIGIN = ''http://localhost:3000'',
     en_GITHUB_WEBHOOK_SECRET = ''dev-webhook-secret'', en_INDEXER_DB_PATH = '':memory:''\<rparr>"
proof -
  have "num_isInteger (Fin 4000)" using num_isInteger_iff [of "Fin 4000"] by (metis of_int_numeral)
  then show ?thesis
    by (simp add: loadEnv_def coerce_number_def network_choice_def port_issues_def poll_issues_def Let_def)
qed

text \<open>An empty port is port 0, any free one, not the default.\<close>

lemma empty_port: "coerce_number (Some []) (Fin 4000) = Fin 0 \<and> port_issues (Fin 0) = []"
  by (simp add: coerce_number_def port_issues_def string_to_number_def trim_def trim_left_def)

theorem default_secret_signs_witness:
  "signed_merge (sample_app\<lparr>ap_secret := ''dev-webhook-secret''\<rparr>) (Post_GitHub (Some []) (Some ''sha256=abcd'') (Some ''pull_request''))"
proof -
  have hex: "''sha256='' @ bytesToHex [171, 205] = ''sha256=abcd''" by code_simp
  have p: "parsePayload (sample_app\<lparr>ap_secret := ''dev-webhook-secret''\<rparr>) (Some []) = Inr sample_merge"
    by (simp add: parsePayload_def sample_app_def)
  have m: "extractMergedPullRequest sample_merge \<noteq> None"
    by (simp add: extractMergedPullRequest_def sample_merge_def or_default_def)
  have k: "[171, 205] = al_hmac (ap_lib (sample_app\<lparr>ap_secret := ''dev-webhook-secret''\<rparr>)) (utf8 ''dev-webhook-secret'') []"
    by (simp add: sample_app_def sample_auth_def)
  have "signed_merge (sample_app\<lparr>ap_secret := ''dev-webhook-secret''\<rparr>)
      (Post_GitHub (Some []) (Some (''sha256='' @ bytesToHex [171, 205])) (Some ''pull_request''))"
    by (rule default_secret_signs [OF empty_environment _ _ k _ p m]) simp_all
  then show ?thesis unfolding hex .
qed

end
