(* ===== verification/Schemas.thy ===== *)
theory Schemas
  imports App
begin

text \<open>
  The zod schemas with which the server reads requests: \<open>listQuery\<close>, \<open>idParam\<close> and \<open>timelineQuery\<close> of
  apps/server/src/routes/escrows.ts, \<open>challengeQuery\<close> of routes/auth.ts and \<open>attestationSchema\<close> of
  services/attestation.ts. A schema maps a value to the issues found or to what it makes of it.
  The texts of zod's messages, and \<open>flatten\<close>, which arranges them, are not modelled.
\<close>

section \<open>Combinators\<close>

datatype zod_issue = Wrong_Type | Fraction | Below | Above | Bad_Format | Not_An_Option

type_synonym 'a zod = "((string \<times> zod_issue) list, 'a) result"

text \<open>The members of an object: all issues are collected.\<close>

fun bothZ :: "'a zod \<Rightarrow> 'b zod \<Rightarrow> ('a \<times> 'b) zod" where
  "bothZ (Inr a) (Inr b) = Inr (a, b)"
| "bothZ (Inl i) (Inl j) = Inl (i @ j)"
| "bothZ (Inl i) (Inr _) = Inl i"
| "bothZ (Inr _) (Inl j) = Inl j"

fun allZ :: "'a zod list \<Rightarrow> 'a list zod" where
  "allZ [] = Inr []"
| "allZ (x # xs) = bindR (bothZ x (allZ xs)) (\<lambda>(y, ys). Inr (y # ys))"

definition checked :: "string \<Rightarrow> zod_issue list \<Rightarrow> 'a \<Rightarrow> 'a zod" where
  "checked k issues x = (if issues = [] then Inr x else Inl (map (Pair k) issues))"

definition zOptional :: "(jsval \<Rightarrow> 'a zod) \<Rightarrow> jsval \<Rightarrow> 'a option zod" where
  "zOptional p v = (if v = Undefined then Inr None else bindR (p v) (\<lambda>x. Inr (Some x)))"

definition zDefault :: "'a \<Rightarrow> (jsval \<Rightarrow> 'a zod) \<Rightarrow> jsval \<Rightarrow> 'a zod" where
  "zDefault d p v = (if v = Undefined then Inr d else p v)"

definition zText :: "string \<Rightarrow> (string \<Rightarrow> zod_issue list) \<Rightarrow> jsval \<Rightarrow> string zod" where
  "zText k checks v = (case v of Str s \<Rightarrow> checked k (checks s) s | _ \<Rightarrow> Inl [(k, Wrong_Type)])"

definition minLength :: "nat \<Rightarrow> string \<Rightarrow> zod_issue list" where
  "minLength n s = (if length s < n then [Below] else [])"

definition startsWith :: "string \<Rightarrow> string \<Rightarrow> zod_issue list" where
  "startsWith p s = (if starts_with p s then [] else [Bad_Format])"

definition zEnum :: "string \<Rightarrow> ('a \<Rightarrow> string) \<Rightarrow> 'a list \<Rightarrow> jsval \<Rightarrow> 'a zod" where
  "zEnum k name options v =
     (case v of
        Str s \<Rightarrow> (case find (\<lambda>x. name x = s) options of Some x \<Rightarrow> Inr x | None \<Rightarrow> Inl [(k, Not_An_Option)])
      | _ \<Rightarrow> Inl [(k, Wrong_Type)])"

definition int_value :: "jsnum \<Rightarrow> int" where
  "int_value n = (case n of Fin q \<Rightarrow> \<lfloor>q\<rfloor> | _ \<Rightarrow> 0)"

text \<open>\<open>z.coerce.number().int().positive()\<close>, with the upper bound where there is one.\<close>

definition zPositive :: "string \<Rightarrow> int option \<Rightarrow> jsval \<Rightarrow> int zod" where
  "zPositive k upper v =
     (let n = js_number v in
      if n = NaN then Inl [(k, Wrong_Type)]
      else checked k ((if num_isInteger n then [] else [Fraction]) @ (if num_lt (Fin 0) n then [] else [Below])
             @ (case upper of Some m \<Rightarrow> if num_lt (Fin (of_int m)) n then [Above] else [] | None \<Rightarrow> []))
           (int_value n))"

section \<open>The schemas\<close>

definition escrow_states :: "escrow_state list" where
  "escrow_states = [ES_Pending, ES_Active, ES_Completed, ES_Disputed, ES_Cancelled]"

definition listQuery :: "jsval \<Rightarrow> list_query zod" where
  "listQuery v =
     bindR (bothZ (zOptional (zText ''address'' (minLength 1)) (js_prop v ''address''))
           (bothZ (zOptional (zEnum ''state'' escrow_state_text escrow_states) (js_prop v ''state''))
           (bothZ (zDefault 1 (zPositive ''page'' None) (js_prop v ''page''))
                  (zDefault 20 (zPositive ''pageSize'' (Some 100)) (js_prop v ''pageSize'')))))
       (\<lambda>(address, st, page, sz). Inr \<lparr>lq_address = address, lq_state = st, lq_page = Some page, lq_pageSize = Some sz\<rparr>)"

definition idParam :: "jsval \<Rightarrow> string zod" where
  "idParam v = zText ''id'' (minLength 1) (js_prop v ''id'')"

definition timelineQuery :: "jsval \<Rightarrow> (int \<times> int) zod" where
  "timelineQuery v =
     bothZ (zDefault 1 (zPositive ''page'' None) (js_prop v ''page''))
           (zDefault 50 (zPositive ''pageSize'' (Some 100)) (js_prop v ''pageSize''))"

definition challengeQuery :: "jsval \<Rightarrow> string zod" where
  "challengeQuery v = zText ''publicKey'' (\<lambda>s. startsWith ''G'' s @ minLength 56 s) (js_prop v ''publicKey'')"

text \<open>\<open>/^[0-9a-fA-F]{64}$/\<close>\<close>

definition HASH_RE :: re where
  "HASH_RE = Seq Bol (Seq (Rep 64 (Cls (\<lambda>c. between (CHR ''0'') (CHR ''9'') c \<or> between (CHR ''a'') (CHR ''f'') c
      \<or> between (CHR ''A'') (CHR ''F'') c))) Eol)"

fun attestor_text :: "attestor_role \<Rightarrow> string" where
  "attestor_text AR_funder = ''funder''"
| "attestor_text AR_recipient = ''recipient''"
| "attestor_text AR_arbitrator = ''arbitrator''"
| "attestor_text AR_attestor = ''attestor''"

definition signerSchema :: "jsval \<Rightarrow> attestation_signer zod" where
  "signerSchema v =
     bindR (bothZ (zText ''publicKey'' (startsWith ''G'') (js_prop v ''publicKey''))
           (bothZ (zText ''signature'' (minLength 1) (js_prop v ''signature''))
                  (zEnum ''role'' attestor_text [AR_funder, AR_recipient, AR_arbitrator, AR_attestor] (js_prop v ''role''))))
       (\<lambda>(k, s, r). Inr \<lparr>as_publicKey = k, as_signature = s, as_role = r\<rparr>)"

text \<open>\<open>z.number().int().nonnegative()\<close>\<close>

definition zNatural :: "string \<Rightarrow> jsval \<Rightarrow> jsnum zod" where
  "zNatural k v =
     (case v of
        Num n \<Rightarrow> if n = NaN then Inl [(k, Wrong_Type)]
                 else checked k ((if num_isInteger n then [] else [Fraction]) @ (if num_lt n (Fin 0) then [Below] else [])) n
      | _ \<Rightarrow> Inl [(k, Wrong_Type)])"

definition attestationSchema :: "jsval \<Rightarrow> attestation zod" where
  "attestationSchema v =
     bindR (bothZ (zText ''escrowAddress'' (minLength 1) (js_prop v ''escrowAddress''))
           (bothZ (zNatural ''milestoneId'' (js_prop v ''milestoneId''))
           (bothZ (zText ''proofHash'' (\<lambda>s. if re_test HASH_RE s then [] else [Bad_Format]) (js_prop v ''proofHash''))
           (bothZ (case js_prop v ''signers'' of
                     Arr vs \<Rightarrow> bindR (bothZ (checked ''signers'' (if length vs < 2 then [Below] else []) ()) (allZ (map signerSchema vs)))
                       (\<lambda>(_, ss). Inr ss)
                   | _ \<Rightarrow> Inl [(''signers'', Wrong_Type)])
                  (zText ''payload'' (minLength 1) (js_prop v ''payload''))))))
       (\<lambda>(address, m, hash, ss, payload).
         Inr \<lparr>at_escrowAddress = address, at_milestoneId = m, at_proofHash = hash, at_signers = ss, at_payload = payload\<rparr>)"

section \<open>Requests as they arrive\<close>

definition flattened :: "((string \<times> zod_issue) list \<Rightarrow> jsval) \<Rightarrow> 'a zod \<Rightarrow> (jsval, 'a) result" where
  "flattened flat r = (case r of Inl issues \<Rightarrow> Inl (flat issues) | Inr x \<Rightarrow> Inr x)"

definition to_option :: "'a zod \<Rightarrow> 'a option" where
  "to_option r = (case r of Inl _ \<Rightarrow> None | Inr x \<Rightarrow> Some x)"

text \<open>The path parameters, the query or the body of a request, before they are checked.\<close>

datatype raw_request =
    Raw_List jsval
  | Raw_Timeline jsval jsval
  | Raw_Escrow jsval
  | Raw_Challenge jsval
  | Raw_Attestation jsval

definition parse_request :: "((string \<times> zod_issue) list \<Rightarrow> jsval) \<Rightarrow> raw_request \<Rightarrow> request" where
  "parse_request flat raw =
     (case raw of
        Raw_List query \<Rightarrow> Get_Escrows (flattened flat (listQuery query))
      | Raw_Timeline params query \<Rightarrow> Get_Timeline (flattened flat (idParam params)) (flattened flat (timelineQuery query))
      | Raw_Escrow params \<Rightarrow> Get_Escrow (flattened flat (idParam params))
      | Raw_Challenge query \<Rightarrow> Get_Challenge (to_option (challengeQuery query))
      | Raw_Attestation body \<Rightarrow> Post_Attestation (to_option (attestationSchema body)))"

section \<open>What the schemas let through\<close>


lemma checked_Inr: "checked k issues x = Inr y \<longleftrightarrow> issues = [] \<and> y = x"
  by (auto simp: checked_def)

lemma zPositive_Inr:
  "zPositive k upper v = Inr n \<longleftrightarrow> js_number v = Fin (of_int n) \<and> 0 < n \<and> (case upper of Some m \<Rightarrow> n \<le> m | None \<Rightarrow> True)"
proof
  assume "zPositive k upper v = Inr n"
  then show "js_number v = Fin (of_int n) \<and> 0 < n \<and> (case upper of Some m \<Rightarrow> n \<le> m | None \<Rightarrow> True)"
    by (auto simp: zPositive_def checked_Inr num_isInteger_iff int_value_def Let_def split: if_splits option.splits)
next
  assume n: "js_number v = Fin (of_int n) \<and> 0 < n \<and> (case upper of Some m \<Rightarrow> n \<le> m | None \<Rightarrow> True)"
  then have "num_isInteger (js_number v)" by (auto simp: num_isInteger_iff)
  then show "zPositive k upper v = Inr n"
    using n by (auto simp: zPositive_def checked_def int_value_def Let_def split: option.splits)
qed


text \<open>The query of a request for one page, as a browser would write it.\<close>

definition query_object :: "list_query \<Rightarrow> int \<Rightarrow> int \<Rightarrow> jsval" where
  "query_object q page sz =
     Obj ((case lq_address q of Some a \<Rightarrow> [(''address'', Str a)] | None \<Rightarrow> [])
        @ (case lq_state q of Some st \<Rightarrow> [(''state'', Str (escrow_state_text st))] | None \<Rightarrow> [])
        @ [(''page'', Str (int_dec page)), (''pageSize'', Str (int_dec sz))])"

lemma zEnum_state: "zEnum k escrow_state_text escrow_states (Str (escrow_state_text st)) = Inr st"
  by (cases st) (simp_all add: zEnum_def escrow_states_def)

lemma zPositive_dec:
  "1 \<le> n \<Longrightarrow> n < 2 ^ 53 \<Longrightarrow> (case upper of Some m \<Rightarrow> n \<le> m | None \<Rightarrow> True) \<Longrightarrow> zPositive k upper (Str (int_dec n)) = Inr n"
  unfolding zPositive_Inr by (subst js_number_int_dec) simp_all

lemma listQuery_object:
  assumes "pred_option (\<lambda>a. a \<noteq> []) (lq_address q)" "1 \<le> page" "page < 2 ^ 53" "1 \<le> sz" "sz \<le> 100"
  shows "listQuery (query_object q page sz) = Inr (q\<lparr>lq_page := Some page, lq_pageSize := Some sz\<rparr>)"
proof -
  have props: "js_prop (query_object q page sz) ''address'' = (case lq_address q of Some a \<Rightarrow> Str a | None \<Rightarrow> Undefined)"
      "js_prop (query_object q page sz) ''state'' = (case lq_state q of Some st \<Rightarrow> Str (escrow_state_text st) | None \<Rightarrow> Undefined)"
      "js_prop (query_object q page sz) ''page'' = Str (int_dec page)"
      "js_prop (query_object q page sz) ''pageSize'' = Str (int_dec sz)"
    by (simp_all add: query_object_def split: option.split)
  have "zOptional (zText ''address'' (minLength 1)) (js_prop (query_object q page sz) ''address'') = Inr (lq_address q)"
    using assms(1) by (cases "lq_address q") (simp_all add: props zOptional_def zText_def minLength_def checked_def)
  moreover have "zOptional (zEnum ''state'' escrow_state_text escrow_states) (js_prop (query_object q page sz) ''state'') = Inr (lq_state q)"
    by (cases "lq_state q") (simp_all add: props zOptional_def zEnum_state)
  moreover have "zDefault 1 (zPositive ''page'' None) (js_prop (query_object q page sz) ''page'') = Inr page"
      "zDefault 20 (zPositive ''pageSize'' (Some 100)) (js_prop (query_object q page sz) ''pageSize'') = Inr sz"
    using assms(2-5) by (simp_all add: props zDefault_def zPositive_dec)
  ultimately show ?thesis unfolding listQuery_def by simp
qed

text \<open>C23: A client that asks \<open>GET /api/escrows\<close> for the pages 1 to the \<open>pageCount\<close> it is told, with page and page
  size as decimal texts, gets every escrow that matches its query once, the one updated last first, and
  every page states the number of all of them.\<close>

theorem list_requests_complete:
  assumes "db_sound (se_db s)" "sql_order (ap_order A)" "1 \<le> sz" "sz \<le> 100" "pred_option (\<lambda>a. a \<noteq> []) (lq_address q)"
    and "length (filter (escrow_matches q) (stored_escrows (se_db s))) < 2 ^ 39"
  shows "\<exists>pages es.
       map (\<lambda>i. fst (handle A (t, parse_request flat (Raw_List (query_object q (int i + 1) sz))) s)) [0..<length pages]
       = map (\<lambda>i. Json (list_reply (int i + 1) sz (length es) (pages ! i))) [0..<length pages]
     \<and> page_count (length es) sz = Fin (of_nat (length pages)) \<and> concat pages = map (viewed_as q) es
     \<and> distinct (map ie_id es) \<and> set es = {e. cache_get (ie_id e) (se_db s) = Inr (Some e) \<and> escrow_matches q e}
     \<and> sorted_wrt (\<lambda>a b. ie_updatedAt b \<le> ie_updatedAt a) es"
proof -
  obtain pages es where es: "map (\<lambda>i. list_route (ap_order A) (Inr (q\<lparr>lq_page := Some (int i + 1), lq_pageSize := Some sz\<rparr>)) (se_db s)) [0..<length pages]
       = map (\<lambda>i. Inr (list_reply (int i + 1) sz (length es) (pages ! i))) [0..<length pages]"
    "page_count (length es) sz = Fin (of_nat (length pages))" "concat pages = map (viewed_as q) es"
    "distinct (map ie_id es)" "set es = {e. cache_get (ie_id e) (se_db s) = Inr (Some e) \<and> escrow_matches q e}"
    "sorted_wrt (\<lambda>a b. ie_updatedAt b \<le> ie_updatedAt a) es" "length es < 2 ^ 39"
    by (rule list_route_pages [OF assms(1-4,6)]) (rule that)
  have "rat_of_nat (length pages) = of_int (max 1 \<lceil>rat_of_nat (length es) / of_int sz\<rceil>)"
    using page_count_ceiling [OF assms(3,4) es(7)] es(2) by simp
  then have "int (length pages) = max 1 \<lceil>rat_of_nat (length es) / of_int sz\<rceil>" by (metis of_int_eq_iff of_int_of_nat_eq)
  also have "rat_of_nat (length es) / of_int sz \<le> of_nat (length es)"
    using assms(3) mult_left_mono [of 1 "rat_of_int sz" "rat_of_nat (length es)"] by (simp add: divide_le_eq)
  then have "\<lceil>rat_of_nat (length es) / of_int sz\<rceil> \<le> int (length es)" by (simp add: ceiling_le_iff)
  ultimately have bound: "length pages \<le> max 1 (length es)" by linarith
  have "fst (handle A (t, parse_request flat (Raw_List (query_object q (int i + 1) sz))) s) = Json (list_reply (int i + 1) sz (length es) (pages ! i))"
    if "i < length pages" for i
  proof -
    have "int i + 1 < 2 ^ 53" using that bound es(7) by simp
    then have "listQuery (query_object q (int i + 1) sz) = Inr (q\<lparr>lq_page := Some (int i + 1), lq_pageSize := Some sz\<rparr>)"
      using assms by (intro listQuery_object) simp_all
    moreover have "list_route (ap_order A) (Inr (q\<lparr>lq_page := Some (int i + 1), lq_pageSize := Some sz\<rparr>)) (se_db s)
        = Inr (list_reply (int i + 1) sz (length es) (pages ! i))"
      using es(1) that by simp
    ultimately show ?thesis by (simp add: handle_def parse_request_def flattened_def app_result_def)
  qed
  then show ?thesis using es(2-6) by (intro exI [of _ pages] exI [of _ es]) simp
qed

theorem list_requests_complete_witness:
  "\<exists>pages es. page_count (length es) 20 = Fin (of_nat (length pages)) \<and> concat pages = map (viewed_as sample_query) es
     \<and> map (\<lambda>i. fst (handle sample_app (sample_moment, parse_request (\<lambda>_. Null) (Raw_List (query_object sample_query (int i + 1) 20)))
           \<lparr>se_db = sample_db, se_challenges = []\<rparr>)) [0..<length pages]
       = map (\<lambda>i. Json (list_reply (int i + 1) 20 (length es) (pages ! i))) [0..<length pages]"
proof -
  let ?s = "\<lparr>se_db = sample_db, se_challenges = []\<rparr> :: server"
  have "length (filter (escrow_matches sample_query) (stored_escrows (se_db ?s))) < 2 ^ 39" "db_sound (se_db ?s)"
      "sql_order (ap_order sample_app)" "pred_option (\<lambda>a. a \<noteq> []) (lq_address sample_query)"
    by (simp_all add: sample_db_facts sample_app_def sql_order_stable sample_query_def)
  from list_requests_complete [OF this(2,3) _ _ this(4,1), of 20 sample_moment "\<lambda>_. Null"] show ?thesis by auto
qed

section \<open>Every request for escrows is answered\<close>

lemma challengeQuery_ok:
  "challengeQuery v = Inr k \<longleftrightarrow> js_prop v ''publicKey'' = Str k \<and> starts_with ''G'' k \<and> 56 \<le> length k"
  by (auto simp: challengeQuery_def zText_def checked_Inr minLength_def startsWith_def split: jsval.splits if_splits)








end
