(* ===== verification/MockMilestone.thy ===== *)
theory MockMilestone
  imports Client
begin

text \<open>
  tools/scripts/mock-milestone.ts: the script that prints the calls of a full escrow lifecycle, made with
  an \<open>EscrowClient\<close> of the SDK. The addresses of random keys, of the token and of the contract are
  arguments, used where the environment gives none.
\<close>

record mock_defaults =
  md_funder :: string
  md_recipient :: string
  md_arbitrator :: string
  md_token :: string
  md_contract :: string

definition mock_milestones :: "milestone_input list" where
  "mock_milestones =
     [\<lparr>in_milestoneId = Fin 1, in_payoutAmount = 1500000000, in_descriptionHash = HashText (concat (replicate 32 ''11''))\<rparr>,
      \<lparr>in_milestoneId = Fin 2, in_payoutAmount = 3000000000, in_descriptionHash = HashText (concat (replicate 32 ''22''))\<rparr>]"

definition simulated_milestone :: "nat \<Rightarrow> string \<Rightarrow> milestone_input \<Rightarrow> jsval" where
  "simulated_milestone index hash item =
     Obj ([(''milestoneId'', Num (in_milestoneId item)), (''payoutAmount'', Str (int_dec (in_payoutAmount item))),
           (''descriptionHash'', Str hash), (''isApproved'', Bool (index = 0)),
           (''completedAt'', Str (int_dec (if index = 0 then 1700000000 else 0)))]
        @ (if index = 0 then [(''proofHash'', Str (concat (replicate 32 ''ab'')))] else [])
        @ [(''status'', Str (if index = 0 then ''Released'' else ''Pending''))])"

definition lifecycle_step :: "string \<Rightarrow> string \<Rightarrow> nat option \<Rightarrow> jsval" where
  "lifecycle_step step method args =
     Obj ([(''step'', Str step), (''method'', Str method)]
        @ (case args of Some n \<Rightarrow> [(''args'', Num (Fin (of_nat n)))] | None \<Rightarrow> []))"

definition decoded_object :: "decoded_event \<Rightarrow> jsval" where
  "decoded_object d =
     Obj [(''contractId'', Str (de_contractId d)), (''topic'', de_topic d),
          (''payload'', Obj [(''topics'', Arr (de_labels d)), (''data'', de_data d)])]"

text \<open>The value the script prints as JSON; members that are undefined are left out.\<close>

definition mock_report :: "('sc, 'tx) soroban \<Rightarrow> sc_lib \<Rightarrow> (string \<Rightarrow> string option) \<Rightarrow> mock_defaults \<Rightarrow> jsval js" where
  "mock_report B S env d =
     (let contractId = or_default (env ''ESCROW_CONTRACT_ID'') (md_contract d);
          params = \<lparr>ip_funder = or_default (env ''FUNDER_ADDRESS'') (md_funder d),
             ip_recipient = or_default (env ''RECIPIENT_ADDRESS'') (md_recipient d),
             ip_arbitrator = or_default (env ''ARBITRATOR_ADDRESS'') (md_arbitrator d),
             ip_token = or_default (env ''TOKEN_ADDRESS'') (md_token d), ip_milestones = mock_milestones\<rparr>
      in bindR (new_client B \<lparr>co_contractId = contractId, co_network = Some Testnet, co_rpcUrl = None, co_networkPassphrase = None\<rparr>) (\<lambda>client.
         bindR (initialize (sb_stellar B) client params) (\<lambda>init.
         bindR (submitMilestoneProof (sb_stellar B) client (Fin 1) (HashText (concat (replicate 32 ''ab'')))) (\<lambda>proof.
         bindR (approveMilestone (sb_stellar B) client (Fin 1)) (\<lambda>approve.
           let deposit = (depositFunds client :: 'sc built_invocation); dispute = (raiseDispute client :: 'sc built_invocation);
               decoded = decodeContractEvents S [\<lparr>le_contractId = Some contractId, le_topic = None, le_topics = Some [],
                 le_value = None, le_ledger = None, le_txHash = None\<rparr>]
           in Inr (Obj
             [(''contractId'', Str contractId),
              (''lifecycle'', Arr
                [lifecycle_step ''initialize'' (bi_method init) (Some (length (bi_args init))),
                 lifecycle_step ''deposit_funds'' (bi_method deposit) None,
                 lifecycle_step ''submit_milestone_proof'' (bi_method proof) (Some (length (bi_args proof))),
                 lifecycle_step ''approve_milestone'' (bi_method approve) None,
                 lifecycle_step ''raise_dispute'' (bi_method dispute) None]),
              (''simulatedState'', Arr (map Str [''Pending'', ''Active'', ''Active'', ''Disputed''])),
              (''simulatedMilestones'', Arr
                [simulated_milestone 0 (concat (replicate 32 ''11'')) (mock_milestones ! 0),
                 simulated_milestone 1 (concat (replicate 32 ''22'')) (mock_milestones ! 1)]),
              (''decodedEvents'', Arr (map decoded_object decoded))]))))))"

text \<open>What is printed whenever the SDK can be used: five calls whose methods are the names of the
  steps, five and two arguments, and an event without topics under the topic \<open>unknown\<close>.\<close>

lemma mock_report_calls:
  assumes "mock_report B SC env d = Inr r"
  shows "js_prop r ''lifecycle'' = Arr
     [Obj [(''step'', Str ''initialize''), (''method'', Str ''initialize''), (''args'', Num (Fin 5))],
      Obj [(''step'', Str ''deposit_funds''), (''method'', Str ''deposit_funds'')],
      Obj [(''step'', Str ''submit_milestone_proof''), (''method'', Str ''submit_milestone_proof''), (''args'', Num (Fin 2))],
      Obj [(''step'', Str ''approve_milestone''), (''method'', Str ''approve_milestone'')],
      Obj [(''step'', Str ''raise_dispute''), (''method'', Str ''raise_dispute'')]]"
  using assms
  by (auto simp: mock_report_def bindR_Inr_iff initialize_def submitMilestoneProof_def approveMilestone_def depositFunds_def
      raiseDispute_def build_def lifecycle_step_def Let_def)

end
