(* ===== verification/Database.thy ===== *)
theory Database
  imports JsConvert Regex
begin

text \<open>
  apps/server/src/config/database.ts: the connection URL, the numbered placeholders of
  PostgreSQL, the two implementations of \<open>SqlDatabase\<close> with their transactions, the
  migrations and the module's single instance. node:sqlite, pg and the file system are
  parameters (\<open>sqlite_lib\<close>, \<open>pg_lib\<close>); an operation returns its result and the connection it
  leaves.
\<close>

section \<open>Connection URLs and placeholders\<close>

datatype sql_dialect = Dialect_Sqlite | Dialect_Postgres

record parsed_url =
  pu_dialect :: sql_dialect
  pu_sqlitePath :: string
  pu_postgresUrl :: "string option"

definition or_text :: "string \<Rightarrow> string \<Rightarrow> string" where
  "or_text a b = (if a \<noteq> [] then a else b)"

definition parseDialect :: "string option \<Rightarrow> string option \<Rightarrow> parsed_url" where
  "parseDialect url sqlitePath =
     (let connection = (case url of None \<Rightarrow> [] | Some u \<Rightarrow> trim u) in
      if starts_with ''postgres://'' connection \<or> starts_with ''postgresql://'' connection
      then \<lparr>pu_dialect = Dialect_Postgres, pu_sqlitePath = '':memory:'', pu_postgresUrl = Some connection\<rparr>
      else if starts_with ''sqlite://'' connection
      then \<lparr>pu_dialect = Dialect_Sqlite, pu_sqlitePath = or_text (drop (length ''sqlite://'') connection) '':memory:'',
            pu_postgresUrl = None\<rparr>
      else \<lparr>pu_dialect = Dialect_Sqlite,
            pu_sqlitePath = or_text (or_default sqlitePath []) (or_text connection '':memory:''),
            pu_postgresUrl = None\<rparr>)"

fun number_marks :: "nat \<Rightarrow> string \<Rightarrow> string" where
  "number_marks index [] = []"
| "number_marks index (c # s) =
     (if c = CHR ''?'' then CHR ''$'' # int_dec (int (index + 1)) @ number_marks (index + 1) s
      else c # number_marks index s)"

definition rewritePlaceholders :: "string \<Rightarrow> sql_dialect \<Rightarrow> string" where
  "rewritePlaceholders sql dialect =
     (case dialect of Dialect_Sqlite \<Rightarrow> sql | Dialect_Postgres \<Rightarrow> number_marks 0 sql)"

section \<open>SQLite\<close>

record query_result =
  qr_rows :: "jsval list"
  qr_changes :: jsval

text \<open>\<open>exec\<close>, and \<open>all\<close>, \<open>run\<close>, \<open>get\<close> of a prepared statement; \<open>run\<close> answers its \<open>changes\<close>.\<close>

record 'c sqlite_lib =
  sq_mkdir :: "string \<Rightarrow> unit js"
  sq_open :: "string \<Rightarrow> 'c js"
  sq_exec :: "string \<Rightarrow> 'c \<Rightarrow> unit js \<times> 'c"
  sq_all :: "string \<Rightarrow> jsval list \<Rightarrow> 'c \<Rightarrow> jsval list js \<times> 'c"
  sq_run :: "string \<Rightarrow> jsval list \<Rightarrow> 'c \<Rightarrow> jsval js \<times> 'c"
  sq_get :: "string \<Rightarrow> jsval list \<Rightarrow> 'c \<Rightarrow> jsval js \<times> 'c"
  sq_close :: "'c \<Rightarrow> unit js"

record 'c sqlite_db =
  sd_conn :: 'c
  sd_txDepth :: int

text \<open>Sequencing of operations that may throw and change the connection.\<close>

definition bindD :: "'a js \<times> 'd \<Rightarrow> ('a \<Rightarrow> 'd \<Rightarrow> 'b js \<times> 'd) \<Rightarrow> 'b js \<times> 'd" where
  "bindD m f = (case m of (Inl e, d) \<Rightarrow> (Inl e, d) | (Inr x, d) \<Rightarrow> f x d)"

definition on_conn :: "('c \<Rightarrow> 'a js \<times> 'c) \<Rightarrow> 'c sqlite_db \<Rightarrow> 'a js \<times> 'c sqlite_db" where
  "on_conn f d = (case f (sd_conn d) of (r, c) \<Rightarrow> (r, d\<lparr>sd_conn := c\<rparr>))"

definition sqlite_exec :: "'c sqlite_lib \<Rightarrow> string \<Rightarrow> 'c sqlite_db \<Rightarrow> unit js \<times> 'c sqlite_db" where
  "sqlite_exec L sql = on_conn (sq_exec L sql)"

definition new_sqlite :: "'c sqlite_lib \<Rightarrow> string \<Rightarrow> 'c sqlite_db js" where
  "new_sqlite L path =
     bindR (if path \<noteq> '':memory:'' then sq_mkdir L path else Inr ()) (\<lambda>_.
     bindR (sq_open L path) (\<lambda>c.
       let d = \<lparr>sd_conn = c, sd_txDepth = 0\<rparr> in
       case sqlite_exec L ''PRAGMA foreign_keys = ON;'' d of
         (Inl e, _) \<Rightarrow> Inl e
       | (Inr _, d1) \<Rightarrow> Inr d1))"

text \<open>\<open>/^(select|pragma|with)\b/i\<close>\<close>

definition word_char :: "char \<Rightarrow> bool" where
  "word_char c = (is_dec c \<or> between (CHR ''a'') (CHR ''z'') c \<or> between (CHR ''A'') (CHR ''Z'') c \<or> c = CHR ''_'')"

definition keyword_at :: "string \<Rightarrow> string \<Rightarrow> bool" where
  "keyword_at w s =
     (starts_with w (map to_lower s) \<and> (case drop (length w) s of [] \<Rightarrow> True | c # _ \<Rightarrow> \<not> word_char c))"

definition isSelect :: "string \<Rightarrow> bool" where
  "isSelect sql = list_ex (\<lambda>w. keyword_at w (trim sql)) [''select'', ''pragma'', ''with'']"

definition sqlite_execute :: "'c sqlite_lib \<Rightarrow> string \<Rightarrow> jsval list \<Rightarrow> 'c sqlite_db \<Rightarrow> query_result js \<times> 'c sqlite_db" where
  "sqlite_execute L sql params d =
     (if isSelect sql
      then bindD (on_conn (sq_all L sql params) d) (\<lambda>rows d1.
             (Inr \<lparr>qr_rows = rows, qr_changes = Num (Fin (of_nat (length rows)))\<rparr>, d1))
      else bindD (on_conn (sq_run L sql params) d) (\<lambda>changes d1.
             (Inr \<lparr>qr_rows = [], qr_changes = coalesce changes (Num (Fin 0))\<rparr>, d1)))"

definition first_row :: "query_result \<Rightarrow> jsval" where
  "first_row q = (case qr_rows q of [] \<Rightarrow> Undefined | r # _ \<Rightarrow> r)"

definition sqlite_one :: "'c sqlite_lib \<Rightarrow> string \<Rightarrow> jsval list \<Rightarrow> 'c sqlite_db \<Rightarrow> jsval js \<times> 'c sqlite_db" where
  "sqlite_one L sql params d = bindD (sqlite_execute L sql params d) (\<lambda>q d1. (Inr (first_row q), d1))"

text \<open>The body of the \<open>try\<close>, and the whole method.\<close>

definition sqlite_try :: "'c sqlite_lib \<Rightarrow> ('c sqlite_db \<Rightarrow> 'a js \<times> 'c sqlite_db) \<Rightarrow> 'c sqlite_db \<Rightarrow> 'a js \<times> 'c sqlite_db" where
  "sqlite_try L work d =
     bindD (work d) (\<lambda>value d1.
       let d2 = d1\<lparr>sd_txDepth := sd_txDepth d1 - 1\<rparr> in
       bindD (if sd_txDepth d2 = 0 then sqlite_exec L ''COMMIT;'' d2 else (Inr (), d2)) (\<lambda>_ d3. (Inr value, d3)))"

definition sqlite_transaction :: "'c sqlite_lib \<Rightarrow> ('c sqlite_db \<Rightarrow> 'a js \<times> 'c sqlite_db) \<Rightarrow> 'c sqlite_db \<Rightarrow> 'a js \<times> 'c sqlite_db" where
  "sqlite_transaction L work d =
     (let d1 = d\<lparr>sd_txDepth := sd_txDepth d + 1\<rparr> in
      bindD (if sd_txDepth d1 = 1 then sqlite_exec L ''BEGIN IMMEDIATE;'' d1 else (Inr (), d1)) (\<lambda>_ d2.
        case sqlite_try L work d2 of
          (Inr value, d3) \<Rightarrow> (Inr value, d3)
        | (Inl e, d3) \<Rightarrow> bindD (sqlite_exec L ''ROLLBACK;'' (d3\<lparr>sd_txDepth := 0\<rparr>)) (\<lambda>_ d4. (Inl e, d4))))"

record migration =
  mi_id :: string
  mi_sqlite :: string
  mi_postgres :: string

definition newline :: string where "newline = [char_of (10 :: nat)]"

definition MIGRATIONS :: "migration list" where
  "MIGRATIONS =
     [\<lparr>mi_id = ''001_schema_migrations'',
       mi_sqlite = ''CREATE TABLE IF NOT EXISTS schema_migrations ('' @ newline @ ''      id TEXT PRIMARY KEY,'' @ newline
         @ ''      applied_at TEXT NOT NULL'' @ newline @ ''    );'',
       mi_postgres = ''CREATE TABLE IF NOT EXISTS schema_migrations ('' @ newline @ ''      id TEXT PRIMARY KEY,'' @ newline
         @ ''      applied_at TIMESTAMPTZ NOT NULL DEFAULT NOW()'' @ newline @ ''    );''\<rparr>]"

fun each_migration :: "(migration \<Rightarrow> 'd \<Rightarrow> unit js \<times> 'd) \<Rightarrow> migration list \<Rightarrow> 'd \<Rightarrow> unit js \<times> 'd" where
  "each_migration f [] d = (Inr (), d)"
| "each_migration f (m # ms) d = bindD (f m d) (\<lambda>_. each_migration f ms)"

definition sqlite_record :: "'c sqlite_lib \<Rightarrow> string \<Rightarrow> migration \<Rightarrow> 'c sqlite_db \<Rightarrow> unit js \<times> 'c sqlite_db" where
  "sqlite_record L now m d =
     bindD (on_conn (sq_get L ''SELECT id FROM schema_migrations WHERE id = ?'' [Str (mi_id m)]) d) (\<lambda>existing d1.
       if truthy existing then (Inr (), d1)
       else bindD (on_conn (sq_run L ''INSERT INTO schema_migrations (id, applied_at) VALUES (?, ?)'' [Str (mi_id m), Str now]) d1)
              (\<lambda>_ d2. (Inr (), d2)))"

definition sqlite_migrate :: "'c sqlite_lib \<Rightarrow> string \<Rightarrow> 'c sqlite_db \<Rightarrow> unit js \<times> 'c sqlite_db" where
  "sqlite_migrate L now d =
     bindD (each_migration (\<lambda>m. sqlite_exec L (mi_sqlite m)) MIGRATIONS d) (\<lambda>_.
       each_migration (sqlite_record L now) MIGRATIONS)"

record ping_result =
  pr_dialect :: sql_dialect
  pr_latencyMs :: int

definition sqlite_ping :: "'c sqlite_lib \<Rightarrow> int \<Rightarrow> int \<Rightarrow> 'c sqlite_db \<Rightarrow> ping_result js \<times> 'c sqlite_db" where
  "sqlite_ping L t1 t2 d =
     bindD (on_conn (sq_get L ''SELECT 1 AS ok'' []) d) (\<lambda>_ d1. (Inr \<lparr>pr_dialect = Dialect_Sqlite, pr_latencyMs = t2 - t1\<rparr>, d1))"

section \<open>PostgreSQL\<close>

record 'c pg_lib =
  pg_import :: "unit js"
  pg_connect :: "string \<Rightarrow> 'c js"
  pg_query :: "string \<Rightarrow> jsval list \<Rightarrow> 'c \<Rightarrow> (jsval list \<times> jsval) js \<times> 'c"
  pg_end :: "'c \<Rightarrow> unit js"

definition pg_execute :: "'c pg_lib \<Rightarrow> string \<Rightarrow> jsval list \<Rightarrow> 'c \<Rightarrow> query_result js \<times> 'c" where
  "pg_execute L sql params c =
     bindD (pg_query L (rewritePlaceholders sql Dialect_Postgres) params c) (\<lambda>r c1.
       (Inr \<lparr>qr_rows = fst r, qr_changes = coalesce (snd r) (Num (Fin 0))\<rparr>, c1))"

definition pg_one :: "'c pg_lib \<Rightarrow> string \<Rightarrow> jsval list \<Rightarrow> 'c \<Rightarrow> jsval js \<times> 'c" where
  "pg_one L sql params c = bindD (pg_execute L sql params c) (\<lambda>q c1. (Inr (first_row q), c1))"

definition pg_transaction :: "'c pg_lib \<Rightarrow> ('c \<Rightarrow> 'a js \<times> 'c) \<Rightarrow> 'c \<Rightarrow> 'a js \<times> 'c" where
  "pg_transaction L work c =
     bindD (pg_query L ''BEGIN'' [] c) (\<lambda>_ c1.
       case bindD (work c1) (\<lambda>value c2. bindD (pg_query L ''COMMIT'' [] c2) (\<lambda>_ c3. (Inr value, c3))) of
         (Inr value, c3) \<Rightarrow> (Inr value, c3)
       | (Inl e, c3) \<Rightarrow> bindD (pg_query L ''ROLLBACK'' [] c3) (\<lambda>_ c4. (Inl e, c4)))"

definition pg_migrate_one :: "'c pg_lib \<Rightarrow> migration \<Rightarrow> 'c \<Rightarrow> unit js \<times> 'c" where
  "pg_migrate_one L m c =
     bindD (pg_query L (mi_postgres m) [] c) (\<lambda>_ c1.
     bindD (pg_query L ''SELECT id FROM schema_migrations WHERE id = $1'' [Str (mi_id m)] c1) (\<lambda>existing c2.
       if fst existing = []
       then bindD (pg_query L ''INSERT INTO schema_migrations (id, applied_at) VALUES ($1, NOW())'' [Str (mi_id m)] c2)
              (\<lambda>_ c3. (Inr (), c3))
       else (Inr (), c2)))"

definition pg_migrate :: "'c pg_lib \<Rightarrow> 'c \<Rightarrow> unit js \<times> 'c" where
  "pg_migrate L = each_migration (pg_migrate_one L) MIGRATIONS"

definition pg_ping :: "'c pg_lib \<Rightarrow> int \<Rightarrow> int \<Rightarrow> 'c \<Rightarrow> ping_result js \<times> 'c" where
  "pg_ping L t1 t2 c =
     bindD (pg_query L ''SELECT 1 AS ok'' [] c) (\<lambda>_ c1. (Inr \<lparr>pr_dialect = Dialect_Postgres, pr_latencyMs = t2 - t1\<rparr>, c1))"

definition connectPostgres :: "'c pg_lib \<Rightarrow> string \<Rightarrow> 'c js" where
  "connectPostgres L url =
     (case pg_import L of
        Inl _ \<Rightarrow> Inl (PlainErr ''PostgreSQL support requires the `pg` package. Install it or use a sqlite:// DATABASE_URL.'')
      | Inr _ \<Rightarrow> pg_connect L url)"

section \<open>The instance of the module\<close>

record database_config =
  dc_url :: "string option"
  dc_sqlitePath :: "string option"

datatype ('s, 'p) sql_database = Sqlite "'s sqlite_db" | Postgres 'p

definition left_option :: "'a option \<Rightarrow> 'a option \<Rightarrow> 'a option" where
  "left_option a b = (case a of None \<Rightarrow> b | Some _ \<Rightarrow> a)"

text \<open>\<open>env\<close> is \<open>process.env\<close>, \<open>config\<close> the argument.\<close>

definition createDatabase :: "'s sqlite_lib \<Rightarrow> 'p pg_lib \<Rightarrow> string \<Rightarrow> database_config \<Rightarrow> database_config \<Rightarrow> ('s, 'p) sql_database js" where
  "createDatabase L P now env config =
     (let parsed = parseDialect (left_option (dc_url config) (dc_url env)) (left_option (dc_sqlitePath config) (dc_sqlitePath env)) in
      if pu_dialect parsed = Dialect_Postgres \<and> or_default (pu_postgresUrl parsed) [] \<noteq> []
      then bindR (connectPostgres P (or_default (pu_postgresUrl parsed) [])) (\<lambda>c.
             case pg_migrate P c of (Inl e, _) \<Rightarrow> Inl e | (Inr _, c1) \<Rightarrow> Inr (Postgres c1))
      else bindR (new_sqlite L (pu_sqlitePath parsed)) (\<lambda>d.
             case sqlite_migrate L now d of (Inl e, _) \<Rightarrow> Inl e | (Inr _, d1) \<Rightarrow> Inr (Sqlite d1)))"

text \<open>The singleton is the settled promise; \<open>create\<close> is the outcome of \<open>createDatabase()\<close>, if it runs.\<close>

definition getDatabase :: "'d js \<Rightarrow> 'd js option \<Rightarrow> 'd js \<times> 'd js option" where
  "getDatabase create singleton =
     (case singleton of
        None \<Rightarrow> (create, Some create)
      | Some p \<Rightarrow> (p, singleton))"

definition close_database :: "'s sqlite_lib \<Rightarrow> 'p pg_lib \<Rightarrow> ('s, 'p) sql_database \<Rightarrow> unit js" where
  "close_database L P db = (case db of Sqlite d \<Rightarrow> sq_close L (sd_conn d) | Postgres c \<Rightarrow> pg_end P c)"

definition resetDatabaseSingleton :: "('d \<Rightarrow> unit js) \<Rightarrow> 'd js option \<Rightarrow> unit js \<times> 'd js option" where
  "resetDatabaseSingleton close singleton =
     (case singleton of
        None \<Rightarrow> (Inr (), None)
      | Some (Inl e) \<Rightarrow> (Inl e, singleton)
      | Some (Inr db) \<Rightarrow> (case close db of Inl e \<Rightarrow> (Inl e, singleton) | Inr _ \<Rightarrow> (Inr (), None)))"

section \<open>Placeholders\<close>

lemma number_marks_append: "CHR ''?'' \<notin> set s \<Longrightarrow> number_marks i (s @ t) = s @ number_marks i t"
  by (induction s) auto

lemma number_marks_segments:
  "list_all (\<lambda>s. CHR ''?'' \<notin> set s) rest \<Longrightarrow>
     number_marks i (concat (map (\<lambda>s. CHR ''?'' # s) rest)) =
     concat (map (\<lambda>(j, s). CHR ''$'' # int_dec (int j) @ s) (zip [i + 1..<i + 1 + length rest] rest))"
proof (induction rest arbitrary: i)
  case (Cons s rest)
  have "[i + 1..<i + 1 + length (s # rest)] = (i + 1) # [i + 1 + 1..<i + 1 + 1 + length rest]"
    by (subst upt_conv_Cons) simp_all
  with Cons show ?case by (simp add: number_marks_append)
qed simp

text \<open>The question marks of a statement become \<open>$1\<close>, \<open>$2\<close>, ... in order, wherever they stand.\<close>

theorem placeholders_numbered:
  assumes "CHR ''?'' \<notin> set first" "list_all (\<lambda>s. CHR ''?'' \<notin> set s) rest"
  shows "rewritePlaceholders (first @ concat (map (\<lambda>s. CHR ''?'' # s) rest)) Dialect_Postgres =
    first @ concat (map (\<lambda>(j, s). CHR ''$'' # int_dec (int j) @ s) (zip [1..<1 + length rest] rest))"
  using number_marks_segments [OF assms(2), of 0] by (simp add: rewritePlaceholders_def number_marks_append [OF assms(1)])

section \<open>Transactions\<close>

text \<open>
  What the methods rely on of node:sqlite. \<open>view c\<close> is the content a commit of the connection
  would leave and, in an open transaction, the content at its start. \<open>BEGIN\<close> may be refused
  (another process holds the lock), and is refused in an open transaction; a \<open>COMMIT\<close> that fails
  leaves the transaction open or, as SQLite does when the disk is full or cannot be written,
  rolls it back; after \<open>ROLLBACK\<close> no transaction is open, and without one it fails.
\<close>

text \<open>A transaction begun at content \<open>x\<close>, still open or rolled back.\<close>

definition undoable :: "('d \<times> 'd option) \<Rightarrow> 'd \<Rightarrow> bool" where
  "undoable v x \<longleftrightarrow> snd v = Some x \<or> v = (x, None)"

definition sqlite_laws :: "'c sqlite_lib \<Rightarrow> ('c \<Rightarrow> 'd \<times> 'd option) \<Rightarrow> bool" where
  "sqlite_laws L view \<longleftrightarrow>
     (\<forall>c r c'. sq_exec L ''BEGIN IMMEDIATE;'' c = (r, c') \<longrightarrow>
        (if is_ok r then snd (view c) = None \<and> view c' = (fst (view c), Some (fst (view c))) else view c' = view c)) \<and>
     (\<forall>c r c'. sq_exec L ''COMMIT;'' c = (r, c') \<longrightarrow>
        (if is_ok r then snd (view c) \<noteq> None \<and> view c' = (fst (view c), None)
         else view c' = view c \<or> (\<exists>x. snd (view c) = Some x \<and> view c' = (x, None)))) \<and>
     (\<forall>c r c'. sq_exec L ''ROLLBACK;'' c = (r, c') \<longrightarrow>
        (case snd (view c) of None \<Rightarrow> \<not> is_ok r \<and> view c' = view c | Some x \<Rightarrow> view c' = (x, None)))"

lemma law_begin:
  assumes "sqlite_laws L view" "sq_exec L ''BEGIN IMMEDIATE;'' c = (r, c')"
  shows "is_ok r \<Longrightarrow> view c' = (fst (view c), Some (fst (view c)))" "\<not> is_ok r \<Longrightarrow> view c' = view c"
  using assms unfolding sqlite_laws_def by metis+

lemma law_commit:
  assumes "sqlite_laws L view" "sq_exec L ''COMMIT;'' c = (r, c')"
  shows "is_ok r \<Longrightarrow> view c' = (fst (view c), None)" "\<not> is_ok r \<Longrightarrow> snd (view c) = Some x \<Longrightarrow> undoable (view c') x"
  using assms unfolding sqlite_laws_def undoable_def by (metis option.inject)+

lemma law_rollback:
  assumes "sqlite_laws L view" "sq_exec L ''ROLLBACK;'' c = (r, c')"
  shows "undoable (view c) x \<Longrightarrow> view c' = (x, None)" "snd (view c) = None \<Longrightarrow> \<not> is_ok r \<and> view c' = view c"
proof -
  have "case snd (view c) of None \<Rightarrow> \<not> is_ok r \<and> view c' = view c | Some x \<Rightarrow> view c' = (x, None)"
    using assms unfolding sqlite_laws_def by blast
  then show "undoable (view c) x \<Longrightarrow> view c' = (x, None)" "snd (view c) = None \<Longrightarrow> \<not> is_ok r \<and> view c' = view c"
    by (auto simp: undoable_def)
qed

text \<open>
  Work that leaves the depth as it is and, when it returns, the open transaction too; when it
  throws, SQLite may have rolled the transaction back. Work that calls \<open>transaction\<close> itself and
  catches its failure is not of this kind, nor is work that swallows an error which rolled
  the transaction back, nor work interleaved with another transaction of the instance.
\<close>

definition keeps_tx :: "('c \<Rightarrow> 'd \<times> 'd option) \<Rightarrow> ('c sqlite_db \<Rightarrow> 'a js \<times> 'c sqlite_db) \<Rightarrow> bool" where
  "keeps_tx view work \<longleftrightarrow>
     (\<forall>d r d'. work d = (r, d') \<longrightarrow> sd_txDepth d' = sd_txDepth d
        \<and> (snd (view (sd_conn d')) = snd (view (sd_conn d))
           \<or> \<not> is_ok r \<and> (\<exists>x. snd (view (sd_conn d)) = Some x \<and> view (sd_conn d') = (x, None))))"

lemma keeps_txD:
  assumes "keeps_tx view work" "work d = (r, d')" "snd (view (sd_conn d)) = Some x"
  shows "sd_txDepth d' = sd_txDepth d" "undoable (view (sd_conn d')) x" "is_ok r \<Longrightarrow> snd (view (sd_conn d')) = Some x"
  using assms unfolding keeps_tx_def undoable_def by (metis option.inject)+

lemma bindD_cases:
  obtains e d1 where "m = (Inl e, d1)" "bindD m f = (Inl e, d1)"
  | x d1 where "m = (Inr x, d1)" "bindD m f = f x d1"
  by (cases m; cases "fst m") (auto simp: bindD_def)

lemma bindD_simps [simp]: "bindD (Inl e, d) f = (Inl e, d)" "bindD (Inr x, d) f = f x d"
  by (simp_all add: bindD_def)

lemma sqlite_exec_simp:
  "sqlite_exec L sql d = (fst (sq_exec L sql (sd_conn d)), d\<lparr>sd_conn := snd (sq_exec L sql (sd_conn d))\<rparr>)"
  by (simp add: sqlite_exec_def on_conn_def split: prod.split)

lemma sqlite_try_tx:
  assumes "sqlite_laws L view" "keeps_tx view work" "snd (view (sd_conn d1)) = Some x" "sd_txDepth d1 = 1"
    and "sqlite_try L work d1 = (r, d3)"
  shows "case r of
      Inr v \<Rightarrow> sd_txDepth d3 = 0 \<and> (\<exists>d2. work d1 = (Inr v, d2) \<and> view (sd_conn d3) = (fst (view (sd_conn d2)), None))
    | Inl e \<Rightarrow> undoable (view (sd_conn d3)) x"
proof -
  obtain rw d2 where w: "work d1 = (rw, d2)" by fastforce
  note d2 = keeps_txD [OF assms(2) w assms(3)]
  obtain rc c3 where c: "sq_exec L ''COMMIT;'' (sd_conn d2) = (rc, c3)" by fastforce
  show ?thesis
  proof (cases rw)
    case (Inl e)
    then show ?thesis using assms(5) w d2 by (auto simp: sqlite_try_def)
  next
    case v: (Inr v)
    show ?thesis
    proof (cases rc)
      case (Inl e)
      then show ?thesis using assms(4,5) w d2 v law_commit(2) [OF assms(1) c]
        by (auto simp: sqlite_try_def sqlite_exec_simp c is_ok_def)
    next
      case (Inr u)
      then show ?thesis using assms(4,5) w d2 v law_commit(1) [OF assms(1) c]
        by (auto simp: sqlite_try_def sqlite_exec_simp c is_ok_def)
    qed
  qed
qed

text \<open>C15: A top-level SQLite transaction is atomic for work that keeps the transaction: work that leaves
  the depth as it found it and, whenever it returns normally, the transaction open (so not
  work that catches the failure of a nested transaction, or an error by which SQLite rolled
  the transaction back). When the transaction returns, exactly what its work wrote is committed; when
  it throws, also because \<open>BEGIN\<close>, \<open>COMMIT\<close> or \<open>ROLLBACK\<close> failed or SQLite had rolled back by
  itself, the content is what it was before and no transaction is open. The depth is back at
  0, except that a refused \<open>BEGIN\<close> leaves it at 1.\<close>

theorem sqlite_transaction_atomic:
  assumes "sqlite_laws L view" "keeps_tx view work" "snd (view c) = None"
    and "sqlite_transaction L work \<lparr>sd_conn = c, sd_txDepth = 0\<rparr> = (r, d)"
  shows "case r of
      Inr v \<Rightarrow> sd_txDepth d = 0 \<and> snd (view (sd_conn d)) = None
        \<and> (\<exists>c1 d2. view c1 = (fst (view c), Some (fst (view c))) \<and> work \<lparr>sd_conn = c1, sd_txDepth = 1\<rparr> = (Inr v, d2)
             \<and> fst (view (sd_conn d)) = fst (view (sd_conn d2)))
    | Inl e \<Rightarrow> view (sd_conn d) = view c
        \<and> sd_txDepth d = (if is_ok (fst (sq_exec L ''BEGIN IMMEDIATE;'' c)) then 0 else 1)"
proof -
  obtain rb c1 where b: "sq_exec L ''BEGIN IMMEDIATE;'' c = (rb, c1)" by fastforce
  note run = assms(4) [unfolded sqlite_transaction_def]
  show ?thesis
  proof (cases rb)
    case (Inl e)
    then show ?thesis using run law_begin(2) [OF assms(1) b] by (auto simp: sqlite_exec_simp b is_ok_def)
  next
    case (Inr u)
    let ?d1 = "\<lparr>sd_conn = c1, sd_txDepth = 1\<rparr>"
    have v1: "view c1 = (fst (view c), Some (fst (view c)))"
      using law_begin(1) [OF assms(1) b] Inr by (simp add: is_ok_def)
    obtain rt d3 where t: "sqlite_try L work ?d1 = (rt, d3)" by fastforce
    have d3: "case rt of
        Inr v \<Rightarrow> sd_txDepth d3 = 0 \<and> (\<exists>d2. work ?d1 = (Inr v, d2) \<and> view (sd_conn d3) = (fst (view (sd_conn d2)), None))
      | Inl e \<Rightarrow> undoable (view (sd_conn d3)) (fst (view c))"
      by (rule sqlite_try_tx [OF assms(1,2) _ _ t]) (simp_all add: v1)
    show ?thesis
    proof (cases rt)
      case (Inr v)
      then have "r = Inr v" "d = d3" using run t \<open>rb = Inr u\<close> by (auto simp: sqlite_exec_simp b)
      then show ?thesis using d3 Inr v1 by auto
    next
      case (Inl e)
      obtain rr c4 where r: "sq_exec L ''ROLLBACK;'' (sd_conn d3) = (rr, c4)" by fastforce
      have "view c4 = (fst (view c), None)"
        using law_rollback(1) [OF assms(1) r] d3 Inl by auto
      moreover have "view c = (fst (view c), None)" using assms(3) by (metis prod.collapse)
      ultimately show ?thesis
        using run t Inl Inr by (cases rr) (auto simp: sqlite_exec_simp b r is_ok_def)
    qed
  qed
qed

definition sample_exec :: "string \<Rightarrow> int \<times> int option \<Rightarrow> unit js \<times> int \<times> int option" where
  "sample_exec sql c =
     (case snd c of
        None \<Rightarrow> if sql = ''BEGIN IMMEDIATE;'' \<and> 0 \<le> fst c then (Inr (), fst c, Some (fst c))
          else if sql = ''COMMIT;'' \<or> sql = ''ROLLBACK;'' \<or> sql = ''BEGIN IMMEDIATE;'' then (Inl (PlainErr sql), c) else (Inr (), c)
      | Some x \<Rightarrow> if sql = ''COMMIT;'' then (if fst c < 0 then (Inl (PlainErr sql), x, None) else (Inr (), fst c, None)) else if sql = ''ROLLBACK;'' then (Inr (), x, None)
          else if sql = ''BEGIN IMMEDIATE;'' then (Inl (PlainErr sql), c) else (Inr (), c))"

text \<open>A database holding one number, which refuses to open a transaction while it is
  negative and rolls back a commit that would leave it negative.\<close>

definition sample_sqlite :: "(int \<times> int option) sqlite_lib" where
  "sample_sqlite = \<lparr>sq_mkdir = (\<lambda>_. Inr ()), sq_open = (\<lambda>_. Inr (0, None)), sq_exec = sample_exec,
     sq_all = (\<lambda>_ _ c. (Inr [], c)), sq_run = (\<lambda>_ _ c. (Inr Undefined, c)), sq_get = (\<lambda>_ _ c. (Inr Undefined, c)),
     sq_close = (\<lambda>_. Inr ())\<rparr>"

definition put_number :: "int \<Rightarrow> 'a js \<Rightarrow> (int \<times> int option) sqlite_db \<Rightarrow> 'a js \<times> (int \<times> int option) sqlite_db" where
  "put_number n r d = (r, d\<lparr>sd_conn := (n, snd (sd_conn d))\<rparr>)"

lemma sample_sqlite_laws: "sqlite_laws sample_sqlite id"
  unfolding sqlite_laws_def
  by (intro conjI allI impI) (auto simp: sample_sqlite_def sample_exec_def is_ok_def split: option.splits if_splits)

lemma put_number_keeps: "keeps_tx id (put_number n r)"
  by (simp add: keeps_tx_def put_number_def)

theorem sqlite_transaction_atomic_witness:
  "\<exists>d. sqlite_transaction sample_sqlite (put_number (- 5) (Inr ())) \<lparr>sd_conn = (3, None), sd_txDepth = 0\<rparr> = (Inl (PlainErr ''ROLLBACK;''), d)
     \<and> sd_conn d = (3, None) \<and> sd_txDepth d = 0"
proof -
  let ?t = "sqlite_transaction sample_sqlite (put_number (- 5) (Inr ())) \<lparr>sd_conn = (3, None), sd_txDepth = 0\<rparr>"
  have "fst ?t = Inl (PlainErr ''ROLLBACK;'')"
    by (simp add: sqlite_transaction_def sqlite_try_def put_number_def sqlite_exec_simp sample_sqlite_def sample_exec_def)
  then have t: "?t = (Inl (PlainErr ''ROLLBACK;''), snd ?t)" by (metis prod.collapse)
  have "is_ok (fst (sq_exec sample_sqlite ''BEGIN IMMEDIATE;'' (3, None)))"
    by (simp add: sample_sqlite_def sample_exec_def is_ok_def)
  then show ?thesis
    using sqlite_transaction_atomic [OF sample_sqlite_laws put_number_keeps _ t] t by (intro exI [of _ "snd ?t"]) simp
qed

text \<open>A refused \<open>BEGIN\<close> leaves the depth at 1, so the next transaction opens none: when its
  work fails, what it had written stays, and the error of its work is replaced by the error of
  \<open>ROLLBACK\<close>.\<close>

theorem refused_begin_loses_atomicity:
  assumes "sqlite_laws L view" "sq_exec L ''BEGIN IMMEDIATE;'' c = (Inl busy, c1)"
    and "work2 \<lparr>sd_conn = c1, sd_txDepth = 2\<rparr> = (Inl e, d2)" "snd (view (sd_conn d2)) = None"
  shows "\<exists>e' c3. sqlite_transaction L work1 \<lparr>sd_conn = c, sd_txDepth = 0\<rparr> = (Inl busy, \<lparr>sd_conn = c1, sd_txDepth = 1\<rparr>)
     \<and> sqlite_transaction L work2 \<lparr>sd_conn = c1, sd_txDepth = 1\<rparr> = (Inl e', \<lparr>sd_conn = c3, sd_txDepth = 0\<rparr>)
     \<and> fst (sq_exec L ''ROLLBACK;'' (sd_conn d2)) = Inl e' \<and> view c3 = view (sd_conn d2)"
proof -
  obtain rr c3 where r: "sq_exec L ''ROLLBACK;'' (sd_conn d2) = (rr, c3)" by fastforce
  then have "\<not> is_ok rr" "view c3 = view (sd_conn d2)" using law_rollback(2) [OF assms(1) r assms(4)] by auto
  then obtain e' where e': "rr = Inl e'" by (cases rr) (auto simp: is_ok_def)
  have "sqlite_transaction L work1 \<lparr>sd_conn = c, sd_txDepth = 0\<rparr> = (Inl busy, \<lparr>sd_conn = c1, sd_txDepth = 1\<rparr>)"
    by (simp add: sqlite_transaction_def sqlite_exec_simp assms(2))
  moreover have "sqlite_transaction L work2 \<lparr>sd_conn = c1, sd_txDepth = 1\<rparr> = (Inl e', \<lparr>sd_conn = c3, sd_txDepth = 0\<rparr>)"
    by (simp add: sqlite_transaction_def sqlite_try_def sqlite_exec_simp assms(3) r e')
  ultimately show ?thesis using r e' \<open>view c3 = view (sd_conn d2)\<close> by (intro exI [of _ e'] exI [of _ c3]) simp
qed

theorem refused_begin_loses_atomicity_witness:
  "\<exists>e' c3. sqlite_transaction sample_sqlite (put_number 0 (Inr ())) \<lparr>sd_conn = (-1, None), sd_txDepth = 0\<rparr>
       = (Inl (PlainErr ''BEGIN IMMEDIATE;''), \<lparr>sd_conn = (-1, None), sd_txDepth = 1\<rparr>)
     \<and> sqlite_transaction sample_sqlite (put_number 7 (Inl TypeErr :: unit js)) \<lparr>sd_conn = (-1, None), sd_txDepth = 1\<rparr>
       = (Inl e', \<lparr>sd_conn = c3, sd_txDepth = 0\<rparr>) \<and> c3 = (7, None)"
  using refused_begin_loses_atomicity [OF sample_sqlite_laws, of "(-1, None)" "PlainErr ''BEGIN IMMEDIATE;''" "(-1, None)"
      "put_number 7 (Inl TypeErr :: unit js)" TypeErr "\<lparr>sd_conn = (7, None), sd_txDepth = 2\<rparr>" "put_number 0 (Inr ())"]
  by (simp add: put_number_def sample_sqlite_def sample_exec_def)

text \<open>\<open>try { await db.transaction(inner) } catch {}\<close>\<close>

definition caught :: "'a js \<times> 'd \<Rightarrow> 'd" where
  "caught m = snd m"

text \<open>A transaction that fails inside another and is caught there rolls back the outer one too: the
  outer transaction returns normally although everything it had written is lost, and it leaves
  the depth at -1, so the next transaction runs without \<open>BEGIN\<close> and \<open>COMMIT\<close> and leaves it
  there again.\<close>

theorem nested_failure_loses_outer:
  assumes "sqlite_laws L view" "sq_exec L ''BEGIN IMMEDIATE;'' c = (Inr (), c1)"
    and "keeps_tx view before" "before \<lparr>sd_conn = c1, sd_txDepth = 1\<rparr> = (Inr (), d2)"
    and "keeps_tx view inner" "inner (d2\<lparr>sd_txDepth := 2\<rparr>) = (Inl e, d3)"
  shows "\<exists>c4. sqlite_transaction L (\<lambda>d. bindD (before d) (\<lambda>_ d'. (Inr v, caught (sqlite_transaction L inner d'))))
        \<lparr>sd_conn = c, sd_txDepth = 0\<rparr> = (Inr v, \<lparr>sd_conn = c4, sd_txDepth = -1\<rparr>)
     \<and> view c4 = (fst (view c), None)
     \<and> (\<forall>later u c5. later \<lparr>sd_conn = c4, sd_txDepth = 0\<rparr> = (Inr u, \<lparr>sd_conn = c5, sd_txDepth = 0\<rparr>) \<longrightarrow>
          sqlite_transaction L later \<lparr>sd_conn = c4, sd_txDepth = -1\<rparr> = (Inr u, \<lparr>sd_conn = c5, sd_txDepth = -1\<rparr>))"
proof -
  have v1: "view c1 = (fst (view c), Some (fst (view c)))"
    using law_begin(1) [OF assms(1,2)] by (simp add: is_ok_def)
  have d2: "sd_txDepth d2 = 1" "snd (view (sd_conn d2)) = Some (fst (view c))"
    using keeps_txD [OF assms(3,4)] v1 by (auto simp: is_ok_def)
  have d3: "undoable (view (sd_conn d3)) (fst (view c))"
    using keeps_txD(2) [OF assms(5,6)] d2(2) by simp
  obtain rr c4 where r: "sq_exec L ''ROLLBACK;'' (sd_conn d3) = (rr, c4)" by fastforce
  have rr: "view c4 = (fst (view c), None)" using law_rollback(1) [OF assms(1) r d3] .
  have "snd (sqlite_transaction L inner d2) = \<lparr>sd_conn = c4, sd_txDepth = 0\<rparr>"
    using assms(6) d2(1) by (simp add: sqlite_transaction_def sqlite_try_def sqlite_exec_simp r bindD_def split: sum.split)
  then have "sqlite_transaction L (\<lambda>d. bindD (before d) (\<lambda>_ d'. (Inr v, caught (sqlite_transaction L inner d'))))
        \<lparr>sd_conn = c, sd_txDepth = 0\<rparr> = (Inr v, \<lparr>sd_conn = c4, sd_txDepth = -1\<rparr>)"
    by (simp add: sqlite_transaction_def [of L _ "\<lparr>sd_conn = c, sd_txDepth = 0\<rparr>"] sqlite_exec_simp assms(2,4) sqlite_try_def caught_def)
  moreover have "sqlite_transaction L later \<lparr>sd_conn = c4, sd_txDepth = -1\<rparr> = (Inr u, \<lparr>sd_conn = c5, sd_txDepth = -1\<rparr>)"
    if "later \<lparr>sd_conn = c4, sd_txDepth = 0\<rparr> = (Inr u, \<lparr>sd_conn = c5, sd_txDepth = 0\<rparr>)" for later u c5
    by (simp add: sqlite_transaction_def sqlite_try_def that)
  ultimately show ?thesis using rr by blast
qed

theorem nested_failure_loses_outer_witness:
  "\<exists>c4. sqlite_transaction sample_sqlite
        (\<lambda>d. bindD (put_number 5 (Inr ()) d) (\<lambda>_ d'. (Inr (), caught (sqlite_transaction sample_sqlite (put_number 6 (Inl TypeErr :: unit js)) d'))))
        \<lparr>sd_conn = (3, None), sd_txDepth = 0\<rparr> = (Inr (), \<lparr>sd_conn = c4, sd_txDepth = -1\<rparr>) \<and> c4 = (3, None)"
  using nested_failure_loses_outer [OF sample_sqlite_laws, of "(3, None)" "(3, Some 3)" "put_number 5 (Inr ())"
      "\<lparr>sd_conn = (5, Some 3), sd_txDepth = 1\<rparr>" "put_number 6 (Inl TypeErr :: unit js)" TypeErr
      "\<lparr>sd_conn = (6, Some 3), sd_txDepth = 2\<rparr>" "()"] put_number_keeps
  by (auto simp: put_number_def sample_sqlite_def sample_exec_def)

text \<open>
  What the PostgreSQL methods rely on of the server, with the same \<open>view\<close>: \<open>BEGIN\<close> in an open
  transaction and \<open>COMMIT\<close> or \<open>ROLLBACK\<close> without one only warn.
\<close>

definition pg_laws :: "'c pg_lib \<Rightarrow> ('c \<Rightarrow> 'd \<times> 'd option) \<Rightarrow> bool" where
  "pg_laws L view \<longleftrightarrow>
     (\<forall>c. is_ok (fst (pg_query L ''BEGIN'' [] c)) \<and> view (snd (pg_query L ''BEGIN'' [] c)) =
        (fst (view c), Some (case snd (view c) of None \<Rightarrow> fst (view c) | Some x \<Rightarrow> x))) \<and>
     (\<forall>c. is_ok (fst (pg_query L ''COMMIT'' [] c)) \<and> view (snd (pg_query L ''COMMIT'' [] c)) = (fst (view c), None)) \<and>
     (\<forall>c. is_ok (fst (pg_query L ''ROLLBACK'' [] c)) \<and> view (snd (pg_query L ''ROLLBACK'' [] c)) =
        (case snd (view c) of None \<Rightarrow> fst (view c) | Some x \<Rightarrow> x, None))"

lemma is_ok_pair: "is_ok (fst m) \<Longrightarrow> \<exists>x. m = (Inr x, snd m)"
  by (cases m; cases "fst m") (auto simp: is_ok_def)

text \<open>With PostgreSQL a transaction inside another commits the outer one: the inner transaction's
  commit keeps what the outer work had written before it, and the outer transaction, failing
  afterwards, cannot take any of it back.\<close>

theorem pg_nested_commits:
  assumes "pg_laws L view" "pg_query L ''BEGIN'' [] c = (Inr b, c1)" "before c1 = (Inr (), c2)"
    and "pg_query L ''BEGIN'' [] c2 = (Inr b', c3)" "inner c3 = (Inr u, c4)"
  shows "\<exists>d. pg_transaction L (\<lambda>x. bindD (before x) (\<lambda>_ y. bindD (pg_transaction L inner y) (\<lambda>_ z. (Inl e, z)))) c = (Inl e :: unit js, d)
     \<and> view d = (fst (view c4), None)"
proof -
  obtain q where q: "pg_query L ''COMMIT'' [] c4 = (Inr q, snd (pg_query L ''COMMIT'' [] c4))"
    using assms(1) is_ok_pair unfolding pg_laws_def by blast
  let ?c5 = "snd (pg_query L ''COMMIT'' [] c4)"
  have v5: "view ?c5 = (fst (view c4), None)" using assms(1) unfolding pg_laws_def by blast
  obtain q' where q': "pg_query L ''ROLLBACK'' [] ?c5 = (Inr q', snd (pg_query L ''ROLLBACK'' [] ?c5))"
    using assms(1) is_ok_pair unfolding pg_laws_def by blast
  have "view (snd (pg_query L ''ROLLBACK'' [] ?c5)) = (fst (view c4), None)"
    using assms(1) v5 unfolding pg_laws_def by simp
  moreover have "pg_transaction L inner c2 = (Inr u, ?c5)"
    unfolding pg_transaction_def assms(4) bindD_simps assms(5) by (subst q) simp
  then have "pg_transaction L (\<lambda>x. bindD (before x) (\<lambda>_ y. bindD (pg_transaction L inner y) (\<lambda>_ z. (Inl e, z)))) c
      = (Inl e, snd (pg_query L ''ROLLBACK'' [] ?c5))"
    unfolding pg_transaction_def [of L _ c] assms(2) bindD_simps assms(3) by (simp, subst q') simp
  ultimately show ?thesis by blast
qed

definition sample_pg_query :: "string \<Rightarrow> jsval list \<Rightarrow> int \<times> int option \<Rightarrow> (jsval list \<times> jsval) js \<times> int \<times> int option" where
  "sample_pg_query sql params c =
     (Inr ([], Null),
      if sql = ''BEGIN'' then (fst c, Some (case snd c of None \<Rightarrow> fst c | Some x \<Rightarrow> x))
      else if sql = ''COMMIT'' then (fst c, None)
      else if sql = ''ROLLBACK'' then (case snd c of None \<Rightarrow> fst c | Some x \<Rightarrow> x, None)
      else c)"

definition sample_pg :: "(int \<times> int option) pg_lib" where
  "sample_pg = \<lparr>pg_import = Inr (), pg_connect = (\<lambda>_. Inr (0, None)), pg_query = sample_pg_query, pg_end = (\<lambda>_. Inr ())\<rparr>"

lemma sample_pg_laws: "pg_laws sample_pg id"
  by (auto simp: pg_laws_def sample_pg_def sample_pg_query_def is_ok_def split: option.split)

definition pg_put :: "int \<Rightarrow> int \<times> int option \<Rightarrow> unit js \<times> int \<times> int option" where
  "pg_put n c = (Inr (), n, snd c)"

theorem pg_nested_commits_witness:
  "\<exists>d. pg_transaction sample_pg (\<lambda>x. bindD (pg_put 1 x) (\<lambda>_ y. bindD (pg_transaction sample_pg (pg_put 2) y) (\<lambda>_ z. (Inl TypeErr, z)))) (0, None)
       = (Inl TypeErr :: unit js, d) \<and> d = (2, None)"
  using pg_nested_commits [OF sample_pg_laws, of "(0, None)" "([], Null)" "(0, Some 0)" "pg_put 1" "(1, Some 0)" "([], Null)"
      "(1, Some 0)" "pg_put 2" "()" "(2, Some 0)" TypeErr]
  by (simp add: sample_pg_def sample_pg_query_def pg_put_def)

section \<open>The single instance\<close>

text \<open>
  A failed connection is kept: every later \<open>getDatabase\<close> answers the same error without trying
  again, and \<open>resetDatabaseSingleton\<close>, which awaits the failed promise, cannot clear it.
\<close>

theorem failed_connection_kept:
  "getDatabase (Inl e) None = (Inl e, Some (Inl e))"
  "getDatabase create (Some (Inl e)) = (Inl e, Some (Inl e))"
  "resetDatabaseSingleton close (Some (Inl e)) = (Inl e, Some (Inl e))"
  by (simp_all add: getDatabase_def resetDatabaseSingleton_def)

end
