(* ===== verification/Wallet.thy ===== *)
theory Wallet
  imports Json Types
begin

text \<open>
  apps/client/components/providers/WalletProvider.tsx: the network names of the wallets, the
  connectors of Freighter and xBull, the session kept in localStorage, and the provider as a
  state with its pending asynchronous calls. What the wallets answer is an argument of the
  step that waits for it. React's rendering is not modelled: a callback captures the state of
  the moment it is called.
\<close>

section \<open>Networks\<close>

definition network_literal :: "network_name \<Rightarrow> string" where
  "network_literal n = (case n of Testnet \<Rightarrow> ''testnet'' | Mainnet \<Rightarrow> ''mainnet'')"

text \<open>\<open>s.includes(t)\<close>\<close>

fun has_part :: "string \<Rightarrow> string \<Rightarrow> bool" where
  "has_part [] t = (t = [])"
| "has_part (c # s) t = (starts_with t (c # s) \<or> has_part s t)"

definition mapFreighterNetwork :: "string option \<Rightarrow> network_name option" where
  "mapFreighterNetwork v =
     (case v of
        None \<Rightarrow> None
      | Some s \<Rightarrow>
          if s = [] then None
          else
            let normalized = map to_upper s in
            if has_part normalized ''PUBLIC'' \<or> normalized = ''MAINNET'' then Some Mainnet
            else if has_part normalized ''TEST'' \<or> normalized = ''TESTNET'' then Some Testnet
            else None)"

section \<open>The wallets\<close>

record freighter =
  fr_isConnected :: "jsval js"
  fr_requestAccess :: "jsval js"
  fr_getAddress :: "jsval js"
  fr_getNetwork :: "jsval js"
  fr_getNetworkDetails :: "jsval js"

datatype xbull_account = Account_Text string | Account_Object "string option" "string option"

text \<open>The optional methods are absent when \<open>None\<close>.\<close>

record xbull =
  xb_connect :: "xbull_account js"
  xb_getPublicKey :: "string js option"
  xb_getNetwork :: "string js option"

definition has_key :: "jsval \<Rightarrow> string \<Rightarrow> bool" where
  "has_key v k = (case v of Obj kvs \<Rightarrow> map_of kvs k \<noteq> None | _ \<Rightarrow> False)"

definition key_text :: "jsval \<Rightarrow> string \<Rightarrow> string option" where
  "key_text v k = (if has_key v k then Some (js_string (js_prop v k)) else None)"

definition network_of_reply :: "jsval js \<Rightarrow> network_name option" where
  "network_of_reply r =
     (case r of
        Inl _ \<Rightarrow> None
      | Inr v \<Rightarrow>
          (case v of
             Str s \<Rightarrow> mapFreighterNetwork (Some s)
           | _ \<Rightarrow> if has_key v ''network'' then mapFreighterNetwork (Some (js_string (js_prop v ''network''))) else None))"

definition detectFreighterNetwork :: "freighter \<Rightarrow> network_name option" where
  "detectFreighterNetwork F =
     (case fr_getNetworkDetails F of
        Inl _ \<Rightarrow> network_of_reply (fr_getNetwork F)
      | Inr details \<Rightarrow>
          (case mapFreighterNetwork (key_text details ''networkPassphrase'') of
             Some n \<Rightarrow> Some n
           | None \<Rightarrow>
               (case mapFreighterNetwork (key_text details ''network'') of
                  Some n \<Rightarrow> Some n
                | None \<Rightarrow> network_of_reply (fr_getNetwork F))))"

text \<open>The address of an answer, \<open>None\<close> where the code finds it falsy.\<close>

definition address_of :: "jsval \<Rightarrow> string option" where
  "address_of v =
     (case (case v of Str s \<Rightarrow> v | _ \<Rightarrow> js_prop v ''address'') of
        Str s \<Rightarrow> if s = [] then None else Some s
      | _ \<Rightarrow> None)"

definition connectFreighter :: "freighter \<Rightarrow> (string \<times> network_name option) js" where
  "connectFreighter F =
     bindR (fr_isConnected F) (\<lambda>joined.
       if has_key joined ''isConnected'' \<and> \<not> truthy (js_prop joined ''isConnected'')
       then Inl (PlainErr ''Freighter is not available. Install the Freighter browser extension.'')
       else
         bindR (fr_requestAccess F) (\<lambda>access.
           if has_key access ''error'' \<and> truthy (js_prop access ''error'')
           then Inl (PlainErr (js_string (js_prop access ''error'')))
           else
             bindR (fr_getAddress F) (\<lambda>reply.
               case address_of reply of
                 None \<Rightarrow> Inl (PlainErr ''Freighter did not return a public key.'')
               | Some address \<Rightarrow> Inr (address, detectFreighterNetwork F))))"

definition account_key :: "xbull_account \<Rightarrow> string option" where
  "account_key a =
     (case a of
        Account_Text s \<Rightarrow> Some s
      | Account_Object (Some k) _ \<Rightarrow> Some k
      | Account_Object None k \<Rightarrow> k)"

definition connectXBull :: "xbull option \<Rightarrow> (string \<times> network_name option) js" where
  "connectXBull provider =
     (case provider of
        None \<Rightarrow> Inl (PlainErr ''xBull wallet was not detected in this browser.'')
      | Some X \<Rightarrow>
          bindR (xb_connect X) (\<lambda>result.
            let publicKey = or_default (account_key result) [] in
            if publicKey = [] then Inl (PlainErr ''xBull did not return a public key.'')
            else case xb_getNetwork X of
                None \<Rightarrow> Inr (publicKey, None)
              | Some r \<Rightarrow> bindR r (\<lambda>n. Inr (publicKey, mapFreighterNetwork (Some n)))))"

definition silentFreighter :: "string option \<Rightarrow> freighter \<Rightarrow> string option" where
  "silentFreighter expected F =
     (case fr_isConnected F of
        Inl _ \<Rightarrow> None
      | Inr joined \<Rightarrow>
          let available = (if has_key joined ''isConnected'' then truthy (js_prop joined ''isConnected'') else truthy joined) in
          if \<not> available then None
          else case fr_getAddress F of
              Inl _ \<Rightarrow> None
            | Inr reply \<Rightarrow>
                (case address_of reply of
                   None \<Rightarrow> None
                 | Some address \<Rightarrow>
                     if expected \<noteq> None \<and> expected \<noteq> Some [] \<and> expected \<noteq> Some address then Some address else Some address))"

section \<open>The stored session\<close>

datatype wallet_connector = Freighter | XBull

definition connector_literal :: "wallet_connector \<Rightarrow> string" where
  "connector_literal c = (case c of Freighter \<Rightarrow> ''freighter'' | XBull \<Rightarrow> ''xbull'')"

record 'n persisted =
  pw_connector :: wallet_connector
  pw_publicKey :: string
  pw_network :: 'n

type_synonym persisted_wallet = "network_name persisted"

definition with_network :: "'m \<Rightarrow> 'n persisted \<Rightarrow> 'm persisted" where
  "with_network n p = \<lparr>pw_connector = pw_connector p, pw_publicKey = pw_publicKey p, pw_network = n\<rparr>"

text \<open>
  Only \<open>connector\<close> and \<open>publicKey\<close> are tested, and only for being truthy (\<open>null\<close> throws and is caught).
  The connector is never asked more than whether it is \<open>freighter\<close>: any other one goes the way
  of xBull. The network is \<open>None\<close> when it is no key of \<open>NETWORKS\<close> (so, here, also when it is one of the
  names every object inherits). A truthy key that is no text is read as no session.
\<close>

definition decode_wallet :: "jsval \<Rightarrow> network_name option persisted option" where
  "decode_wallet v =
     (let connector = js_prop v ''connector''; publicKey = js_prop v ''publicKey'' in
      if \<not> truthy connector \<or> \<not> truthy publicKey then None
      else case publicKey of
          Str k \<Rightarrow> Some \<lparr>pw_connector = (if connector = Str ''freighter'' then Freighter else XBull), pw_publicKey = k,
            pw_network = (case js_prop v ''network'' of Str n \<Rightarrow> find_text network_literal [Testnet, Mainnet] n | _ \<Rightarrow> None)\<rparr>
        | _ \<Rightarrow> None)"

definition readPersisted :: "string option \<Rightarrow> network_name option persisted option" where
  "readPersisted storage =
     (case storage of
        None \<Rightarrow> None
      | Some raw \<Rightarrow>
          if raw = [] then None
          else case json_parse raw of Inl _ \<Rightarrow> None | Inr v \<Rightarrow> decode_wallet v)"

definition wallet_object :: "persisted_wallet \<Rightarrow> jsval" where
  "wallet_object p = Obj [(''connector'', Str (connector_literal (pw_connector p))), (''publicKey'', Str (pw_publicKey p)),
     (''network'', Str (network_literal (pw_network p)))]"

definition persist :: "persisted_wallet option \<Rightarrow> string option" where
  "persist v =
     (case v of
        None \<Rightarrow> None
      | Some p \<Rightarrow> (case json_stringify (wallet_object p) of Inr t \<Rightarrow> t | Inl _ \<Rightarrow> None))"

lemma persist_read:
  assumes "pw_publicKey p \<noteq> []"
  shows "readPersisted (persist (Some p)) = Some (with_network (Some (pw_network p)) p)"
proof -
  have plain: "json_plain (wallet_object p)" by (simp add: wallet_object_def)
  obtain t where t: "json_stringify (wallet_object p) = Inr (Some t)" "json_parse t = Inr (json_strip (wallet_object p))"
    using json_roundtrip [OF plain] by blast
  have "json_parse [] = Inl SyntaxErr" by (simp add: json_parse_def skip_ws_def)
  then have "t \<noteq> []" using t(2) by auto
  moreover have "decode_wallet (json_strip (wallet_object p)) = Some (with_network (Some (pw_network p)) p)"
    using assms by (cases p; cases "pw_connector p"; cases "pw_network p")
      (simp_all add: wallet_object_def decode_wallet_def find_text_def connector_literal_def network_literal_def with_network_def)
  ultimately show ?thesis using t by (simp add: persist_def readPersisted_def)
qed

interpretation session: codec "\<lambda>p. pw_publicKey p \<noteq> []" "\<lambda>p. persist (Some p)"
    "\<lambda>t. case readPersisted t of
        None \<Rightarrow> Inl ()
      | Some p \<Rightarrow> (case pw_network p of None \<Rightarrow> Inl () | Some n \<Rightarrow> Inr (with_network n p))"
  by unfold_locales (simp add: persist_read with_network_def)

lemma persist_none: "readPersisted (persist None) = None"
  by (simp add: persist_def readPersisted_def)

section \<open>The provider\<close>

text \<open>
  An asynchronous call between its awaits, with what its closure captured. \<open>Reconnecting\<close> and the
  tasks after it are the parts of the effect that runs once after mounting.
\<close>

datatype wallet_task =
    Connecting wallet_connector network_name
  | Switching network_name
  | Refreshing string network_name
  | Refreshing_Session string network_name
  | Refreshing_Network
  | Disconnecting
  | Reconnecting persisted_wallet
  | Reconnecting_Network string persisted_wallet
  | Reconnecting_XBull persisted_wallet
  | Reconnecting_XNetwork string persisted_wallet

record wallet_state =
  ws_publicKey :: "string option"
  ws_network :: network_name
  ws_walletNetwork :: "network_name option"
  ws_connector :: "wallet_connector option"
  ws_connecting :: bool
  ws_reconnecting :: bool
  ws_error :: "string option"
  ws_storage :: "string option"

definition initial_wallet :: "string option \<Rightarrow> wallet_state" where
  "initial_wallet storage =
     \<lparr>ws_publicKey = None, ws_network = Testnet, ws_walletNetwork = None, ws_connector = None, ws_connecting = False,
      ws_reconnecting = True, ws_error = None, ws_storage = storage\<rparr>"

definition applySession :: "wallet_connector \<Rightarrow> string \<Rightarrow> network_name \<Rightarrow> network_name option \<Rightarrow> wallet_state \<Rightarrow> wallet_state" where
  "applySession c k n wn s =
     s\<lparr>ws_publicKey := Some k, ws_connector := Some c, ws_network := n, ws_walletNetwork := wn,
       ws_storage := persist (Some \<lparr>pw_connector = c, pw_publicKey = k, pw_network = n\<rparr>)\<rparr>"

definition clear_session :: "wallet_state \<Rightarrow> wallet_state" where
  "clear_session s =
     s\<lparr>ws_publicKey := None, ws_connector := None, ws_walletNetwork := None, ws_error := None, ws_storage := persist None\<rparr>"

text \<open>The synchronous beginnings of the callbacks: the new state and the tasks they leave waiting.\<close>

definition connect_call :: "wallet_connector \<Rightarrow> wallet_state \<Rightarrow> wallet_state \<times> wallet_task list" where
  "connect_call next s = (s\<lparr>ws_connecting := True, ws_error := None\<rparr>, [Connecting next (ws_network s)])"

definition disconnect_call :: "wallet_state \<Rightarrow> wallet_state \<times> wallet_task list" where
  "disconnect_call s =
     (if ws_connector s = Some XBull then (s, [Disconnecting]) else (clear_session s, []))"

definition setNetwork_call :: "network_name \<Rightarrow> wallet_state \<Rightarrow> wallet_state \<times> wallet_task list" where
  "setNetwork_call next s =
     (s\<lparr>ws_network := next,
        ws_storage := (case readPersisted (ws_storage s) of
            None \<Rightarrow> ws_storage s
          | Some current \<Rightarrow> persist (Some (with_network next current)))\<rparr>,
      if ws_connector s = Some Freighter then [Switching next] else [])"

definition refresh_call :: "wallet_state \<Rightarrow> wallet_state \<times> wallet_task list" where
  "refresh_call s =
     (case ws_publicKey s of
        Some k \<Rightarrow> if ws_connector s = Some Freighter \<and> k \<noteq> [] then (s, [Refreshing k (ws_network s)]) else (s, [])
      | None \<Rightarrow> (s, []))"

text \<open>The end of the effect for xBull, once the address is known.\<close>

definition finish_reconnect :: "wallet_state \<Rightarrow> wallet_state" where
  "finish_reconnect s = s\<lparr>ws_reconnecting := False\<rparr>"

definition reconnect_xbull :: "xbull \<Rightarrow> string \<Rightarrow> persisted_wallet \<Rightarrow> wallet_state \<Rightarrow> wallet_state \<times> wallet_task list" where
  "reconnect_xbull X address saved s =
     (if address = [] then (finish_reconnect s, [])
      else case xb_getNetwork X of
          None \<Rightarrow> (finish_reconnect (applySession XBull address (pw_network saved) (Some (pw_network saved)) s), [])
        | Some _ \<Rightarrow> (s, [Reconnecting_XNetwork address saved]))"

text \<open>
  The effect that runs once. \<open>None\<close> is the provider's end: with a stored network that is no key of
  \<open>NETWORKS\<close> the next render throws at \<open>NETWORKS[network].networkPassphrase\<close>, and React unmounts the
  provider with all it holds.
\<close>

definition mount :: "xbull option \<Rightarrow> wallet_state \<Rightarrow> (wallet_state \<times> wallet_task list) option" where
  "mount provider s =
     (case readPersisted (ws_storage s) of
        None \<Rightarrow> Some (finish_reconnect s, [])
      | Some read \<Rightarrow>
          (case pw_network read of
             None \<Rightarrow> None
           | Some network \<Rightarrow>
               let saved = with_network network read; s1 = s\<lparr>ws_network := network\<rparr> in
               Some (case pw_connector saved of
                   Freighter \<Rightarrow> (s1, [Reconnecting saved])
                 | XBull \<Rightarrow>
                     (case provider of
                        None \<Rightarrow> (finish_reconnect s1, [])
                      | Some X \<Rightarrow>
                          (case xb_getPublicKey X of
                             Some _ \<Rightarrow> (s1, [Reconnecting_XBull saved])
                           | None \<Rightarrow> reconnect_xbull X (pw_publicKey saved) saved s1)))))"

definition switch_message :: "network_name \<Rightarrow> network_name \<Rightarrow> string" where
  "switch_message detected next =
     ''Freighter is on '' @ network_literal detected @ ''. Switch the extension network to '' @ network_literal next @ ''.''"

definition fail_reconnect :: "wallet_state \<Rightarrow> wallet_state" where
  "fail_reconnect s = finish_reconnect (s\<lparr>ws_storage := persist None\<rparr>)"

text \<open>A task goes on with the wallets' answers: the new state, and the task that waits next.\<close>

definition connect_done :: "wallet_connector \<Rightarrow> network_name \<Rightarrow> (string \<times> network_name option) js \<Rightarrow> wallet_state \<Rightarrow> wallet_state" where
  "connect_done c network result s =
     (case result of
        Inr (k, detected) \<Rightarrow> (applySession c k (or_default detected network) detected s)\<lparr>ws_connecting := False\<rparr>
      | Inl cause \<Rightarrow> s\<lparr>ws_publicKey := None, ws_connector := None, ws_storage := persist None,
                        ws_error := Some (err_message cause), ws_connecting := False\<rparr>)"

fun resume :: "freighter \<Rightarrow> xbull option \<Rightarrow> wallet_task \<Rightarrow> wallet_state \<Rightarrow> wallet_state \<times> wallet_task list" where
  "resume F X (Connecting c network) s =
     (connect_done c network (case c of Freighter \<Rightarrow> connectFreighter F | XBull \<Rightarrow> connectXBull X) s, [])"
| "resume F X (Switching next) s =
     (let detected = detectFreighterNetwork F in
      (s\<lparr>ws_walletNetwork := detected,
         ws_error := (case detected of None \<Rightarrow> None | Some d \<Rightarrow> if d \<noteq> next then Some (switch_message d next) else None)\<rparr>, []))"
| "resume F X (Refreshing k network) s =
     (case silentFreighter None F of
        None \<Rightarrow> (s, [Refreshing_Network])
      | Some a \<Rightarrow> (s, if a \<noteq> k then [Refreshing_Session a network] else [Refreshing_Network]))"
| "resume F X (Refreshing_Session a network) s =
     (applySession Freighter a network (detectFreighterNetwork F) s, [Refreshing_Network])"
| "resume F X Refreshing_Network s = (s\<lparr>ws_walletNetwork := detectFreighterNetwork F\<rparr>, [])"
| "resume F X Disconnecting s = (clear_session s, [])"
| "resume F X (Reconnecting saved) s =
     (case silentFreighter (Some (pw_publicKey saved)) F of
        None \<Rightarrow> (finish_reconnect s, [])
      | Some a \<Rightarrow> (s, [Reconnecting_Network a saved]))"
| "resume F X (Reconnecting_Network a saved) s =
     (finish_reconnect (applySession Freighter a (pw_network saved) (detectFreighterNetwork F) s), [])"
| "resume F X (Reconnecting_XBull saved) s =
     (case X of
        None \<Rightarrow> (fail_reconnect s, [])
      | Some x \<Rightarrow>
          (case xb_getPublicKey x of
             Some (Inr a) \<Rightarrow> reconnect_xbull x a saved s
           | _ \<Rightarrow> (fail_reconnect s, [])))"
| "resume F X (Reconnecting_XNetwork a saved) s =
     (case X of
        None \<Rightarrow> (fail_reconnect s, [])
      | Some x \<Rightarrow>
          (case xb_getNetwork x of
             Some (Inr n) \<Rightarrow> (finish_reconnect (applySession XBull a (pw_network saved) (mapFreighterNetwork (Some n)) s), [])
           | _ \<Rightarrow> (fail_reconnect s, [])))"

definition networkMismatch :: "wallet_state \<Rightarrow> bool" where
  "networkMismatch s = (case ws_walletNetwork s of None \<Rightarrow> False | Some n \<Rightarrow> n \<noteq> ws_network s)"

section \<open>Runs\<close>

type_synonym wallet_run = "wallet_state \<times> wallet_task list"

definition and_then :: "wallet_task list \<Rightarrow> wallet_state \<times> wallet_task list \<Rightarrow> wallet_run" where
  "and_then ts st = (fst st, ts @ snd st)"

definition resume_at :: "freighter \<Rightarrow> xbull option \<Rightarrow> nat \<Rightarrow> wallet_run \<Rightarrow> wallet_run" where
  "resume_at F X i r = (case r of (s, ts) \<Rightarrow> and_then (take i ts @ drop (Suc i) ts) (resume F X (ts ! i) s))"

inductive wallet_reachable :: "string option \<Rightarrow> wallet_run \<Rightarrow> bool" for storage where
  Mounted: "mount X (initial_wallet storage) = Some r \<Longrightarrow> wallet_reachable storage r"
| Connect: "wallet_reachable storage (s, ts) \<Longrightarrow> wallet_reachable storage (and_then ts (connect_call c s))"
| Disconnect: "wallet_reachable storage (s, ts) \<Longrightarrow> wallet_reachable storage (and_then ts (disconnect_call s))"
| SetNetwork: "wallet_reachable storage (s, ts) \<Longrightarrow> wallet_reachable storage (and_then ts (setNetwork_call n s))"
| Refresh: "wallet_reachable storage (s, ts) \<Longrightarrow> wallet_reachable storage (and_then ts (refresh_call s))"
| Answer: "wallet_reachable storage (s, ts) \<Longrightarrow> i < length ts \<Longrightarrow> wallet_reachable storage (resume_at F X i (s, ts))"

fun is_connecting :: "wallet_task \<Rightarrow> bool" where
  "is_connecting (Connecting _ _) = True"
| "is_connecting _ = False"

fun is_reconnecting :: "wallet_task \<Rightarrow> bool" where
  "is_reconnecting (Reconnecting _) = True"
| "is_reconnecting (Reconnecting_Network _ _) = True"
| "is_reconnecting (Reconnecting_XBull _) = True"
| "is_reconnecting (Reconnecting_XNetwork _ _) = True"
| "is_reconnecting _ = False"

text \<open>The addresses a task holds are not empty.\<close>

fun task_ok :: "wallet_task \<Rightarrow> bool" where
  "task_ok (Refreshing_Session a _) = (a \<noteq> [])"
| "task_ok (Reconnecting p) = (pw_publicKey p \<noteq> [])"
| "task_ok (Reconnecting_Network a _) = (a \<noteq> [])"
| "task_ok (Reconnecting_XNetwork a _) = (a \<noteq> [])"
| "task_ok _ = True"

text \<open>The session of a state: connector, key and network, as \<open>readPersisted\<close> gives back what is kept.\<close>

definition session_of :: "wallet_state \<Rightarrow> network_name option persisted option" where
  "session_of s =
     (case (ws_connector s, ws_publicKey s) of
        (Some c, Some k) \<Rightarrow> Some \<lparr>pw_connector = c, pw_publicKey = k, pw_network = Some (ws_network s)\<rparr>
      | _ \<Rightarrow> None)"

definition session_ok :: "wallet_state \<Rightarrow> bool" where
  "session_ok s \<longleftrightarrow> (ws_publicKey s = None \<longleftrightarrow> ws_connector s = None) \<and> ws_publicKey s \<noteq> Some []
     \<and> (session_of s = None \<or> readPersisted (ws_storage s) = None \<or> readPersisted (ws_storage s) = session_of s)"

definition wallet_inv :: "wallet_run \<Rightarrow> bool" where
  "wallet_inv r \<longleftrightarrow> (case r of (s, ts) \<Rightarrow>
     session_ok s \<and> list_all task_ok ts
     \<and> (ws_connecting s \<longrightarrow> list_ex is_connecting ts) \<and> (ws_reconnecting s \<longrightarrow> list_ex is_reconnecting ts))"

lemma readPersisted_key: "readPersisted t = Some p \<Longrightarrow> pw_publicKey p \<noteq> []"
  by (auto simp: readPersisted_def decode_wallet_def Let_def split: option.splits if_splits sum.splits jsval.splits)

lemma address_of_key: "address_of v = Some a \<Longrightarrow> a \<noteq> []"
  unfolding address_of_def by (simp split: jsval.split_asm if_split_asm)

lemma silentFreighter_key: "silentFreighter e F = Some a \<Longrightarrow> a \<noteq> []"
  unfolding silentFreighter_def Let_def using address_of_key by (simp split: sum.split_asm if_split_asm option.split_asm)

lemma connect_key:
  "connectFreighter F = Inr (k, n) \<Longrightarrow> k \<noteq> []" "connectXBull X = Inr (k, n) \<Longrightarrow> k \<noteq> []"
proof -
  assume "connectFreighter F = Inr (k, n)"
  then obtain v where "address_of v = Some k"
    unfolding connectFreighter_def bindR_Inr_iff by (force split: if_split_asm option.split_asm simp: bindR_Inr_iff)
  then show "k \<noteq> []" by (rule address_of_key)
next
  assume "connectXBull X = Inr (k, n)"
  then show "k \<noteq> []"
    unfolding connectXBull_def by (force simp: bindR_Inr_iff Let_def split: option.split_asm if_split_asm)
qed

section \<open>The session is consistent\<close>

lemma session_ok_apply: "k \<noteq> [] \<Longrightarrow> session_ok (applySession c k n wn s)"
  by (simp add: session_ok_def applySession_def session_of_def persist_read with_network_def)

lemma session_ok_clear: "session_ok (clear_session s)"
  by (simp add: session_ok_def clear_session_def session_of_def)

lemma session_ok_cong:
  "ws_publicKey s' = ws_publicKey s \<Longrightarrow> ws_connector s' = ws_connector s \<Longrightarrow> ws_network s' = ws_network s \<Longrightarrow>
     ws_storage s' = ws_storage s \<Longrightarrow> session_ok s' = session_ok s"
  unfolding session_ok_def session_of_def by (simp cong: option.case_cong)

lemma session_ok_other [simp]:
  "session_ok (s\<lparr>ws_connecting := b\<rparr>) = session_ok s"
  "session_ok (s\<lparr>ws_connecting := b, ws_error := e\<rparr>) = session_ok s"
  "session_ok (s\<lparr>ws_walletNetwork := n\<rparr>) = session_ok s"
  "session_ok (s\<lparr>ws_walletNetwork := n, ws_error := e\<rparr>) = session_ok s"
  by (rule session_ok_cong, simp_all)+

lemma session_ok_finish [simp]: "session_ok (finish_reconnect s) = session_ok s"
  by (rule session_ok_cong) (simp_all add: finish_reconnect_def)

lemma session_ok_fail: "session_ok s \<Longrightarrow> session_ok (fail_reconnect s)"
proof -
  assume "session_ok s"
  then have "session_ok (s\<lparr>ws_storage := persist None\<rparr>)"
    by (simp add: session_ok_def session_of_def persist_none cong: option.case_cong)
  then show ?thesis by (simp add: fail_reconnect_def)
qed

lemma session_ok_setNetwork: "session_ok s \<Longrightarrow> session_ok (fst (setNetwork_call n s))"
  using readPersisted_key persist_read
  by (auto simp: session_ok_def setNetwork_call_def session_of_def with_network_def split: option.splits)

lemma session_ok_connect_done:
  "(\<And>k n. r = Inr (k, n) \<Longrightarrow> k \<noteq> []) \<Longrightarrow> session_ok (connect_done c net r s)"
proof (cases r)
  case (Inl e)
  then show ?thesis by (simp add: connect_done_def session_ok_def session_of_def)
next
  case (Inr x)
  obtain k n where x: "x = (k, n)" by fastforce
  assume "\<And>k n. r = Inr (k, n) \<Longrightarrow> k \<noteq> []"
  then have "session_ok (applySession c k (or_default n net) n s)" using Inr x by (simp add: session_ok_apply)
  then show ?thesis using Inr x by (simp add: connect_done_def)
qed

lemma reconnect_xbull_cases:
  obtains "reconnect_xbull X a p s = (finish_reconnect s, [])"
  | "a \<noteq> []" "reconnect_xbull X a p s = (finish_reconnect (applySession XBull a (pw_network p) (Some (pw_network p)) s), [])"
  | "a \<noteq> []" "reconnect_xbull X a p s = (s, [Reconnecting_XNetwork a p])"
proof (cases "a = []")
  case True
  then show thesis using that(1) by (simp add: reconnect_xbull_def)
next
  case False
  then show thesis using that(2,3) by (cases "xb_getNetwork X") (simp_all add: reconnect_xbull_def)
qed

lemma finish_flags [simp]:
  "ws_reconnecting (finish_reconnect s) = False" "ws_connecting (finish_reconnect s) = ws_connecting s"
  "ws_reconnecting (applySession c k n wn s) = ws_reconnecting s" "ws_connecting (applySession c k n wn s) = ws_connecting s"
  "ws_reconnecting (clear_session s) = ws_reconnecting s" "ws_connecting (clear_session s) = ws_connecting s"
  "ws_reconnecting (fail_reconnect s) = False" "ws_connecting (fail_reconnect s) = ws_connecting s"
  by (simp_all add: finish_reconnect_def applySession_def clear_session_def fail_reconnect_def)

lemma connect_done_flags [simp]:
  "ws_connecting (connect_done c n r s) = False" "ws_reconnecting (connect_done c n r s) = ws_reconnecting s"
  by (auto simp: connect_done_def split: sum.split)

lemma reconnect_xbull_ok:
  assumes "session_ok s" "reconnect_xbull X a p s = (s', ts')"
  shows "session_ok s' \<and> list_all task_ok ts' \<and> ws_connecting s' = ws_connecting s
    \<and> (ws_reconnecting s' \<longrightarrow> ws_reconnecting s \<and> list_ex is_reconnecting ts')"
  using assms session_ok_apply [of a] by (cases X a p s rule: reconnect_xbull_cases) auto

lemma resume_ok:
  assumes "session_ok s" "task_ok t" "resume F X t s = (s', ts')"
  shows "session_ok s' \<and> list_all task_ok ts'
     \<and> (ws_connecting s' \<longrightarrow> ws_connecting s \<and> \<not> is_connecting t)
     \<and> (ws_reconnecting s' \<longrightarrow> ws_reconnecting s \<and> (is_reconnecting t \<longrightarrow> list_ex is_reconnecting ts'))"
proof (cases t)
  case (Connecting c net)
  let ?r = "case c of Freighter \<Rightarrow> connectFreighter F | XBull \<Rightarrow> connectXBull X"
  have "k \<noteq> []" if "?r = Inr (k, n)" for k n
    using that connect_key(1) [of F k n] connect_key(2) [of X k n] by (cases c) auto
  then have "session_ok (connect_done c net ?r s)" by (rule session_ok_connect_done)
  then have "session_ok s'" using assms(3) by (simp add: Connecting)
  moreover have "ws_reconnecting s' = ws_reconnecting s" "\<not> ws_connecting s'" "ts' = []"
    using assms(3) by (auto simp: Connecting)
  ultimately show ?thesis by (simp add: Connecting)
next
  case (Reconnecting_XBull saved)
  have fail: ?thesis if "s' = fail_reconnect s" "ts' = []"
    using that assms(1) session_ok_fail [of s] by (simp add: fail_reconnect_def finish_reconnect_def Reconnecting_XBull)
  show ?thesis
  proof (cases "\<exists>x a. X = Some x \<and> xb_getPublicKey x = Some (Inr a)")
    case True
    then obtain x a where "X = Some x" "xb_getPublicKey x = Some (Inr a)" by blast
    then have "(s', ts') = reconnect_xbull x a saved s" using assms(3) by (simp add: Reconnecting_XBull)
    then show ?thesis using reconnect_xbull_ok [OF assms(1), of x a saved s' ts'] by (simp add: Reconnecting_XBull)
  next
    case False
    then have "s' = fail_reconnect s" "ts' = []"
      using assms(3) by (auto simp: Reconnecting_XBull split: option.splits sum.splits)
    then show ?thesis by (rule fail)
  qed
next
  case (Reconnecting_XNetwork a saved)
  have fail: ?thesis if "s' = fail_reconnect s" "ts' = []"
    using that assms(1) session_ok_fail [of s] by (simp add: fail_reconnect_def finish_reconnect_def Reconnecting_XNetwork)
  show ?thesis
  proof (cases "\<exists>x n. X = Some x \<and> xb_getNetwork x = Some (Inr n)")
    case True
    then obtain x n where "X = Some x" "xb_getNetwork x = Some (Inr n)" by blast
    then have "s' = finish_reconnect (applySession XBull a (pw_network saved) (mapFreighterNetwork (Some n)) s)" "ts' = []"
      using assms(3) by (simp_all add: Reconnecting_XNetwork)
    then show ?thesis using session_ok_apply [of a] assms(2) by (simp add: Reconnecting_XNetwork)
  next
    case False
    then have "s' = fail_reconnect s" "ts' = []"
      using assms(3) by (auto simp: Reconnecting_XNetwork split: option.splits sum.splits)
    then show ?thesis by (rule fail)
  qed
qed (use assms silentFreighter_key session_ok_apply session_ok_clear in
    \<open>auto simp: Let_def split: option.splits if_splits\<close>)

lemma wallet_inv_then:
  assumes "session_ok s'" "list_all task_ok ts" "list_all task_ok new"
    "ws_connecting s' \<longrightarrow> list_ex is_connecting (ts @ new)" "ws_reconnecting s' \<longrightarrow> list_ex is_reconnecting (ts @ new)"
  shows "wallet_inv (and_then ts (s', new))"
  using assms by (simp add: wallet_inv_def and_then_def)

lemma mount_inv:
  assumes "mount X (initial_wallet storage) = Some r"
  shows "wallet_inv r"
proof -
  have ok: "session_ok (initial_wallet storage)" "\<And>n. session_ok ((initial_wallet storage)\<lparr>ws_network := n\<rparr>)"
    by (simp_all add: session_ok_def session_of_def initial_wallet_def)
  have f: "\<not> ws_connecting (initial_wallet storage)" by (simp add: initial_wallet_def)
  have st: "ws_storage (initial_wallet storage) = storage" by (simp add: initial_wallet_def)
  show ?thesis
  proof (cases "readPersisted storage")
    case None
    then have "r = (finish_reconnect (initial_wallet storage), [])" using assms by (simp add: mount_def st)
    then show ?thesis using ok f by (simp add: wallet_inv_def)
  next
    case (Some read)
    then obtain n where n: "pw_network read = Some n" using assms by (cases "pw_network read") (simp_all add: mount_def st)
    let ?p = "with_network n read"
    let ?s = "(initial_wallet storage)\<lparr>ws_network := n\<rparr>"
    have key: "pw_publicKey ?p \<noteq> []" using readPersisted_key [OF Some] by (simp add: with_network_def)
    have f': "\<not> ws_connecting ?s" using f by simp
    show ?thesis
    proof (cases "pw_connector ?p")
      case Freighter
      then have "r = (?s, [Reconnecting ?p])" using assms by (simp add: mount_def st Some n)
      then show ?thesis using ok f' key by (simp add: wallet_inv_def)
    next
      case XBull
      show ?thesis
      proof (cases "X = None \<or> (\<exists>x r. X = Some x \<and> xb_getPublicKey x = Some r)")
        case True
        then have "r = (finish_reconnect ?s, []) \<or> r = (?s, [Reconnecting_XBull ?p])"
          using assms XBull by (auto simp: mount_def st Some n)
        then show ?thesis using ok f' by (auto simp: wallet_inv_def)
      next
        case False
        then obtain x where "r = reconnect_xbull x (pw_publicKey ?p) ?p ?s"
          using assms XBull by (cases X) (auto simp: mount_def st Some n Let_def split: option.splits)
        then show ?thesis
          using reconnect_xbull_ok [OF ok(2)] f' by (cases "reconnect_xbull x (pw_publicKey ?p) ?p ?s") (auto simp: wallet_inv_def)
      qed
    qed
  qed
qed

lemma list_split_at: "i < length ts \<Longrightarrow> ts = take i ts @ ts ! i # drop (Suc i) ts"
  by (simp add: id_take_nth_drop)

lemma resume_at_inv:
  assumes "wallet_inv (s, ts)" "i < length ts"
  shows "wallet_inv (resume_at F X i (s, ts))"
proof -
  let ?rest = "take i ts @ drop (Suc i) ts"
  obtain s' new where r: "resume F X (ts ! i) s = (s', new)" by fastforce
  have inv: "session_ok s" "list_all task_ok ts" "ws_connecting s \<longrightarrow> list_ex is_connecting ts"
      "ws_reconnecting s \<longrightarrow> list_ex is_reconnecting ts"
    using assms(1) by (simp_all add: wallet_inv_def)
  have ts: "ts = take i ts @ ts ! i # drop (Suc i) ts" by (rule list_split_at [OF assms(2)])
  have all: "list_all task_ok ts \<longleftrightarrow> task_ok (ts ! i) \<and> list_all task_ok ?rest"
    by (subst (1) ts) auto
  have ex: "list_ex P ts \<longleftrightarrow> P (ts ! i) \<or> list_ex P ?rest" for P
    by (subst (1) ts) auto
  have parts: "list_all task_ok ?rest" "task_ok (ts ! i)" using inv(2) all by simp_all
  from resume_ok [OF inv(1) parts(2) r] show ?thesis
    unfolding resume_at_def using inv(3,4) parts(1) ex [of is_connecting] ex [of is_reconnecting]
    by (simp only: prod.case r) (rule wallet_inv_then, auto)
qed

lemma call_inv:
  assumes "wallet_inv (s, ts)"
  shows "wallet_inv (and_then ts (connect_call c s))" "wallet_inv (and_then ts (disconnect_call s))"
    "wallet_inv (and_then ts (setNetwork_call n s))" "wallet_inv (and_then ts (refresh_call s))"
proof -
  have inv: "session_ok s" "list_all task_ok ts" "ws_connecting s \<longrightarrow> list_ex is_connecting ts"
      "ws_reconnecting s \<longrightarrow> list_ex is_reconnecting ts"
    using assms by (simp_all add: wallet_inv_def)
  show "wallet_inv (and_then ts (connect_call c s))"
    unfolding connect_call_def using inv by (intro wallet_inv_then) auto
  show "wallet_inv (and_then ts (disconnect_call s))"
    using inv session_ok_clear by (auto simp: disconnect_call_def intro!: wallet_inv_then)
  have "setNetwork_call n s = (fst (setNetwork_call n s), snd (setNetwork_call n s))"
      "list_all task_ok (snd (setNetwork_call n s))"
      "ws_connecting (fst (setNetwork_call n s)) = ws_connecting s" "ws_reconnecting (fst (setNetwork_call n s)) = ws_reconnecting s"
    by (simp_all add: setNetwork_call_def)
  then show "wallet_inv (and_then ts (setNetwork_call n s))"
    using inv session_ok_setNetwork [OF inv(1), of n] wallet_inv_then [of "fst (setNetwork_call n s)" ts "snd (setNetwork_call n s)"] by auto
  show "wallet_inv (and_then ts (refresh_call s))"
    using inv by (auto simp: refresh_call_def intro!: wallet_inv_then split: option.split)
qed

lemma reachable_inv: "wallet_reachable storage r \<Longrightarrow> wallet_inv r"
proof (induction rule: wallet_reachable.induct)
  case (Mounted X r)
  then show ?case by (rule mount_inv)
next
  case (Answer s ts i F X)
  then show ?case by (intro resume_at_inv)
qed (simp_all add: call_inv)

text \<open>C11: Whatever is stored before, whatever the user does and the wallets answer, in any order: a key is
  held exactly with a connector and is not empty; while a key is held, a stored session, if there is
  one, is the one held: its connector, key and network; and \<open>connecting\<close> and \<open>reconnecting\<close>
  are shown only while such a call is waiting.\<close>

theorem wallet_consistent:
  assumes "wallet_reachable storage (s, ts)"
  shows "(ws_publicKey s = None \<longleftrightarrow> ws_connector s = None) \<and> ws_publicKey s \<noteq> Some []
     \<and> (\<forall>k p. ws_publicKey s = Some k \<and> readPersisted (ws_storage s) = Some p \<longrightarrow>
          ws_connector s = Some (pw_connector p) \<and> k = pw_publicKey p \<and> pw_network p = Some (ws_network s))
     \<and> (ws_connecting s \<longrightarrow> list_ex is_connecting ts) \<and> (ws_reconnecting s \<longrightarrow> list_ex is_reconnecting ts)"
  using reachable_inv [OF assms] by (auto simp: wallet_inv_def session_ok_def session_of_def split: option.splits)

text \<open>A run: the user connects Freighter and the extension answers.\<close>

definition demo_freighter :: freighter where
  "demo_freighter = \<lparr>fr_isConnected = Inr (Obj [(''isConnected'', Bool True)]), fr_requestAccess = Inr (Obj []),
     fr_getAddress = Inr (Obj [(''address'', Str ''GA'')]), fr_getNetwork = Inl TypeErr,
     fr_getNetworkDetails = Inr (Obj [(''networkPassphrase'', Str ''Public Global Stellar Network ; September 2015'')])\<rparr>"

definition demo_connected :: wallet_run where
  "demo_connected =
     resume_at demo_freighter None 0 (and_then [] (connect_call Freighter (finish_reconnect (initial_wallet None))))"

lemma demo_address: "address_of (Obj [(''address'', Str ''GA'')]) = Some ''GA''"
  by (simp add: address_of_def)

lemma demo_available: "has_key (Obj [(''isConnected'', Bool True)]) ''isConnected''" "truthy (js_prop (Obj [(''isConnected'', Bool True)]) ''isConnected'')"
  by (simp_all add: has_key_def)

lemma demo_network: "mapFreighterNetwork (Some ''Public Global Stellar Network ; September 2015'') = Some Mainnet"
  by code_simp

lemma demo_detect: "detectFreighterNetwork demo_freighter = Some Mainnet"
  by (simp add: detectFreighterNetwork_def demo_freighter_def key_text_def has_key_def demo_network)

lemma demo_connectFreighter: "connectFreighter demo_freighter = Inr (''GA'', Some Mainnet)"
  using demo_address demo_available demo_detect
  by (simp add: connectFreighter_def bindR_def demo_freighter_def has_key_def)

lemma demo_connected_state:
  "demo_connected = ((applySession Freighter ''GA'' Mainnet (Some Mainnet)
     ((finish_reconnect (initial_wallet None))\<lparr>ws_connecting := True, ws_error := None\<rparr>))\<lparr>ws_connecting := False\<rparr>, [])"
  by (simp add: demo_connected_def resume_at_def and_then_def connect_call_def connect_done_def demo_connectFreighter or_default_def)

lemma demo_connected_reachable: "wallet_reachable None demo_connected"
proof -
  have "mount None (initial_wallet None) = Some (finish_reconnect (initial_wallet None), [])"
    by (simp add: mount_def readPersisted_def initial_wallet_def)
  from wallet_reachable.Connect [OF wallet_reachable.Mounted [OF this], of Freighter] show ?thesis
    unfolding demo_connected_def by (simp add: and_then_def connect_call_def wallet_reachable.Answer)
qed

lemma wallet_consistent_witness:
  "ws_connector (fst demo_connected) = Some Freighter \<and> ws_publicKey (fst demo_connected) = Some ''GA''
     \<and> \<not> ws_connecting (fst demo_connected)"
  using wallet_consistent [of None "fst demo_connected" "snd demo_connected"] demo_connected_reachable
  by (simp add: demo_connected_state applySession_def)

section \<open>The provider settles\<close>

text \<open>The awaits a task still has before it ends.\<close>

fun awaits :: "wallet_task \<Rightarrow> nat" where
  "awaits (Refreshing _ _) = 3"
| "awaits (Refreshing_Session _ _) = 2"
| "awaits (Reconnecting _) = 2"
| "awaits (Reconnecting_XBull _) = 2"
| "awaits _ = 1"

lemma reconnect_xbull_awaits: "sum_list (map awaits (snd (reconnect_xbull X a p s))) \<le> 1"
  by (cases X a p s rule: reconnect_xbull_cases) auto

lemma resume_awaits: "sum_list (map awaits (snd (resume F X t s))) < awaits t"
proof (cases t)
  case (Reconnecting_XBull p)
  have "sum_list (map awaits (snd (reconnect_xbull x a p s))) < 2" for x a
    using reconnect_xbull_awaits [of x a p s] by simp
  then show ?thesis using Reconnecting_XBull by (simp split: option.split sum.split)
qed (auto simp: Let_def split: option.split sum.split)

text \<open>The wallets answer the tasks one by one, each time one that is waiting, until none is left.\<close>

definition answer :: "nat \<times> freighter \<times> xbull option \<Rightarrow> wallet_run \<Rightarrow> wallet_run" where
  "answer a r = (case a of (i, F, X) \<Rightarrow> if snd r = [] then r else resume_at F X (i mod length (snd r)) r)"

definition run_awaits :: "wallet_run \<Rightarrow> nat" where
  "run_awaits r = sum_list (map awaits (snd r))"

lemma answer_awaits: "snd r \<noteq> [] \<Longrightarrow> run_awaits (answer a r) < run_awaits r"
proof -
  assume ne: "snd r \<noteq> []"
  obtain i F X where a: "a = (i, F, X)" by (cases a)
  let ?i = "i mod length (snd r)" and ?ts = "snd r"
  have i: "?i < length ?ts" using ne by simp
  have "sum_list (map awaits ?ts) = sum_list (map awaits (take ?i ?ts)) + awaits (?ts ! ?i) + sum_list (map awaits (drop (Suc ?i) ?ts))"
    using arg_cong [OF list_split_at [OF i], of "\<lambda>l. sum_list (map awaits l)"] by simp
  then show ?thesis
    using ne resume_awaits [of F X "?ts ! ?i" "fst r"]
    by (cases r) (simp add: answer_def a run_awaits_def resume_at_def and_then_def)
qed

lemma answers_settle: "run_awaits r \<le> length as \<Longrightarrow> snd (fold answer as r) = []"
proof (induction as arbitrary: r)
  case Nil
  then have "snd r = []"
  proof (cases "snd r")
    case (Cons t ts)
    moreover have "0 < awaits t" by (cases t) simp_all
    ultimately show ?thesis using Nil by (simp add: run_awaits_def)
  qed
  then show ?case by simp
next
  case (Cons a as)
  show ?case
  proof (cases "snd r = []")
    case True
    then have "run_awaits r = 0" "answer a r = r" by (simp_all add: run_awaits_def answer_def split: prod.split)
    then show ?thesis using Cons.IH [of r] by simp
  next
    case False
    then show ?thesis using Cons.IH [of "answer a r"] Cons.prems answer_awaits [OF False, of a] by simp
  qed
qed

lemma answers_inv: "wallet_inv r \<Longrightarrow> wallet_inv (fold answer as r)"
proof (induction as arbitrary: r)
  case (Cons a as)
  have "wallet_inv (answer a r)"
    using Cons.prems resume_at_inv [of "fst r" "snd r"] by (auto simp: answer_def split: prod.split)
  then show ?case using Cons.IH by simp
qed simp

text \<open>
  The effect with the 8 s interval: while a key is held with Freighter, each tick calls \<open>refresh\<close>.
  The interval is set again whenever the state that \<open>refresh\<close> captures has changed, so a tick reads
  the state of its moment.
\<close>

definition timer_runs :: "wallet_state \<Rightarrow> bool" where
  "timer_runs s \<longleftrightarrow> (\<exists>k. ws_publicKey s = Some k \<and> k \<noteq> []) \<and> ws_connector s = Some Freighter"

definition timer_tick :: "wallet_run \<Rightarrow> wallet_run" where
  "timer_tick r = (case r of (s, ts) \<Rightarrow> if timer_runs s then and_then ts (refresh_call s) else r)"

datatype quiet_event = Answered "nat \<times> freighter \<times> xbull option" | Tick

fun quiet_step :: "quiet_event \<Rightarrow> wallet_run \<Rightarrow> wallet_run" where
  "quiet_step (Answered a) r = answer a r"
| "quiet_step Tick r = timer_tick r"

fun is_tick :: "quiet_event \<Rightarrow> bool" where
  "is_tick Tick = True"
| "is_tick _ = False"

text \<open>The answers of a run that a waiting call receives, and the ticks that start a call.\<close>

fun heard :: "quiet_event list \<Rightarrow> wallet_run \<Rightarrow> nat" where
  "heard [] r = 0"
| "heard (e # es) r = (if \<not> is_tick e \<and> snd r \<noteq> [] then 1 else 0) + heard es (quiet_step e r)"

fun ticks :: "quiet_event list \<Rightarrow> wallet_run \<Rightarrow> nat" where
  "ticks [] r = 0"
| "ticks (e # es) r = (if is_tick e \<and> timer_runs (fst r) then 1 else 0) + ticks es (quiet_step e r)"

lemma tick_awaits: "run_awaits (timer_tick r) \<le> run_awaits r + (if timer_runs (fst r) then 3 else 0)"
  by (cases r) (auto simp: timer_tick_def run_awaits_def and_then_def refresh_call_def split: option.split)

text \<open>The awaits that are left are paid for by the answers still to come; a tick adds at most three.\<close>

lemma quiet_awaits: "heard es r + run_awaits (fold quiet_step es r) \<le> run_awaits r + 3 * ticks es r"
proof (induction es arbitrary: r)
  case (Cons e es)
  have "(if \<not> is_tick e \<and> snd r \<noteq> [] then 1 else 0) + run_awaits (quiet_step e r)
      \<le> run_awaits r + 3 * (if is_tick e \<and> timer_runs (fst r) then 1 else 0)"
  proof (cases e)
    case (Answered a)
    then show ?thesis
      using answer_awaits [of r a] by (cases "snd r = []") (auto simp: answer_def split: prod.split)
  next
    case Tick
    then show ?thesis using tick_awaits [of r] by (auto split: if_splits)
  qed
  then show ?case using Cons [of "quiet_step e r"] by simp
qed simp

lemma quiet_inv: "wallet_inv r \<Longrightarrow> wallet_inv (fold quiet_step es r)"
proof (induction es arbitrary: r)
  case (Cons e es)
  have "wallet_inv (quiet_step e r)"
  proof (cases e)
    case (Answered a)
    then show ?thesis using answers_inv [of r "[a]"] Cons.prems by simp
  next
    case Tick
    then show ?thesis using Cons.prems call_inv(4) [of "fst r" "snd r"] by (cases r) (simp add: timer_tick_def)
  qed
  then show ?case using Cons.IH by simp
qed simp

text \<open>C26: While the user does nothing, the provider gets events of two kinds, in any order: answers of
  the wallets, whatever they are, each to some call that waits, and ticks of its own 8 s timer,
  each of which, with a Freighter session, starts one more call. The calls that wait receive
  at most as many answers as there were awaits left at the start, plus three for each call
  the timer started. So without further ticks, after the rest of that number of answers no call
  waits and neither \<open>connecting\<close> nor \<open>reconnecting\<close> is shown; while the timer goes on starting
  calls, the number grows with them.\<close>

theorem wallet_settles:
  assumes "wallet_reachable storage r"
  shows "heard es r + run_awaits (fold quiet_step es r) \<le> run_awaits r + 3 * ticks es r
    \<and> (run_awaits r + 3 * ticks es r \<le> heard es r + length as \<longrightarrow>
        (\<exists>s. fold answer as (fold quiet_step es r) = (s, []) \<and> \<not> ws_connecting s \<and> \<not> ws_reconnecting s))"
proof (intro conjI impI quiet_awaits)
  let ?r = "fold quiet_step es r"
  assume "run_awaits r + 3 * ticks es r \<le> heard es r + length as"
  then have "run_awaits ?r \<le> length as" using quiet_awaits [of es r] by simp
  then obtain s where s: "fold answer as ?r = (s, [])" using answers_settle by (metis prod.collapse)
  then show "\<exists>s. fold answer as ?r = (s, []) \<and> \<not> ws_connecting s \<and> \<not> ws_reconnecting s"
    using answers_inv [OF quiet_inv [OF reachable_inv [OF assms]], of as es] by (simp add: wallet_inv_def)
qed

lemma wallet_settles_witness:
  "\<exists>s. fold answer (replicate 3 (0, demo_freighter, None)) (fold quiet_step [Tick] demo_connected) = (s, [])
     \<and> \<not> ws_connecting s \<and> \<not> ws_reconnecting s"
proof -
  have "run_awaits demo_connected = 0" by (simp add: run_awaits_def demo_connected_state)
  moreover have "ticks [Tick] demo_connected \<le> 1" by simp
  ultimately have "run_awaits demo_connected + 3 * ticks [Tick] demo_connected
      \<le> heard [Tick] demo_connected + length (replicate 3 (0 :: nat, demo_freighter, None :: xbull option))"
    by (simp only: heard.simps is_tick.simps length_replicate)
  then show ?thesis using wallet_settles [OF demo_connected_reachable] by blast
qed

section \<open>A session of an unknown network\<close>

text \<open>A stored session without a network, or with one the SDK does not know, ends the provider at every
  load: \<open>readPersisted\<close> accepts it, and nothing removes it.\<close>

theorem unknown_network_ends:
  assumes "json_plain (Obj kvs)" "json_strip (Obj kvs) = Obj kvs"
    and "map_of kvs ''connector'' = Some (Str c)" "c \<noteq> []" "map_of kvs ''publicKey'' = Some (Str k)" "k \<noteq> []"
    and "\<And>n. map_of kvs ''network'' \<noteq> Some (Str (network_literal n))"
  shows "\<exists>t. json_stringify (Obj kvs) = Inr (Some t) \<and> mount X (initial_wallet (Some t)) = None"
proof -
  obtain t where t: "json_stringify (Obj kvs) = Inr (Some t)" "json_parse t = Inr (Obj kvs)"
    using json_roundtrip [OF assms(1)] assms(2) by auto
  have "json_parse [] = Inl SyntaxErr" by (simp add: json_parse_def skip_ws_def)
  then have "t \<noteq> []" using t(2) by auto
  moreover have "(case js_prop (Obj kvs) ''network'' of Str n \<Rightarrow> find_text network_literal [Testnet, Mainnet] n | _ \<Rightarrow> None) = None"
    using assms(7) [of Testnet] assms(7) [of Mainnet] by (auto simp: find_text_def get_prop_def split: option.split jsval.split)
  ultimately have "\<exists>p. readPersisted (Some t) = Some p \<and> pw_network p = None"
    using assms(3-6) t(2) by (simp add: readPersisted_def decode_wallet_def get_prop_def)
  then show ?thesis using t(1) by (auto simp: mount_def initial_wallet_def)
qed

theorem unknown_network_ends_witness:
  "\<exists>t. json_stringify (Obj [(''connector'', Str ''xbull''), (''publicKey'', Str ''GA'')]) = Inr (Some t)
     \<and> mount None (initial_wallet (Some t)) = None"
  by (rule unknown_network_ends [where c = "''xbull''" and k = "''GA''"]) simp_all

section \<open>A session that comes back\<close>

text \<open>Disconnecting while the stored Freighter session is being restored has no lasting effect: the
  session is cleared, and set and stored again when the wallet answers, under whatever account
  the wallet has by then, which need not be the stored one.\<close>

theorem reconnect_undoes_disconnect:
  assumes "readPersisted storage = Some (with_network (Some (pw_network p)) p)" "pw_connector p = Freighter"
    and "silentFreighter None F = Some a"
  shows "\<exists>s1 s2 s3. mount X (initial_wallet storage) = Some (s1, [Reconnecting p])
     \<and> resume F X (Reconnecting p) s1 = (s1, [Reconnecting_Network a p])
     \<and> disconnect_call s1 = (s2, []) \<and> ws_publicKey s2 = None \<and> readPersisted (ws_storage s2) = None
     \<and> resume F X (Reconnecting_Network a p) s2 = (s3, []) \<and> ws_publicKey s3 = Some a
     \<and> readPersisted (ws_storage s3) = Some \<lparr>pw_connector = Freighter, pw_publicKey = a, pw_network = Some (pw_network p)\<rparr>"
proof -
  have any: "silentFreighter e F = silentFreighter None F" for e
    by (simp add: silentFreighter_def Let_def split: sum.split option.split)
  have a: "a \<noteq> []" by (rule silentFreighter_key [OF assms(3)])
  have p: "with_network (pw_network p) (with_network (Some (pw_network p)) p) = p" by (simp add: with_network_def)
  let ?s1 = "(initial_wallet storage)\<lparr>ws_network := pw_network p\<rparr>"
  have "mount X (initial_wallet storage) = Some (?s1, [Reconnecting p])" "ws_connector ?s1 = None"
    using assms(1,2) by (simp_all add: mount_def initial_wallet_def p) (simp_all add: with_network_def)
  moreover have "resume F X (Reconnecting p) ?s1 = (?s1, [Reconnecting_Network a p])"
    using any assms(3) by simp
  ultimately show ?thesis
    using a by (simp add: disconnect_call_def clear_session_def finish_reconnect_def applySession_def persist_none persist_read with_network_def)
qed

lemma reconnect_undoes_disconnect_witness:
  "\<exists>s1 s2 s3. mount None (initial_wallet (persist (Some \<lparr>pw_connector = Freighter, pw_publicKey = ''GB'', pw_network = Testnet\<rparr>)))
       = Some (s1, [Reconnecting \<lparr>pw_connector = Freighter, pw_publicKey = ''GB'', pw_network = Testnet\<rparr>])
     \<and> disconnect_call s1 = (s2, []) \<and> ws_publicKey s2 = None
     \<and> resume demo_freighter None (Reconnecting_Network ''GA'' \<lparr>pw_connector = Freighter, pw_publicKey = ''GB'', pw_network = Testnet\<rparr>) s2 = (s3, [])
     \<and> ws_publicKey s3 = Some ''GA''"
proof -
  let ?p = "\<lparr>pw_connector = Freighter, pw_publicKey = ''GB'', pw_network = Testnet\<rparr>"
  have "readPersisted (persist (Some ?p)) = Some (with_network (Some (pw_network ?p)) ?p)" by (rule persist_read) simp
  moreover have "silentFreighter None demo_freighter = Some ''GA''"
    using demo_address demo_available by (simp add: silentFreighter_def demo_freighter_def)
  ultimately show ?thesis
    using reconnect_undoes_disconnect [of "persist (Some ?p)" ?p demo_freighter "''GA''" None] by auto
qed

text \<open>The passphrases the SDK knows name their networks; that of the Futurenet is taken for the testnet.\<close>

lemma mapFreighterNetwork_known:
  "mapFreighterNetwork (Some (net_passphrase (NETWORKS n))) = Some n"
  "mapFreighterNetwork (Some ''Test SDF Future Network ; October 2022'') = Some Testnet"
proof -
  have "mapFreighterNetwork (Some (net_passphrase (NETWORKS Testnet))) = Some Testnet"
    "mapFreighterNetwork (Some (net_passphrase (NETWORKS Mainnet))) = Some Mainnet" by code_simp+
  then show "mapFreighterNetwork (Some (net_passphrase (NETWORKS n))) = Some n" by (cases n) simp_all
  show "mapFreighterNetwork (Some ''Test SDF Future Network ; October 2022'') = Some Testnet" by code_simp
qed

end
