(* ===== verification/Dashboard.thy ===== *)
theory Dashboard
  imports Crypto Types IndexerStore
begin

text \<open>
  apps/client/app/dashboard/page.tsx and apps/client/components/escrow/MilestoneTimeline.tsx: the
  milestones a dashboard shows, the dialog that inspects one of them, and the buttons, whose effect
  comes 400 ms after the click. Timers of one delay end in the order they were set, so the clicks
  whose effect is outstanding are a queue. A button can be used in the states in which it is shown;
  the dialog holds the milestone as it was when it was opened. Rendering and the animation of a
  closing dialog are not modelled.
\<close>

section \<open>State\<close>

type_synonym shown_milestone = "int milestone"

definition isUnderReview :: "milestone_status \<Rightarrow> bool" where
  "isUnderReview s = (s = MS_Under_Review \<or> s = MS_UnderReview)"

text \<open>What a timer does when it ends.\<close>

datatype dash_work = Approving int | Submitting int string | Disputing int

record dashboard =
  da_milestones :: "shown_milestone list"
  da_busyId :: "int option"
  da_role :: escrow_role
  da_inspecting :: "shown_milestone option"
  da_draftProof :: string
  da_proofError :: "string option"
  da_timers :: "dash_work list"

definition demoMilestones :: "shown_milestone list" where
  "demoMilestones =
     [\<lparr>milestoneId = 1, payoutAmount = 1500000000,
       descriptionHash = ''9f86d081884c7d659a2feaa0c55ad015a3bf4f1b2b0b822cd15d6c15b0f00a08'', isApproved = True,
       completedAt = 1700000000, status = MS_Released, submittedAt = None,
       proofHash = Some ''c6a1b2d3e4f5a6b7c8d9e0f1a2b3c4d5e6f7a8b9c0d1e2f3a4b5c6d7e8f9a0b1''\<rparr>,
      \<lparr>milestoneId = 2, payoutAmount = 1500000000,
       descriptionHash = ''2c624232cdd221771294dfbb310aca000a0df6ac8b66b696d90ef06fdefb64a3'', isApproved = False,
       completedAt = 0, status = MS_Under_Review, submittedAt = None, proofHash = Some (concat (replicate 32 ''ab''))\<rparr>,
      \<lparr>milestoneId = 3, payoutAmount = 1500000000,
       descriptionHash = ''3e23e8160039594a33894f6564e1b1348bbd7a0088d42c4acb73eeaed59c009d'', isApproved = False,
       completedAt = 0, status = MS_Pending, submittedAt = None, proofHash = None\<rparr>]"

definition initial_dashboard :: dashboard where
  "initial_dashboard =
     \<lparr>da_milestones = demoMilestones, da_busyId = None, da_role = Funder, da_inspecting = None, da_draftProof = [],
      da_proofError = None, da_timers = []\<rparr>"

definition dash_locked :: "shown_milestone list \<Rightarrow> int" where
  "dash_locked ms = foldl (\<lambda>sum item. sum + payoutAmount item) 0 (filter (\<lambda>item. status item \<noteq> MS_Released) ms)"

definition pendingApprovals :: "shown_milestone list \<Rightarrow> nat" where
  "pendingApprovals ms = length (filter (\<lambda>item. isUnderReview (status item)) ms)"

section \<open>The effects\<close>

text \<open>\<open>now\<close> is \<open>Date.now()\<close>.\<close>

definition approve_milestone :: "int \<Rightarrow> int \<Rightarrow> shown_milestone \<Rightarrow> shown_milestone" where
  "approve_milestone now k item =
     (if milestoneId item = k then item\<lparr>isApproved := True, status := MS_Released, completedAt := now\<rparr> else item)"

definition prove_milestone :: "int \<Rightarrow> int \<Rightarrow> string \<Rightarrow> shown_milestone \<Rightarrow> shown_milestone" where
  "prove_milestone now k hash item =
     (if milestoneId item = k then item\<lparr>proofHash := Some hash, status := MS_Under_Review, submittedAt := Some now\<rparr> else item)"

definition dispute_milestone :: "int \<Rightarrow> shown_milestone \<Rightarrow> shown_milestone" where
  "dispute_milestone k item =
     (if status item = MS_Released \<or> milestoneId item \<noteq> k then item else item\<lparr>status := MS_Disputed\<rparr>)"

definition set_timer :: "int \<Rightarrow> dash_work \<Rightarrow> dashboard \<Rightarrow> dashboard" where
  "set_timer k work s = s\<lparr>da_busyId := Some k, da_timers := da_timers s @ [work]\<rparr>"

definition work_effect :: "int \<Rightarrow> dash_work \<Rightarrow> dashboard \<Rightarrow> dashboard" where
  "work_effect now work s =
     (case work of
        Approving k \<Rightarrow> s\<lparr>da_milestones := map (approve_milestone now k) (da_milestones s)\<rparr>
      | Submitting k hash \<Rightarrow>
          s\<lparr>da_milestones := map (prove_milestone now k hash) (da_milestones s), da_inspecting := None, da_draftProof := []\<rparr>
      | Disputing k \<Rightarrow> s\<lparr>da_milestones := map (dispute_milestone k) (da_milestones s)\<rparr>)"

definition timer_ends :: "int \<Rightarrow> dashboard \<Rightarrow> dashboard" where
  "timer_ends now s =
     (case da_timers s of
        [] \<Rightarrow> s
      | work # ws \<Rightarrow> (work_effect now work s)\<lparr>da_busyId := None, da_timers := ws\<rparr>)"

section \<open>The buttons\<close>

definition canSubmit :: "dashboard \<Rightarrow> bool" where
  "canSubmit s = (da_role s = Recipient)"

definition canApprove :: "dashboard \<Rightarrow> bool" where
  "canApprove s = (da_role s = Funder \<or> da_role s = Arbitrator)"

definition inspect :: "shown_milestone \<Rightarrow> dashboard \<Rightarrow> dashboard" where
  "inspect m s = s\<lparr>da_inspecting := Some m, da_draftProof := or_default (proofHash m) [], da_proofError := None\<rparr>"

definition open_submit :: "shown_milestone \<Rightarrow> dashboard \<Rightarrow> dashboard" where
  "open_submit m s = s\<lparr>da_inspecting := Some m, da_draftProof := []\<rparr>"

text \<open>\<open>/^[0-9a-f]{64}$/\<close>\<close>

definition PROOF_RE :: re where
  "PROOF_RE = Seq Bol (Seq (Rep 64 (Cls (\<lambda>c. between (CHR ''0'') (CHR ''9'') c \<or> between (CHR ''a'') (CHR ''f'') c))) Eol)"

definition submit_proof :: "dashboard \<Rightarrow> dashboard" where
  "submit_proof s =
     (case da_inspecting s of
        None \<Rightarrow> s
      | Some m \<Rightarrow>
          let hash = map to_lower (strip0x (da_draftProof s)) in
          if \<not> re_test PROOF_RE hash then s\<lparr>da_proofError := Some ''Proof must be a 32-byte hex hash.''\<rparr>
          else set_timer (milestoneId m) (Submitting (milestoneId m) hash) (s\<lparr>da_proofError := None\<rparr>))"

definition approve_inspected :: "dashboard \<Rightarrow> dashboard" where
  "approve_inspected s =
     (case da_inspecting s of
        None \<Rightarrow> s
      | Some m \<Rightarrow> (set_timer (milestoneId m) (Approving (milestoneId m)) s)\<lparr>da_inspecting := None\<rparr>)"

inductive dash_step :: "dashboard \<Rightarrow> dashboard \<Rightarrow> bool" where
  Role: "dash_step s (s\<lparr>da_role := r\<rparr>)"
| Inspect: "m \<in> set (da_milestones s) \<Longrightarrow> dash_step s (inspect m s)"
| Open_Submit: "m \<in> set (da_milestones s) \<Longrightarrow> canSubmit s \<Longrightarrow> status m = MS_Pending \<Longrightarrow> dash_step s (open_submit m s)"
| Draft: "da_inspecting s = Some m \<Longrightarrow> canSubmit s \<Longrightarrow> status m = MS_Pending \<Longrightarrow> dash_step s (s\<lparr>da_draftProof := t\<rparr>)"
| Submit: "da_inspecting s = Some m \<Longrightarrow> canSubmit s \<Longrightarrow> status m = MS_Pending \<Longrightarrow> dash_step s (submit_proof s)"
| Close: "dash_step s (s\<lparr>da_inspecting := None\<rparr>)"
| Approve: "m \<in> set (da_milestones s) \<Longrightarrow> canApprove s \<Longrightarrow> isUnderReview (status m) \<Longrightarrow> da_busyId s \<noteq> Some (milestoneId m) \<Longrightarrow>
    dash_step s (set_timer (milestoneId m) (Approving (milestoneId m)) s)"
| Approve_Inspected: "da_inspecting s = Some m \<Longrightarrow> canApprove s \<Longrightarrow> isUnderReview (status m) \<Longrightarrow> dash_step s (approve_inspected s)"
| Dispute: "m \<in> set (da_milestones s) \<Longrightarrow> canApprove s \<Longrightarrow> status m \<noteq> MS_Released \<Longrightarrow> status m \<noteq> MS_Disputed \<Longrightarrow>
    dash_step s (set_timer (milestoneId m) (Disputing (milestoneId m)) s)"
| Timer: "da_timers s \<noteq> [] \<Longrightarrow> dash_step s (timer_ends now s)"

inductive dash_reachable :: "dashboard \<Rightarrow> bool" where
  Start: "dash_reachable initial_dashboard"
| Step: "dash_reachable s \<Longrightarrow> dash_step s s' \<Longrightarrow> dash_reachable s'"

section \<open>A release is final\<close>

text \<open>The milestone of an id, in a list without duplicate ids.\<close>

definition status_of :: "dashboard \<Rightarrow> int \<Rightarrow> milestone_status option" where
  "status_of s k = map_option status (find (\<lambda>m. milestoneId m = k) (da_milestones s))"

fun approves :: "int \<Rightarrow> dash_work \<Rightarrow> bool" where
  "approves k (Approving j) = (j = k)"
| "approves k _ = False"

fun submits :: "int \<Rightarrow> dash_work \<Rightarrow> bool" where
  "submits k (Submitting j _) = (j = k)"
| "submits k _ = False"

text \<open>
  What holds of the queue, and of the dialog. No proof is outstanding for a released milestone, none
  is queued behind an approval of its milestone, and an approval is never outstanding for a pending
  one. A dialog opened on a pending milestone is out of date at most by a dispute.
\<close>

definition queue_ok :: "(int \<Rightarrow> milestone_status option) \<Rightarrow> dash_work list \<Rightarrow> bool" where
  "queue_ok st ts \<longleftrightarrow> (\<forall>k. (st k = Some MS_Released \<longrightarrow> \<not> list_ex (submits k) ts)
     \<and> (list_ex (approves k) ts \<longrightarrow> st k \<noteq> Some MS_Pending)
     \<and> sorted_wrt (\<lambda>a b. \<not> (approves k a \<and> submits k b)) ts)"

definition dialog_ok :: "(int \<Rightarrow> milestone_status option) \<Rightarrow> shown_milestone option \<Rightarrow> dash_work list \<Rightarrow> bool" where
  "dialog_ok st d ts \<longleftrightarrow>
     (case d of
        None \<Rightarrow> True
      | Some m \<Rightarrow>
          if status m = MS_Pending
          then (st (milestoneId m) = Some MS_Pending \<or> st (milestoneId m) = Some MS_Disputed) \<and> \<not> list_ex (approves (milestoneId m)) ts
          else st (milestoneId m) \<noteq> Some MS_Pending)"

definition dash_inv :: "dashboard \<Rightarrow> bool" where
  "dash_inv s \<longleftrightarrow>
     map (\<lambda>m. (milestoneId m, payoutAmount m)) (da_milestones s) = [(1, 1500000000), (2, 1500000000), (3, 1500000000)]
     \<and> queue_ok (status_of s) (da_timers s) \<and> dialog_ok (status_of s) (da_inspecting s) (da_timers s)"

lemma status_of_mem:
  assumes "distinct (map milestoneId (da_milestones s))" "m \<in> set (da_milestones s)"
  shows "status_of s (milestoneId m) = Some (status m)"
proof -
  have "distinct (map milestoneId ms) \<Longrightarrow> m \<in> set ms \<Longrightarrow> find (\<lambda>x. milestoneId x = milestoneId m) ms = Some m" for ms
    by (induction ms) auto
  then show ?thesis using assms by (simp add: status_of_def)
qed

lemma dash_ids: "dash_inv s \<Longrightarrow> distinct (map milestoneId (da_milestones s))"
proof -
  assume "dash_inv s"
  then have "map fst (map (\<lambda>m. (milestoneId m, payoutAmount m)) (da_milestones s)) = [1, 2, 3]" by (simp add: dash_inv_def)
  then have "map milestoneId (da_milestones s) = [1, 2, 3]" by (simp add: comp_def)
  then show ?thesis by simp
qed

lemma effect_ids [simp]:
  "milestoneId (approve_milestone now k m) = milestoneId m" "payoutAmount (approve_milestone now k m) = payoutAmount m"
  "milestoneId (prove_milestone now k h m) = milestoneId m" "payoutAmount (prove_milestone now k h m) = payoutAmount m"
  "milestoneId (dispute_milestone k m) = milestoneId m" "payoutAmount (dispute_milestone k m) = payoutAmount m"
  by (simp_all add: approve_milestone_def prove_milestone_def dispute_milestone_def)

lemma effect_status [simp]:
  "status (approve_milestone now k m) = (if milestoneId m = k then MS_Released else status m)"
  "status (prove_milestone now k h m) = (if milestoneId m = k then MS_Under_Review else status m)"
  "status (dispute_milestone k m) = (if milestoneId m = k \<and> status m \<noteq> MS_Released then MS_Disputed else status m)"
  by (simp_all add: approve_milestone_def prove_milestone_def dispute_milestone_def)

lemma find_map_id:
  "(\<And>m. milestoneId (f m) = milestoneId m) \<Longrightarrow>
     find (\<lambda>m. milestoneId m = k) (map f ms) = map_option f (find (\<lambda>m. milestoneId m = k) ms)"
  by (induction ms) simp_all

lemma find_id: "find (\<lambda>m. milestoneId m = k) ms = Some m \<Longrightarrow> milestoneId m = k"
  by (simp add: find_Some_iff) blast

lemma status_of_other [simp]:
  "status_of (s\<lparr>da_role := r\<rparr>) = status_of s" "status_of (s\<lparr>da_draftProof := t\<rparr>) = status_of s"
  "status_of (s\<lparr>da_proofError := e\<rparr>) = status_of s" "status_of (s\<lparr>da_inspecting := d\<rparr>) = status_of s"
  "status_of (set_timer k w s) = status_of s" "status_of (inspect m s) = status_of s" "status_of (open_submit m s) = status_of s"
  by (simp_all add: status_of_def fun_eq_iff set_timer_def inspect_def open_submit_def)

text \<open>The statuses after a timer ended.\<close>

definition work_status :: "dash_work \<Rightarrow> (int \<Rightarrow> milestone_status option) \<Rightarrow> int \<Rightarrow> milestone_status option" where
  "work_status w st j =
     (case w of
        Approving k \<Rightarrow> if j = k \<and> st j \<noteq> None then Some MS_Released else st j
      | Submitting k _ \<Rightarrow> if j = k \<and> st j \<noteq> None then Some MS_Under_Review else st j
      | Disputing k \<Rightarrow> if j = k \<and> st j \<noteq> None \<and> st j \<noteq> Some MS_Released then Some MS_Disputed else st j)"

lemma status_of_timer:
  assumes "da_timers s = w # ws"
  shows "status_of (timer_ends now s) = work_status w (status_of s)"
proof
  fix j
  let ?ms = "da_milestones s"
  have new: "status_of (timer_ends now s) j = map_option status (find (\<lambda>m. milestoneId m = j) (case w of
      Approving k \<Rightarrow> map (approve_milestone now k) ?ms | Submitting k h \<Rightarrow> map (prove_milestone now k h) ?ms
    | Disputing k \<Rightarrow> map (dispute_milestone k) ?ms))"
    by (cases w) (simp_all add: status_of_def timer_ends_def assms work_effect_def)
  show "status_of (timer_ends now s) j = work_status w (status_of s) j"
  proof (cases "find (\<lambda>m. milestoneId m = j) ?ms")
    case None
    then show ?thesis unfolding new by (cases w) (simp_all add: status_of_def work_status_def find_map_id)
  next
    case (Some m)
    then have "milestoneId m = j" by (rule find_id)
    then show ?thesis unfolding new using Some by (cases w) (simp_all add: status_of_def work_status_def find_map_id)
  qed
qed

lemma queue_ok_timer: "queue_ok st (w # ws) \<Longrightarrow> queue_ok (work_status w st) ws"
  by (cases w) (auto simp: queue_ok_def work_status_def list_ex_iff split: if_splits)

lemma dialog_ok_timer:
  assumes "dialog_ok st d (w # ws)" "\<And>k h. w \<noteq> Submitting k h"
  shows "dialog_ok (work_status w st) d ws"
proof (cases d)
  case (Some m)
  show ?thesis
  proof (cases w)
    case (Approving k)
    then show ?thesis using assms(1) by (simp add: dialog_ok_def work_status_def Some split: if_split_asm)
  next
    case (Disputing k)
    then show ?thesis using assms(1) by (simp add: dialog_ok_def work_status_def Some split: if_split_asm) auto
  qed (use assms(2) in blast)
qed (simp add: dialog_ok_def)

lemma queue_ok_append:
  "queue_ok st ts \<Longrightarrow> (\<And>k. approves k w \<Longrightarrow> st k \<noteq> Some MS_Pending) \<Longrightarrow>
     (\<And>k. submits k w \<Longrightarrow> st k \<noteq> Some MS_Released \<and> \<not> list_ex (approves k) ts) \<Longrightarrow> queue_ok st (ts @ [w])"
  by (auto simp: queue_ok_def sorted_wrt_append list_ex_iff)

lemma dialog_ok_append:
  "dialog_ok st d ts \<Longrightarrow> (\<And>m. d = Some m \<Longrightarrow> status m = MS_Pending \<Longrightarrow> \<not> approves (milestoneId m) w) \<Longrightarrow> dialog_ok st d (ts @ [w])"
  by (auto simp: dialog_ok_def split: option.split)

lemma dialog_ok_none [simp]: "dialog_ok st None ts"
  by (simp add: dialog_ok_def)

lemma dialog_ok_current: "st (milestoneId m) = Some (status m) \<Longrightarrow> queue_ok st ts \<Longrightarrow> dialog_ok st (Some m) ts"
  by (auto simp: dialog_ok_def queue_ok_def)

lemma dash_step_inv:
  assumes "dash_step s s'" "dash_inv s"
  shows "dash_inv s'"
  using assms
proof (induction rule: dash_step.induct)
  case (Inspect m s)
  then have "status_of s (milestoneId m) = Some (status m)" using dash_ids status_of_mem by blast
  then show ?case using Inspect dialog_ok_current by (simp add: dash_inv_def) (simp add: inspect_def)
next
  case (Open_Submit m s)
  then have "status_of s (milestoneId m) = Some (status m)" using dash_ids status_of_mem by blast
  then show ?case using Open_Submit dialog_ok_current by (simp add: dash_inv_def) (simp add: open_submit_def)
next
  case (Submit s m)
  show ?case
  proof (cases "re_test PROOF_RE (map to_lower (strip0x (da_draftProof s)))")
    case False
    then show ?thesis using Submit by (simp add: submit_proof_def dash_inv_def)
  next
    case True
    let ?w = "Submitting (milestoneId m) (map to_lower (strip0x (da_draftProof s)))"
    have s': "submit_proof s = set_timer (milestoneId m) ?w (s\<lparr>da_proofError := None\<rparr>)"
      using True Submit by (simp add: submit_proof_def Let_def)
    have q: "queue_ok (status_of s) (da_timers s)" "dialog_ok (status_of s) (Some m) (da_timers s)"
      using Submit by (simp_all add: dash_inv_def)
    have "queue_ok (status_of s) (da_timers s @ [?w])"
      using q(1) by (rule queue_ok_append) (use q(2) Submit(3) in \<open>auto simp: dialog_ok_def\<close>)
    moreover have "dialog_ok (status_of s) (Some m) (da_timers s @ [?w])"
      using q(2) by (rule dialog_ok_append) simp
    ultimately show ?thesis using Submit by (simp add: s' dash_inv_def) (simp add: set_timer_def)
  qed
next
  case (Approve m s)
  let ?w = "Approving (milestoneId m)"
  have st: "status_of s (milestoneId m) = Some (status m)" using Approve dash_ids status_of_mem by blast
  have np: "status m \<noteq> MS_Pending" "status m \<noteq> MS_Disputed" using Approve(3) by (auto simp: isUnderReview_def)
  have q: "queue_ok (status_of s) (da_timers s)" "dialog_ok (status_of s) (da_inspecting s) (da_timers s)"
    using Approve by (simp_all add: dash_inv_def)
  have "queue_ok (status_of s) (da_timers s @ [?w])"
    using q(1) by (rule queue_ok_append) (use st np in auto)
  moreover have "dialog_ok (status_of s) (da_inspecting s) (da_timers s @ [?w])"
    using q(2) by (rule dialog_ok_append) (use q(2) st np in \<open>auto simp: dialog_ok_def\<close>)
  ultimately show ?case using Approve by (simp add: dash_inv_def) (simp add: set_timer_def)
next
  case (Approve_Inspected s m)
  let ?w = "Approving (milestoneId m)"
  have q: "queue_ok (status_of s) (da_timers s)" "dialog_ok (status_of s) (Some m) (da_timers s)"
    using Approve_Inspected by (simp_all add: dash_inv_def)
  have "status m \<noteq> MS_Pending" using Approve_Inspected(3) by (auto simp: isUnderReview_def)
  then have "status_of s (milestoneId m) \<noteq> Some MS_Pending" using q(2) by (simp add: dialog_ok_def)
  with q(1) have "queue_ok (status_of s) (da_timers s @ [?w])"
    by (intro queue_ok_append) auto
  then show ?case using Approve_Inspected by (simp add: dash_inv_def approve_inspected_def) (simp add: set_timer_def)
next
  case (Dispute m s)
  have "queue_ok (status_of s) (da_timers s @ [Disputing (milestoneId m)])"
      "dialog_ok (status_of s) (da_inspecting s) (da_timers s @ [Disputing (milestoneId m)])"
    using Dispute by (auto simp: dash_inv_def intro: queue_ok_append dialog_ok_append)
  then show ?case using Dispute by (simp add: dash_inv_def) (simp add: set_timer_def)
next
  case (Timer s now)
  then obtain w ws where ts: "da_timers s = w # ws" by (cases "da_timers s") auto
  have q: "queue_ok (status_of s) (w # ws)" "dialog_ok (status_of s) (da_inspecting s) (w # ws)"
    using Timer by (simp_all add: dash_inv_def ts)
  have "dialog_ok (work_status w (status_of s)) (da_inspecting (timer_ends now s)) ws"
  proof (cases "\<exists>k h. w = Submitting k h")
    case True
    then show ?thesis by (auto simp: timer_ends_def ts work_effect_def)
  next
    case False
    then have "da_inspecting (timer_ends now s) = da_inspecting s" by (cases w) (simp_all add: timer_ends_def ts work_effect_def)
    then show ?thesis using dialog_ok_timer [OF q(2)] False by simp
  qed
  moreover have "map (\<lambda>m. (milestoneId m, payoutAmount m)) (da_milestones (timer_ends now s)) =
      map (\<lambda>m. (milestoneId m, payoutAmount m)) (da_milestones s)"
    by (cases w) (simp_all add: timer_ends_def ts work_effect_def comp_def)
  moreover have "da_timers (timer_ends now s) = ws" by (simp add: timer_ends_def ts)
  ultimately show ?case
    using Timer(2) queue_ok_timer [OF q(1)] by (simp add: dash_inv_def status_of_timer [OF ts])
qed (simp_all add: dash_inv_def)

lemma dash_reachable_inv: "dash_reachable s \<Longrightarrow> dash_inv s"
proof (induction rule: dash_reachable.induct)
  case Start
  then show ?case by (simp add: dash_inv_def initial_dashboard_def demoMilestones_def queue_ok_def)
next
  case (Step s s')
  then show ?case using dash_step_inv by blast
qed

lemma dash_step_status:
  assumes "dash_step s s'"
  shows "status_of s' = status_of s \<or> (\<exists>w ws. da_timers s = w # ws \<and> status_of s' = work_status w (status_of s))"
  using assms
proof (cases rule: dash_step.cases)
  case (Submit m)
  then show ?thesis by (auto simp: submit_proof_def Let_def)
next
  case (Approve_Inspected m)
  then show ?thesis by (simp add: approve_inspected_def)
next
  case (Timer now)
  then obtain w ws where "da_timers s = w # ws" by (cases "da_timers s") auto
  then show ?thesis using status_of_timer Timer(1) by blast
qed simp_all

lemma released_stays:
  assumes "dash_inv s" "dash_step s s'" "status_of s k = Some MS_Released"
  shows "status_of s' k = Some MS_Released"
proof -
  have "work_status w (status_of s) k = Some MS_Released" if "da_timers s = w # ws" for w ws
    using assms(1,3) that by (cases w) (auto simp: work_status_def dash_inv_def queue_ok_def)
  then show ?thesis using dash_step_status [OF assms(2)] assms(3) by auto
qed

lemma locked_by_status:
  assumes "dash_inv s"
  shows "dash_locked (da_milestones s) = (\<Sum>k\<leftarrow>[1, 2, 3]. if status_of s k = Some MS_Released then 0 else 1500000000)"
proof -
  have "map (\<lambda>m. (milestoneId m, payoutAmount m)) (da_milestones s) = [(1, 1500000000), (2, 1500000000), (3, 1500000000)]"
    using assms by (simp add: dash_inv_def)
  then obtain a b c where "da_milestones s = [a, b, c]" "milestoneId a = 1" "milestoneId b = 2" "milestoneId c = 3"
      "payoutAmount a = 1500000000" "payoutAmount b = 1500000000" "payoutAmount c = 1500000000"
    by (auto simp: map_eq_Cons_conv)
  then show ?thesis by (simp add: dash_locked_def status_of_def)
qed

text \<open>C25: Whatever is clicked, in whatever role and however quickly, a milestone that was released stays
  released, its payout never changes, and the locked treasury shown never rises and never drops
  below zero.\<close>

theorem release_is_final:
  assumes "dash_reachable s" "dash_step s s'"
  shows "(status_of s k = Some MS_Released \<longrightarrow> status_of s' k = Some MS_Released)
     \<and> map payoutAmount (da_milestones s') = map payoutAmount (da_milestones s)
     \<and> 0 \<le> dash_locked (da_milestones s') \<and> dash_locked (da_milestones s') \<le> dash_locked (da_milestones s)"
proof -
  have inv: "dash_inv s" "dash_inv s'" using assms dash_reachable_inv dash_step_inv by blast+
  have stays: "status_of s j = Some MS_Released \<Longrightarrow> status_of s' j = Some MS_Released" for j
    by (rule released_stays [OF inv(1) assms(2)])
  have "map payoutAmount (da_milestones t) = [1500000000, 1500000000, 1500000000]" if "dash_inv t" for t
  proof -
    have "map snd (map (\<lambda>m. (milestoneId m, payoutAmount m)) (da_milestones t)) = [1500000000, 1500000000, 1500000000]"
      using that by (simp add: dash_inv_def)
    then show ?thesis by (simp add: comp_def)
  qed
  then have "map payoutAmount (da_milestones s') = map payoutAmount (da_milestones s)" using inv by simp
  then show ?thesis using stays [of k] stays [of 1] stays [of 2] stays [of 3] by (simp add: locked_by_status inv)
qed

section \<open>A dispute is not\<close>

lemma proof_accepted: "re_test PROOF_RE (map to_lower (strip0x (replicate 64 (CHR ''c''))))"
proof -
  have "map to_lower (strip0x (replicate 64 (CHR ''c''))) = replicate 64 (CHR ''c'')" by code_simp
  moreover have "between (CHR ''a'') (CHR ''f'') (CHR ''c'')" by code_simp
  ultimately show ?thesis unfolding PROOF_RE_def by (simp add: test_fixed_run list_all_iff)
qed

text \<open>A dispute can be lost: a recipient who had opened the proof dialog before the dispute took effect
  can still submit, and the milestone goes from Disputed back to Under Review.\<close>

theorem dispute_overwritten:
  "\<exists>s s'. dash_reachable s \<and> status_of s 3 = Some MS_Disputed \<and> dash_step\<^sup>*\<^sup>* s s' \<and> status_of s' 3 = Some MS_Under_Review"
proof -
  let ?m = "demoMilestones ! 2" and ?hash = "replicate 64 (CHR ''c'')"
  define s1 where "s1 = set_timer (milestoneId ?m) (Disputing (milestoneId ?m)) initial_dashboard"
  define s3 where "s3 = open_submit ?m (s1\<lparr>da_role := Recipient\<rparr>)"
  define s4 where "s4 = timer_ends 0 s3"
  define s5 where "s5 = s4\<lparr>da_draftProof := ?hash\<rparr>"
  define s6 where "s6 = submit_proof s5"
  have m: "?m \<in> set demoMilestones" "milestoneId ?m = 3" "status ?m = MS_Pending" by (simp_all add: demoMilestones_def)
  have d1: "da_milestones s1 = demoMilestones" "da_timers s1 = [Disputing 3]"
    by (simp_all add: s1_def set_timer_def initial_dashboard_def m)
  have d3: "da_milestones s3 = demoMilestones" "da_timers s3 = [Disputing 3]" "da_inspecting s3 = Some ?m" "da_role s3 = Recipient"
    by (simp_all add: s3_def open_submit_def d1)
  have d4: "da_timers s4 = []" "da_inspecting s4 = Some ?m" "da_role s4 = Recipient"
    by (simp_all add: s4_def timer_ends_def d3 work_effect_def)
  have d5: "da_timers s5 = []" "da_inspecting s5 = Some ?m" "da_role s5 = Recipient" "da_draftProof s5 = ?hash"
    by (simp_all add: s5_def d4)
  have t6: "da_timers s6 = [Submitting 3 (map to_lower (strip0x ?hash))]"
    using proof_accepted by (simp add: s6_def submit_proof_def d5 Let_def set_timer_def m)
  have "dash_step initial_dashboard s1"
    unfolding s1_def by (rule dash_step.Dispute) (use m in \<open>simp_all add: initial_dashboard_def canApprove_def\<close>)
  moreover have "dash_step s1 (s1\<lparr>da_role := Recipient\<rparr>)" by (rule dash_step.Role)
  moreover have "dash_step (s1\<lparr>da_role := Recipient\<rparr>) s3"
    unfolding s3_def by (rule dash_step.Open_Submit) (use m in \<open>simp_all add: d1 canSubmit_def\<close>)
  moreover have s4: "dash_step s3 s4" unfolding s4_def by (rule dash_step.Timer) (simp add: d3)
  ultimately have "dash_reachable s4" by (meson dash_reachable.intros)
  moreover have "dash_step s4 s5" unfolding s5_def by (rule dash_step.Draft [of _ ?m]) (use m in \<open>simp_all add: d4 canSubmit_def\<close>)
  moreover have "dash_step s5 s6" unfolding s6_def by (rule dash_step.Submit [of _ ?m]) (use m in \<open>simp_all add: d5 canSubmit_def\<close>)
  moreover have "dash_step s6 (timer_ends 0 s6)" by (rule dash_step.Timer) (simp add: t6)
  ultimately have run: "dash_reachable s4" "dash_step\<^sup>*\<^sup>* s4 (timer_ends 0 s6)" by (simp_all add: converse_rtranclp_into_rtranclp)
  have "status_of s3 3 = Some MS_Pending" by (simp add: status_of_def d3 demoMilestones_def)
  then have st4: "status_of s4 3 = Some MS_Disputed" by (simp add: s4_def status_of_timer [OF d3(2)] work_status_def)
  have "status_of s6 = status_of s4"
    using proof_accepted by (simp add: s6_def submit_proof_def d5 Let_def) (simp add: s5_def)
  then have "status_of (timer_ends 0 s6) 3 = Some MS_Under_Review"
    using st4 by (simp add: status_of_timer [OF t6] work_status_def)
  then show ?thesis using run st4 by blast
qed

theorem release_is_final_witness:
  "status_of (set_timer 3 (Disputing 3) initial_dashboard) 1 = Some MS_Released
     \<and> dash_locked (da_milestones (set_timer 3 (Disputing 3) initial_dashboard)) \<le> dash_locked (da_milestones initial_dashboard)"
proof -
  have "dash_step initial_dashboard (set_timer (milestoneId (demoMilestones ! 2)) (Disputing (milestoneId (demoMilestones ! 2))) initial_dashboard)"
    by (rule dash_step.Dispute) (simp_all add: demoMilestones_def initial_dashboard_def canApprove_def)
  then have "dash_step initial_dashboard (set_timer 3 (Disputing 3) initial_dashboard)" by (simp add: demoMilestones_def)
  moreover have "status_of initial_dashboard 1 = Some MS_Released"
    by (simp add: status_of_def initial_dashboard_def demoMilestones_def)
  ultimately show ?thesis using release_is_final [OF dash_reachable.Start, of _ 1] by simp
qed

end
