(* ===== verification/Analytics.thy ===== *)
theory Analytics
  imports Routes Amounts
begin

text \<open>
  apps/client/app/analytics/page.tsx: the figures the analytics page derives from the reply of
  \<open>GET /api/escrows\<close> and shows with its fallbacks, composed with the server's handler and the JSON text between them. The
  charts are not modelled; \<open>fetch\<close> is the function from the reply to the text its body is read
  from.
\<close>

section \<open>The figures\<close>

definition TVL_SERIES :: "(string \<times> int) list" where
  "TVL_SERIES = [(''Mon'', 1820), (''Tue'', 1940), (''Wed'', 2110), (''Thu'', 1980), (''Fri'', 2240), (''Sat'', 2310), (''Sun'', 2275)]"

definition VELOCITY_SERIES :: "(string \<times> nat) list" where
  "VELOCITY_SERIES = [(''W1'', 4), (''W2'', 6), (''W3'', 5), (''W4'', 9)]"

record analytics =
  an_tvl :: jsnum
  an_totalValue :: jsnum
  an_completed :: nat
  an_disputed :: nat
  an_pending :: int
  an_disputeRatio :: jsnum
  an_velocity :: "(string \<times> nat) list"
  an_tvlSeries :: "(string \<times> jsnum) list"

text \<open>\<open>Number(v || 0)\<close>\<close>

definition number_or_zero :: "jsval \<Rightarrow> jsnum" where
  "number_or_zero v = js_number (if truthy v then v else Num (Fin 0))"

text \<open>\<open>n % 4 === k\<close>, for a number that is not zero; the remainder has the sign of \<open>n\<close>.\<close>

definition num_mod4_is :: "jsnum \<Rightarrow> nat \<Rightarrow> bool" where
  "num_mod4_is n k =
     (case n of
        Fin q \<Rightarrow> q - 4 * of_int (if 0 \<le> q then \<lfloor>q / 4\<rfloor> else \<lceil>q / 4\<rceil>) = of_nat k
      | _ \<Rightarrow> False)"

definition in_week :: "nat \<Rightarrow> jsval \<Rightarrow> bool" where
  "in_week k item =
     (let completedAt = number_or_zero (js_prop item ''completedAt'') in
      if \<not> truthy (Num completedAt) then False else num_mod4_is completedAt k)"

text \<open>\<open>item.milestones\<close> in \<open>flatMap\<close>: a value that is no array is one element.\<close>

definition milestones_of :: "jsval \<Rightarrow> jsval list" where
  "milestones_of item = (case js_prop item ''milestones'' of Arr ms \<Rightarrow> ms | v \<Rightarrow> [v])"

definition count_or :: "nat \<Rightarrow> nat \<Rightarrow> nat" where
  "count_or n d = (if n \<noteq> 0 then n else d)"

definition tvl_point :: "jsnum \<Rightarrow> nat \<times> string \<times> int \<Rightarrow> string \<times> jsnum" where
  "tvl_point tvl p =
     (case p of (index, day, reference) \<Rightarrow>
        let scaled = (case tvl of Fin q \<Rightarrow> num_quot q 100000000 | n \<Rightarrow> n);
            base = (if truthy (Num scaled) then scaled else Fin (of_int reference))
        in (day, num_times base (num_add (to_double (92 / 100)) (num_times (Fin (of_nat index)) (to_double (2 / 100))))))"

definition deriveFromEscrows :: "jsval list \<Rightarrow> analytics" where
  "deriveFromEscrows escrows =
     (let tvl = foldl (\<lambda>sum item. num_add sum (number_or_zero (js_prop item ''lockedBalance''))) (Fin 0) escrows;
          totalValue = foldl (\<lambda>sum item. num_add sum (number_or_zero (js_prop (js_prop item ''config'') ''totalAmount''))) (Fin 0) escrows;
          milestones = concat (map milestones_of escrows);
          completed = length (filter (\<lambda>item. js_prop item ''status'' = Str ''Released'') milestones);
          disputed = length (filter (\<lambda>item. js_prop item ''status'' = Str ''Disputed'') milestones)
      in \<lparr>an_tvl = tvl, an_totalValue = totalValue, an_completed = completed, an_disputed = disputed,
          an_pending = int (length milestones) - int completed - int disputed,
          an_disputeRatio = (if milestones \<noteq> [] then num_quot (of_nat disputed) (of_nat (length milestones)) else Fin 0),
          an_velocity = map (\<lambda>(index, week, reference). (week, count_or (length (filter (in_week index) milestones)) reference))
            (List.enumerate 0 VELOCITY_SERIES),
          an_tvlSeries = map (tvl_point tvl) (List.enumerate 0 TVL_SERIES)\<rparr>)"

definition settlement_mix :: "analytics \<Rightarrow> (string \<times> int) list" where
  "settlement_mix st =
     [(''Released'', int (count_or (an_completed st) 12)), (''In flight'', if an_pending st \<noteq> 0 then an_pending st else 7),
      (''Disputed'', int (count_or (an_disputed st) 2))]"

text \<open>The two amounts of the page: \<open>formatStroops(BigInt(Math.round(n || sample)))\<close>; and the figure
  above the bars, that of the last week.\<close>

definition math_round :: "jsnum \<Rightarrow> jsnum" where
  "math_round n = (case n of Fin q \<Rightarrow> Fin (of_int \<lfloor>q + 1 / 2\<rfloor>) | _ \<Rightarrow> n)"

definition shown_amount :: "jsnum \<Rightarrow> int \<Rightarrow> string js" where
  "shown_amount n sample =
     bindR (js_bigint (Num (math_round (if truthy (Num n) then n else Fin (of_int sample))))) (\<lambda>b.
     bindR (formatStroops (BigInt b) 7) (\<lambda>t. Inr (t @ '' USDC'')))"

definition shown_tvl :: "analytics \<Rightarrow> string js" where
  "shown_tvl st = shown_amount (an_tvl st) 22750000000"

definition shown_volume :: "analytics \<Rightarrow> string js" where
  "shown_volume st = shown_amount (an_totalValue st) 31000000000"

definition shown_velocity :: "analytics \<Rightarrow> nat" where
  "shown_velocity st = (case rev (an_velocity st) of [] \<Rightarrow> 9 | (week, n) # _ \<Rightarrow> n)"

text \<open>The items of a reply, from the text of its body; an error shows none.\<close>

definition reply_text :: "reply \<Rightarrow> string" where
  "reply_text r = (case json_stringify (snd r) of Inr (Some t) \<Rightarrow> t | _ \<Rightarrow> [])"

definition fetched_items :: "reply \<Rightarrow> jsval list" where
  "fetched_items r =
     (if fst r = 200
      then case json_parse (reply_text r) of
          Inl _ \<Rightarrow> []
        | Inr body \<Rightarrow> (case js_prop body ''items'' of Arr xs \<Rightarrow> xs | _ \<Rightarrow> [])
      else [])"

section \<open>What the page shows of the store\<close>

definition escrow_milestones :: "indexed_escrow list \<Rightarrow> stored_milestone list" where
  "escrow_milestones es = concat (map ie_milestones es)"

definition with_status :: "milestone_status \<Rightarrow> indexed_escrow list \<Rightarrow> nat" where
  "with_status st es = length (filter (\<lambda>m. status m = st) (escrow_milestones es))"

lemma escrow_reply_plain: "escrow_storable e \<Longrightarrow> json_plain (escrow_reply e)"
  by (auto simp: escrow_reply_def escrow_storable_def config_object_plain json_plain_elems_all list_all_iff
      milestone_object_plain)

lemma fetched_items_list:
  assumes "list_all escrow_storable es" "safe_num (Fin (of_int page))" "safe_num (Fin (of_int sz))" "safe_num (Fin (of_nat n))"
    "safe_num (page_count n sz)"
  shows "fetched_items (list_reply page sz n es) = map (\<lambda>e. json_strip (escrow_reply e)) es"
proof -
  have "json_plain (snd (list_reply page sz n es))"
    using assms escrow_reply_plain by (auto simp: list_reply_def json_plain_elems_all list_all_iff safe_num_def)
  from json_roundtrip [OF this] obtain t where
    "json_stringify (snd (list_reply page sz n es)) = Inr (Some t)" "json_parse t = Inr (json_strip (snd (list_reply page sz n es)))"
    by blast
  then show ?thesis
    by (simp add: fetched_items_def reply_text_def) (simp add: list_reply_def json_strip_elems_map comp_def)
qed

lemma stripped_reply:
  "js_prop (json_strip (escrow_reply e)) ''lockedBalance'' = Str (int_dec (ie_lockedBalance e))"
  "js_prop (js_prop (json_strip (escrow_reply e)) ''config'') ''totalAmount'' = Str (int_dec (cfg_totalAmount (ie_config e)))"
  "milestones_of (json_strip (escrow_reply e)) = map (\<lambda>m. json_strip (stored_milestone_object m)) (ie_milestones e)"
  "js_prop (json_strip (stored_milestone_object m)) ''status'' = Str (milestone_status_text (status m))"
  "js_prop (json_strip (stored_milestone_object m)) ''completedAt'' = Str (int_dec (completedAt m))"
  by (simp_all add: escrow_reply_def config_object_def stored_milestone_object_def milestones_of_def json_strip_elems_map comp_def)

lemma number_or_zero_int_dec: "number_or_zero (Str (int_dec n)) = to_double (of_int n)"
  by (simp add: number_or_zero_def string_to_number_int_dec)

lemma shown_amount_value:
  assumes "0 \<le> n" "0 \<le> d"
  shows "\<exists>t. shown_amount (Fin (of_int n)) d = Inr (t @ '' USDC'') \<and> decimal_literal t = Some (of_int (if n = 0 then d else n) / 10 ^ 7)"
proof -
  define m where "m = (if n = 0 then d else n)"
  have "\<lfloor>rat_of_int m + 1 / 2\<rfloor> = m" by (intro floor_unique) simp_all
  moreover have "0 \<le> m" using assms by (simp add: m_def)
  then obtain t where "formatStroops (BigInt m) 7 = Inr t" "decimal_literal t = Some (of_int m / 10 ^ 7)"
    using formatStroops_value [of m 7] by blast
  ultimately show ?thesis by (auto simp: shown_amount_def math_round_def is_integer_iff m_def split: if_splits)
qed

lemma sum_exact:
  "0 \<le> a \<Longrightarrow> (\<And>x. x \<in> set xs \<Longrightarrow> 0 \<le> f x) \<Longrightarrow> a + sum_list (map f xs) < 2 ^ 53 \<Longrightarrow>
     foldl (\<lambda>sum x. num_add sum (to_double (of_int (f x)))) (Fin (of_int a)) xs = Fin (of_int (a + sum_list (map f xs)))"
proof (induction xs arbitrary: a)
  case (Cons x xs)
  have s: "0 \<le> sum_list (map f xs)" using Cons.prems(2) by (intro sum_list_nonneg) auto
  have x: "0 \<le> f x" "\<bar>f x\<bar> < 2 ^ 53" "\<bar>a + f x\<bar> < 2 ^ 53" using Cons.prems s by auto
  have "num_add (Fin (of_int a)) (to_double (of_int (f x))) = Fin (of_int (a + f x))"
    using to_double_int [OF x(2)] to_double_int [OF x(3)] by simp
  then show ?case using Cons.IH [of "a + f x"] Cons.prems x(1) by (simp add: add.assoc)
qed simp

lemma in_week_completed:
  assumes "0 \<le> completedAt m" "completedAt m < 2 ^ 53"
  shows "in_week k (json_strip (stored_milestone_object m)) \<longleftrightarrow> completedAt m \<noteq> 0 \<and> completedAt m mod 4 = int k"
proof -
  let ?n = "completedAt m"
  have "to_double (of_int ?n) = Fin (of_int ?n)" using assms by (intro to_double_int) simp
  then have num: "number_or_zero (js_prop (json_strip (stored_milestone_object m)) ''completedAt'') = Fin (of_int ?n)"
    by (simp add: stripped_reply number_or_zero_int_dec)
  have "\<lfloor>rat_of_int ?n / 4\<rfloor> = ?n div 4" using floor_divide_of_int_eq [of ?n 4] by simp
  then have "num_mod4_is (Fin (of_int ?n)) k \<longleftrightarrow> rat_of_int (?n - 4 * (?n div 4)) = rat_of_int (int k)"
    using assms(1) by (simp add: num_mod4_is_def)
  also have "\<dots> \<longleftrightarrow> ?n mod 4 = int k"
    unfolding of_int_eq_iff by (simp add: minus_mult_div_eq_mod)
  finally show ?thesis by (simp add: in_week_def num)
qed

lemma filter_stripped:
  assumes "\<And>m. m \<in> set (escrow_milestones es) \<Longrightarrow> P (json_strip (stored_milestone_object m)) \<longleftrightarrow> Q m"
  shows "length (filter P (concat (map milestones_of (map (\<lambda>e. json_strip (escrow_reply e)) es)))) = length (filter Q (escrow_milestones es))"
proof -
  have "concat (map milestones_of (map (\<lambda>e. json_strip (escrow_reply e)) es)) = map (\<lambda>m. json_strip (stored_milestone_object m)) (escrow_milestones es)"
    by (simp add: escrow_milestones_def stripped_reply comp_def map_concat)
  moreover have "filter (\<lambda>m. P (json_strip (stored_milestone_object m))) (escrow_milestones es) = filter Q (escrow_milestones es)"
    using assms by (intro filter_cong) simp_all
  ultimately show ?thesis by (simp add: filter_map comp_def)
qed

text \<open>What the page derives from the served escrows.\<close>

lemma derived_of_store:
  assumes "list_all escrow_storable es" "safe_num (Fin (of_int page))" "safe_num (Fin (of_int sz))" "safe_num (Fin (of_nat n))"
    "safe_num (page_count n sz)"
    and balances: "list_all (\<lambda>e. 0 \<le> ie_lockedBalance e) es" "sum_list (map ie_lockedBalance es) < 2 ^ 53"
    and volumes: "list_all (\<lambda>e. 0 \<le> cfg_totalAmount (ie_config e)) es" "sum_list (map (\<lambda>e. cfg_totalAmount (ie_config e)) es) < 2 ^ 53"
    and ledgers: "list_all (\<lambda>m. 0 \<le> completedAt m \<and> completedAt m < 2 ^ 53) (escrow_milestones es)"
  defines "st \<equiv> deriveFromEscrows (fetched_items (list_reply page sz n es))"
  shows "an_tvl st = Fin (of_int (sum_list (map ie_lockedBalance es)))"
    and "an_totalValue st = Fin (of_int (sum_list (map (\<lambda>e. cfg_totalAmount (ie_config e)) es)))"
    and "an_completed st = with_status MS_Released es" "an_disputed st = with_status MS_Disputed es"
    and "an_pending st = int (length (escrow_milestones es)) - int (with_status MS_Released es) - int (with_status MS_Disputed es)"
    and "an_velocity st = map (\<lambda>(k, week, reference). (week,
          count_or (length (filter (\<lambda>m. completedAt m \<noteq> 0 \<and> completedAt m mod 4 = int k) (escrow_milestones es))) reference))
          (List.enumerate 0 VELOCITY_SERIES)"
proof -
  define xs where "xs = map (\<lambda>e. json_strip (escrow_reply e)) es"
  have st: "st = deriveFromEscrows xs" unfolding st_def xs_def by (subst fetched_items_list [OF assms(1-5)]) (rule refl)
  have "foldl (\<lambda>sum item. num_add sum (number_or_zero (js_prop item ''lockedBalance''))) (Fin 0) xs =
      foldl (\<lambda>sum e. num_add sum (to_double (of_int (ie_lockedBalance e)))) (Fin (of_int 0)) es"
    by (simp add: xs_def foldl_map stripped_reply number_or_zero_int_dec)
  then show "an_tvl st = Fin (of_int (sum_list (map ie_lockedBalance es)))"
    using sum_exact [of 0 es ie_lockedBalance] balances by (simp add: list_all_iff st deriveFromEscrows_def Let_def)
  have "foldl (\<lambda>sum item. num_add sum (number_or_zero (js_prop (js_prop item ''config'') ''totalAmount''))) (Fin 0) xs =
      foldl (\<lambda>sum e. num_add sum (to_double (of_int (cfg_totalAmount (ie_config e))))) (Fin (of_int 0)) es"
    by (simp add: xs_def foldl_map stripped_reply number_or_zero_int_dec)
  then show "an_totalValue st = Fin (of_int (sum_list (map (\<lambda>e. cfg_totalAmount (ie_config e)) es)))"
    using sum_exact [of 0 es "\<lambda>e. cfg_totalAmount (ie_config e)"] volumes by (simp add: list_all_iff st deriveFromEscrows_def Let_def)
  have status: "length (filter (\<lambda>item. js_prop item ''status'' = Str (milestone_status_text s)) (concat (map milestones_of xs))) = with_status s es" for s
    unfolding with_status_def xs_def by (rule filter_stripped) (simp add: stripped_reply milestone_status_text_inj)
  have week: "length (filter (in_week k) (concat (map milestones_of xs))) =
      length (filter (\<lambda>m. completedAt m \<noteq> 0 \<and> completedAt m mod 4 = int k) (escrow_milestones es))" for k
    unfolding xs_def by (rule filter_stripped) (use in_week_completed ledgers in \<open>simp add: list_all_iff\<close>)
  have len: "length (concat (map milestones_of xs)) = length (escrow_milestones es)"
    unfolding xs_def using filter_stripped [of es "\<lambda>_. True" "\<lambda>_. True"] by simp
  note counts = status [of MS_Released] status [of MS_Disputed] len
  show "an_completed st = with_status MS_Released es" "an_disputed st = with_status MS_Disputed es"
    "an_pending st = int (length (escrow_milestones es)) - int (with_status MS_Released es) - int (with_status MS_Disputed es)"
    using counts by (simp_all add: st deriveFromEscrows_def Let_def)
  show "an_velocity st = map (\<lambda>(k, week, reference). (week,
          count_or (length (filter (\<lambda>m. completedAt m \<noteq> 0 \<and> completedAt m mod 4 = int k) (escrow_milestones es))) reference))
          (List.enumerate 0 VELOCITY_SERIES)"
    by (simp add: st deriveFromEscrows_def Let_def week)
qed

text \<open>C30: Of the served escrows, whose balances and totals are not negative and sum to less than 2^53,
  and whose milestones have ledger numbers from 0 to below 2^53, the analytics page shows: as total value locked the decimal text of the exact sum of the
  locked balances in units of 10^7, as funded volume that of the total amounts; in the
  settlement mix the numbers of released milestones, of disputed ones, and of all others as
  in flight. But a figure that is zero is replaced by a sample: 2275 and 3100 USDC, 12, 2
  and 7. The bar of a week counts the milestones whose ledger number, not 0, has one remainder
  by four, with a sample again for none, and the velocity above it is the fourth bar.\<close>

theorem analytics_of_store:
  assumes "list_all escrow_storable es" "safe_num (Fin (of_int page))" "safe_num (Fin (of_int sz))" "safe_num (Fin (of_nat n))"
    "safe_num (page_count n sz)"
    and balances: "list_all (\<lambda>e. 0 \<le> ie_lockedBalance e) es" "sum_list (map ie_lockedBalance es) < 2 ^ 53"
    and volumes: "list_all (\<lambda>e. 0 \<le> cfg_totalAmount (ie_config e)) es" "sum_list (map (\<lambda>e. cfg_totalAmount (ie_config e)) es) < 2 ^ 53"
    and ledgers: "list_all (\<lambda>m. 0 \<le> completedAt m \<and> completedAt m < 2 ^ 53) (escrow_milestones es)"
  shows "let st = deriveFromEscrows (fetched_items (list_reply page sz n es));
        locked = sum_list (map ie_lockedBalance es);
        volume = sum_list (map (\<lambda>e. cfg_totalAmount (ie_config e)) es);
        released = with_status MS_Released es;
        disputed = with_status MS_Disputed es;
        others = length (filter (\<lambda>m. status m \<notin> {MS_Released, MS_Disputed}) (escrow_milestones es));
        bar = (\<lambda>k sample. count_or (length (filter (\<lambda>m. completedAt m \<noteq> 0 \<and> completedAt m mod 4 = k) (escrow_milestones es))) sample)
     in (\<exists>t. shown_tvl st = Inr (t @ '' USDC'') \<and> decimal_literal t = Some (of_int (if locked = 0 then 22750000000 else locked) / 10 ^ 7))
      \<and> (\<exists>t. shown_volume st = Inr (t @ '' USDC'') \<and> decimal_literal t = Some (of_int (if volume = 0 then 31000000000 else volume) / 10 ^ 7))
      \<and> settlement_mix st =
          [(''Released'', if released = 0 then 12 else int released), (''In flight'', if others = 0 then 7 else int others),
           (''Disputed'', if disputed = 0 then 2 else int disputed)]
      \<and> an_velocity st = [(''W1'', bar 0 4), (''W2'', bar 1 6), (''W3'', bar 2 5), (''W4'', bar 3 9)]
      \<and> shown_velocity st = bar 3 9"
proof -
  define st where "st = deriveFromEscrows (fetched_items (list_reply page sz n es))"
  note d = derived_of_store [OF assms, folded st_def]
  have sums: "0 \<le> sum_list (map ie_lockedBalance es)" "0 \<le> sum_list (map (\<lambda>e. cfg_totalAmount (ie_config e)) es)"
    using balances(1) volumes(1) by (auto simp: list_all_iff intro!: sum_list_nonneg)
  have amounts: "\<exists>t. shown_tvl st = Inr (t @ '' USDC'') \<and> decimal_literal t =
        Some (of_int (if sum_list (map ie_lockedBalance es) = 0 then 22750000000 else sum_list (map ie_lockedBalance es)) / 10 ^ 7)"
      "\<exists>t. shown_volume st = Inr (t @ '' USDC'') \<and> decimal_literal t =
        Some (of_int (if sum_list (map (\<lambda>e. cfg_totalAmount (ie_config e)) es) = 0 then 31000000000
          else sum_list (map (\<lambda>e. cfg_totalAmount (ie_config e)) es)) / 10 ^ 7)"
    unfolding shown_tvl_def shown_volume_def d(1,2)
    by (rule shown_amount_value [OF sums(1) zero_le_numeral], rule shown_amount_value [OF sums(2) zero_le_numeral])
  have others: "int (length (filter (\<lambda>m. status m \<notin> {MS_Released, MS_Disputed}) ms)) =
      int (length ms) - int (length (filter (\<lambda>m. status m = MS_Released) ms)) - int (length (filter (\<lambda>m. status m = MS_Disputed) ms))" for ms
    by (induction ms) auto
  have mix: "settlement_mix st =
      [(''Released'', if with_status MS_Released es = 0 then 12 else int (with_status MS_Released es)),
       (''In flight'', if length (filter (\<lambda>m. status m \<notin> {MS_Released, MS_Disputed}) (escrow_milestones es)) = 0 then 7
          else int (length (filter (\<lambda>m. status m \<notin> {MS_Released, MS_Disputed}) (escrow_milestones es)))),
       (''Disputed'', if with_status MS_Disputed es = 0 then 2 else int (with_status MS_Disputed es))]"
    using d(5) [unfolded with_status_def, folded others] by (simp add: settlement_mix_def d(3,4) count_or_def)
  show ?thesis
    unfolding st_def [symmetric] Let_def
    by (intro conjI amounts mix) (simp_all add: shown_velocity_def d(6) VELOCITY_SERIES_def)
qed

theorem analytics_of_store_witness:
  "let st = deriveFromEscrows (fetched_items (list_reply 1 20 1 [seedEscrow ''now''])) in
     (\<exists>t. shown_tvl st = Inr (t @ '' USDC'') \<and> decimal_literal t = Some 300)
     \<and> settlement_mix st = [(''Released'', 1), (''In flight'', 2), (''Disputed'', 2)] \<and> map snd (an_velocity st) = [1, 6, 5, 9]"
proof -
  let ?es = "[seedEscrow ''now'']"
  have ms: "escrow_milestones ?es = [seedMilestone 1 1500000000 MS_Released None,
      seedMilestone 2 1500000000 MS_Under_Review (Some (concat (replicate 32 ''ab''))), seedMilestone 3 1500000000 MS_Pending None]"
    by (simp add: escrow_milestones_def seedEscrow_def)
  have "page_count 1 20 = Fin (of_int (max 1 \<lceil>rat_of_nat 1 / of_int 20\<rceil>))" by (rule page_count_ceiling) simp_all
  moreover have "\<lceil>rat_of_nat 1 / of_int 20\<rceil> = 1" by (intro ceiling_unique) simp_all
  ultimately have pages: "page_count 1 20 = Fin 1" by simp
  have plain: "list_all escrow_storable ?es" "safe_num (Fin (of_int 1))" "safe_num (Fin (of_int 20))" "safe_num (Fin (of_nat 1))"
      "safe_num (page_count 1 20)"
    unfolding pages by (simp_all add: seed_storable)
  have sum: "ie_lockedBalance (seedEscrow ''now'') = 3000000000" by (simp add: seedEscrow_def)
  have vol: "0 \<le> cfg_totalAmount (ie_config (seedEscrow ''now''))" "cfg_totalAmount (ie_config (seedEscrow ''now'')) < 2 ^ 53"
    by (simp_all add: seedEscrow_def)
  have weeks: "filter (\<lambda>m. completedAt m \<noteq> 0 \<and> completedAt m mod 4 = k) (escrow_milestones ?es) =
      (if k = 0 then [seedMilestone 1 1500000000 MS_Released None] else [])" for k
    by (auto simp: ms seedMilestone_def)
  have counts: "with_status MS_Released ?es = 1" "with_status MS_Disputed ?es = 0"
      "length (filter (\<lambda>m. status m \<notin> {MS_Released, MS_Disputed}) (escrow_milestones ?es)) = 2"
    by (simp_all add: with_status_def ms seedMilestone_def)
  have "list_all (\<lambda>m. 0 \<le> completedAt m \<and> completedAt m < 2 ^ 53) (escrow_milestones ?es)"
    by (simp add: ms seedMilestone_def)
  then show ?thesis
    using analytics_of_store [OF plain, unfolded weeks counts] vol by (simp add: sum Let_def count_or_def)
qed

end
