(* ===== verification/Stream.thy ===== *)
theory Stream
  imports JsArith Errors
begin

text \<open>
  packages/sdk/src/stream.ts: linear vesting of a stream of payments. Amounts and times are
  BigInt; a rate in basis points is a Number.
\<close>

section \<open>Operations\<close>

record stream_schedule =
  sched_total :: int
  sched_start :: int
  sched_end :: int

record accrued_balance =
  acc_vested :: int
  acc_remaining :: int
  acc_elapsedRatioBps :: jsnum
  acc_completed :: bool

definition requireNonNegative :: "int \<Rightarrow> string \<Rightarrow> int js" where
  "requireNonNegative value label =
     (if value < 0 then Inl (astraErr (label @ '' cannot be negative'') ''BAD_AMOUNT'')
      else Inr value)"

abbreviation badVesting :: js_error where
  "badVesting \<equiv> astraErr ''Stream end must be after start'' ''BAD_VESTING''"

definition vestedAmount :: "int \<Rightarrow> int \<Rightarrow> int \<Rightarrow> int \<Rightarrow> int js" where
  "vestedAmount tot start fin now =
     bindR (requireNonNegative tot ''Stream total'') (\<lambda>_.
     guardR (fin \<le> start) badVesting
       (if now \<le> start then Inr 0
        else if now \<ge> fin then Inr tot
        else bigint_div (tot * (now - start)) (fin - start)))"

definition remainingAmount :: "int \<Rightarrow> int \<Rightarrow> int \<Rightarrow> int \<Rightarrow> int js" where
  "remainingAmount tot start fin now =
     bindR (vestedAmount tot start fin now) (\<lambda>v. Inr (tot - v))"

definition elapsedRatioBps :: "int \<Rightarrow> int \<Rightarrow> int \<Rightarrow> jsnum js" where
  "elapsedRatioBps start fin now =
     guardR (fin \<le> start) badVesting
       (if now \<le> start then Inr (Fin 0)
        else if now \<ge> fin then Inr (Fin 10000)
        else bindR (bigint_div ((now - start) * 10000) (fin - start)) (\<lambda>q. Inr (js_number (BigInt q))))"

definition interpolateStream :: "stream_schedule \<Rightarrow> int \<Rightarrow> int \<Rightarrow> jsnum \<Rightarrow> accrued_balance js" where
  "interpolateStream schedule now alreadyClaimed decayBps =
     guardR (num_lt decayBps (Fin 0) \<or> num_lt (Fin 10000) decayBps)
       (astraErr ''Decay must be 0-10000 bps'' ''BAD_PENALTY'')
     (bindR (vestedAmount (sched_total schedule) (sched_start schedule) (sched_end schedule) now) (\<lambda>vestedRaw.
      bindR (js_bigint (Num decayBps)) (\<lambda>bps.
      bindR (bigint_div (vestedRaw * bps) 10000) (\<lambda>decay.
      let vested = vestedRaw - decay in
      bindR (requireNonNegative alreadyClaimed ''Claimed amount'') (\<lambda>claimed.
      let unlocked = (if vested > claimed then vested - claimed else 0);
          remaining = (if sched_total schedule > claimed then sched_total schedule - claimed - unlocked else 0)
      in bindR (elapsedRatioBps (sched_start schedule) (sched_end schedule) now) (\<lambda>ratio.
         Inr \<lparr>acc_vested = unlocked, acc_remaining = remaining, acc_elapsedRatioBps = ratio,
              acc_completed = (now \<ge> sched_end schedule)\<rparr>))))))"

definition projectStream :: "stream_schedule \<Rightarrow> int list \<Rightarrow> int \<Rightarrow> accrued_balance list js" where
  "projectStream schedule samples alreadyClaimed =
     mapR (\<lambda>now. interpolateStream schedule now alreadyClaimed (Fin 0)) samples"

section \<open>The vesting curve\<close>

text \<open>The value of the curve where it is defined.\<close>

definition vested_at :: "int \<Rightarrow> int \<Rightarrow> int \<Rightarrow> int \<Rightarrow> int" where
  "vested_at tot start fin now = tot * (max 0 (min now fin - start)) div (fin - start)"

lemma vestedAmount_eq:
  "vestedAmount tot start fin now =
     (if tot < 0 then Inl (astraErr ''Stream total cannot be negative'' ''BAD_AMOUNT'')
      else if fin \<le> start then Inl badVesting
      else Inr (vested_at tot start fin now))"
  by (auto simp: vestedAmount_def requireNonNegative_def vested_at_def max_def min_def)

lemma vested_at_bounds:
  assumes "0 \<le> tot" "start < fin"
  shows "0 \<le> vested_at tot start fin now" "vested_at tot start fin now \<le> tot"
  using assms unfolding vested_at_def
  by (auto intro!: scaled_div_le scaled_div_ge0 simp: min_def max_def)

lemma vested_at_mono:
  assumes "0 \<le> tot" "start < fin" "now \<le> now'"
  shows "vested_at tot start fin now \<le> vested_at tot start fin now'"
  unfolding vested_at_def using assms by (intro scaled_div_mono) auto

lemma vested_at_end: "start < fin \<Longrightarrow> fin \<le> now \<Longrightarrow> vested_at tot start fin now = tot"
  unfolding vested_at_def by (simp only: min.absorb2) simp

lemma elapsedRatioBps_eq:
  assumes "start < fin"
  shows "elapsedRatioBps start fin now = Inr (Fin (of_int (vested_at 10000 start fin now)))"
proof -
  have b: "\<bar>vested_at 10000 start fin now\<bar> < 2 ^ 53"
    using vested_at_bounds [OF _ assms, of 10000 now] by simp
  have "bigint_div ((now - start) * 10000) (fin - start) = Inr (vested_at 10000 start fin now)"
    if "start < now" "now < fin"
    using that by (simp add: vested_at_def mult.commute)
  moreover have "vested_at 10000 start fin now = 0" if "now \<le> start"
    using that assms by (simp add: vested_at_def)
  moreover have "vested_at 10000 start fin now = 10000" if "fin \<le> now"
    using that assms by (simp add: vested_at_end)
  ultimately show ?thesis
    using to_double_int [OF b] assms by (auto simp: elapsedRatioBps_def not_le)
qed

text \<open>C35: On a stream whose end is after its start and whose total is not negative, the vested amount
  exists at every time, lies between 0 and the total, is 0 up to the start and the total from
  the end on, in between is the floor of \<open>total * elapsed / duration\<close>, and together with the
  remaining amount makes up the total.\<close>

theorem vestedAmount_curve:
  assumes "0 \<le> tot" "start < fin"
  shows "\<exists>v. vestedAmount tot start fin now = Inr v
     \<and> remainingAmount tot start fin now = Inr (tot - v)
     \<and> 0 \<le> v \<and> v \<le> tot
     \<and> (now \<le> start \<longrightarrow> v = 0) \<and> (fin \<le> now \<longrightarrow> v = tot)
     \<and> (start < now \<and> now < fin \<longrightarrow> v * (fin - start) \<le> tot * (now - start)
          \<and> tot * (now - start) < (v + 1) * (fin - start))"
proof -
  have "v * (fin - start) \<le> tot * (now - start) \<and> tot * (now - start) < (v + 1) * (fin - start)"
    if "start < now" "now < fin" and v: "v = vested_at tot start fin now" for v
  proof -
    have "v = tot * (now - start) div (fin - start)" using that by (simp add: vested_at_def)
    moreover have "0 < fin - start" using assms by simp
    ultimately show ?thesis
      by (metis add.commute add_left_mono div_mult_mod_eq distrib_right le_add_same_cancel1 mult_1 pos_mod_bound
          pos_mod_sign add_less_cancel_left)
  qed
  moreover have "vested_at tot start fin now = 0" if "now \<le> start"
    using that assms by (simp add: vested_at_def)
  moreover have "vested_at tot start fin now = tot" if "fin \<le> now"
    using that assms by (simp add: vested_at_end)
  ultimately show ?thesis
    using vested_at_bounds [OF assms, of now] assms
    by (auto simp: vestedAmount_eq remainingAmount_def)
qed

theorem vestedAmount_curve_witness:
  "vestedAmount 1000 100 400 250 = Inr 500 \<and> (\<exists>v. vestedAmount 1000 100 400 250 = Inr v \<and> 0 \<le> v \<and> v \<le> 1000)"
  using vestedAmount_curve [of 1000 100 400 250] by (auto simp: vestedAmount_def requireNonNegative_def)

text \<open>Vesting never goes backwards: at a later time the vested amount is at least as large and the
  elapsed ratio too, which stays within 0 to 10000 basis points.\<close>

theorem vesting_monotone:
  assumes "vestedAmount tot start fin now = Inr v" "now \<le> now'"
  shows "\<exists>v' r r'. vestedAmount tot start fin now' = Inr v' \<and> v \<le> v'
     \<and> elapsedRatioBps start fin now = Inr (Fin (of_int r)) \<and> elapsedRatioBps start fin now' = Inr (Fin (of_int r'))
     \<and> 0 \<le> r \<and> r \<le> r' \<and> r' \<le> 10000"
proof -
  have s: "0 \<le> tot" "start < fin" "v = vested_at tot start fin now"
    using assms(1) by (auto simp: vestedAmount_eq split: if_splits)
  then show ?thesis
    using vested_at_mono [of tot start fin now now'] vested_at_mono [of 10000 start fin now now']
      vested_at_bounds [of 10000 start fin] assms(2)
    by (auto simp: vestedAmount_eq elapsedRatioBps_eq)
qed

theorem vesting_monotone_witness:
  "\<exists>v'. vestedAmount 7 0 3 2 = Inr v' \<and> 2 \<le> v'"
proof -
  have v: "vestedAmount 7 0 3 1 = Inr 2" by (simp add: vestedAmount_def requireNonNegative_def)
  show ?thesis using vesting_monotone [OF v, of 2] by auto
qed

section \<open>Accrued balances\<close>

text \<open>What the decay leaves of the vested amount.\<close>

definition decayed :: "int \<Rightarrow> int \<Rightarrow> int" where
  "decayed v bps = v - v * bps div 10000"

lemma decayed_bounds:
  assumes "0 \<le> v" "0 \<le> bps" "bps \<le> 10000"
  shows "0 \<le> decayed v bps" "decayed v bps \<le> v"
  using assms scaled_div_le [of v bps 10000] scaled_div_ge0 [of v bps 10000]
  by (simp_all add: decayed_def)

lemma interpolateStream_eq:
  assumes "0 \<le> sched_total s" "sched_start s < sched_end s" "0 \<le> claimed" "0 \<le> bps" "bps \<le> 10000"
  shows "interpolateStream s now claimed (Fin (of_int bps)) =
    (let vested = decayed (vested_at (sched_total s) (sched_start s) (sched_end s) now) bps;
         unlocked = max 0 (vested - claimed)
     in Inr \<lparr>acc_vested = unlocked,
             acc_remaining = (if sched_total s > claimed then sched_total s - claimed - unlocked else 0),
             acc_elapsedRatioBps = Fin (of_int (vested_at 10000 (sched_start s) (sched_end s) now)),
             acc_completed = (now \<ge> sched_end s)\<rparr>)"
proof -
  have "0 \<le> vested_at (sched_total s) (sched_start s) (sched_end s) now"
    using assms by (simp add: vested_at_bounds)
  then have d: "bigint_div (vested_at (sched_total s) (sched_start s) (sched_end s) now * bps) 10000 =
      Inr (vested_at (sched_total s) (sched_start s) (sched_end s) now * bps div 10000)"
    using assms by simp
  have b: "\<not> rat_of_int bps < 0" "\<not> 10000 < rat_of_int bps"
    using assms by (simp_all add: not_less)
  show ?thesis
    using assms d b
    by (auto simp: interpolateStream_def vestedAmount_eq requireNonNegative_def elapsedRatioBps_eq
        decayed_def Let_def max_def)
qed

text \<open>C18: For every valid schedule, decay within 0 to 10000 basis points and claim of at most the
  total, what was claimed, what is vested and unclaimed and what remains are all non-negative
  and add up to the total. This disagrees with the comment at stream.ts:54-55, by which decay
  reduces the remaining unvested tail: the code takes the floor of the decay's share off the
  vested amount instead, and \<open>remaining\<close> grows by exactly what \<open>vested\<close> loses against a
  decay of 0, so the tail is never reduced. With a claim above the total both parts are 0.\<close>

theorem interpolateStream_conserves:
  assumes "0 \<le> sched_total s" "sched_start s < sched_end s" "0 \<le> claimed" "0 \<le> bps" "bps \<le> 10000"
  shows "\<exists>b b0 v. interpolateStream s now claimed (Fin (of_int bps)) = Inr b
     \<and> interpolateStream s now claimed (Fin 0) = Inr b0
     \<and> vestedAmount (sched_total s) (sched_start s) (sched_end s) now = Inr v
     \<and> 0 \<le> acc_vested b \<and> 0 \<le> acc_remaining b
     \<and> acc_vested b = max 0 (v - v * bps div 10000 - claimed) \<and> acc_vested b0 = max 0 (v - claimed)
     \<and> acc_vested b \<le> acc_vested b0
     \<and> (if claimed \<le> sched_total s
        then claimed + acc_vested b + acc_remaining b = sched_total s
          \<and> acc_remaining b = acc_remaining b0 + (acc_vested b0 - acc_vested b)
        else acc_vested b = 0 \<and> acc_remaining b = 0)"
proof -
  define v where "v = vested_at (sched_total s) (sched_start s) (sched_end s) now"
  have v: "0 \<le> v" "v \<le> sched_total s" using assms by (simp_all add: v_def vested_at_bounds)
  have d: "0 \<le> decayed v bps" "decayed v bps \<le> v" "decayed v 0 = v"
    using decayed_bounds v assms by (simp_all add: decayed_def)
  show ?thesis
    using interpolateStream_eq [OF assms, of now] interpolateStream_eq [of s claimed 0 now] assms v d
    by (auto simp: vestedAmount_eq Let_def decayed_def simp flip: v_def)
qed

theorem interpolateStream_conserves_witness:
  "\<exists>b b0. interpolateStream \<lparr>sched_total = 1000, sched_start = 0, sched_end = 10\<rparr> 5 100 (Fin (of_int 1000)) = Inr b
     \<and> interpolateStream \<lparr>sched_total = 1000, sched_start = 0, sched_end = 10\<rparr> 5 100 (Fin 0) = Inr b0
     \<and> acc_vested b = 350 \<and> acc_remaining b = 550 \<and> acc_vested b0 = 400 \<and> acc_remaining b0 = 500"
proof -
  have "vestedAmount 1000 0 10 5 = Inr 500" by (simp add: vestedAmount_def requireNonNegative_def)
  then show ?thesis
    using interpolateStream_conserves [of "\<lparr>sched_total = 1000, sched_start = 0, sched_end = 10\<rparr>" 100 1000 5]
    by auto
qed

end
