(* ===== verification/State.thy ===== *)
theory State
  imports JsArith Types
begin

text \<open>
  packages/sdk/src/models/state.ts: the projection of an escrow's on-chain snapshot to the
  metrics a dashboard shows (locked amount, progress, deadline, health).
\<close>

section \<open>The projection\<close>

record 'n escrow_snapshot =
  snap_state :: escrow_state
  snap_config :: escrow_config
  snap_balances :: balance_book
  snap_milestones :: "'n milestone list"
  snap_now :: int
  snap_paused :: "bool option"

datatype escrow_health = Healthy | AtRisk | HealthDisputed | HealthPaused | HealthCompleted | HealthCancelled

record escrow_projection =
  pr_state :: escrow_state
  pr_total :: int
  pr_deposited :: int
  pr_released :: int
  pr_refunded :: int
  pr_locked :: int
  pr_completedMilestones :: nat
  pr_totalMilestones :: nat
  pr_percentComplete :: jsnum
  pr_secondsToDeadline :: int
  pr_overdue :: bool
  pr_health :: escrow_health

definition lockedOf :: "balance_book \<Rightarrow> int" where
  "lockedOf book =
     (let remaining = deposited book - released book - refunded book in
      if remaining > 0 then remaining else 0)"

definition bigint_or_zero :: "int option \<Rightarrow> int" where
  "bigint_or_zero x = (case x of Some n \<Rightarrow> n | None \<Rightarrow> 0)"

definition latest_submission :: "'n milestone list \<Rightarrow> int" where
  "latest_submission ms =
     foldl (\<lambda>latest item.
       let t = bigint_or_zero (submittedAt item) in if t > latest then t else latest) 0 ms"

definition deadlineOf :: "escrow_config \<Rightarrow> 'n milestone list \<Rightarrow> int" where
  "deadlineOf config ms =
     (let lock = bigint_or_zero (cfg_lockSecs config);
          submitted = latest_submission ms
      in if submitted > 0 \<and> lock > 0 then submitted + lock else lock)"

definition milestone_done :: "'n milestone \<Rightarrow> bool" where
  "milestone_done item = (isApproved item \<or> status item = MS_Released)"

definition completed_count :: "'n milestone list \<Rightarrow> nat" where
  "completed_count ms = length (filter milestone_done ms)"

definition percent_of :: "nat \<Rightarrow> nat \<Rightarrow> jsnum" where
  "percent_of c n =
     (if n = 0 then Fin 0
      else case num_floor (num_quot (of_nat (c * 10000)) (of_nat n)) of
          Fin k \<Rightarrow> num_quot k 100
        | x \<Rightarrow> x)"

definition projectEscrow :: "'n escrow_snapshot \<Rightarrow> escrow_projection" where
  "projectEscrow s =
     (let done = completed_count (snap_milestones s);
          n = length (snap_milestones s);
          percent = percent_of done n;
          deadline = deadlineOf (snap_config s) (snap_milestones s);
          overdue = (deadline > 0 \<and> snap_now s \<ge> deadline \<and> snap_state s = ES_Active)
      in \<lparr>pr_state = snap_state s,
          pr_total = cfg_totalAmount (snap_config s),
          pr_deposited = deposited (snap_balances s),
          pr_released = released (snap_balances s),
          pr_refunded = refunded (snap_balances s),
          pr_locked = lockedOf (snap_balances s),
          pr_completedMilestones = done,
          pr_totalMilestones = n,
          pr_percentComplete = percent,
          pr_secondsToDeadline = (if deadline > snap_now s then deadline - snap_now s else 0),
          pr_overdue = overdue,
          pr_health =
            (if snap_paused s = Some True then HealthPaused
             else if snap_state s = ES_Disputed then HealthDisputed
             else if snap_state s = ES_Completed then HealthCompleted
             else if snap_state s = ES_Cancelled then HealthCancelled
             else if overdue \<or> percent = Fin 0 then AtRisk
             else Healthy)\<rparr>)"

definition percentComplete :: "'n milestone list \<Rightarrow> jsnum" where
  "percentComplete ms =
     pr_percentComplete (projectEscrow
       \<lparr>snap_state = ES_Active,
        snap_config = \<lparr>cfg_funder = [], cfg_recipient = [], cfg_arbitrator = [], cfg_asset = [],
          cfg_totalAmount = 0, cfg_releaseThreshold = Fin (of_nat (length ms)), cfg_lockSecs = None\<rparr>,
        snap_balances = \<lparr>deposited = 0, released = 0, refunded = 0\<rparr>,
        snap_milestones = ms, snap_now = 0, snap_paused = None\<rparr>)"

section \<open>Progress\<close>

lemma completed_count_le: "completed_count ms \<le> length ms"
  by (simp add: completed_count_def)

lemma completed_count_full: "completed_count ms = length ms \<longleftrightarrow> list_all milestone_done ms"
  by (metis completed_count_def filter_True length_filter_less list_all_iff nat_less_le)

lemma percent_hundredths:
  assumes "k \<le> 10000"
  shows "\<exists>r. num_quot (of_nat k) 100 = Fin r \<and> 0 \<le> r \<and> r \<le> 100
     \<and> (r = 100 \<longleftrightarrow> k = 10000) \<and> (r = 0 \<longleftrightarrow> k = 0)"
proof (cases "k = 0")
  case True
  then show ?thesis by (simp add: num_quot_def to_double_def)
next
  case False
  let ?q = "rat_of_nat k / 100"
  have kq: "rat_of_nat k \<le> 10000" using assms by (metis of_nat_le_iff of_nat_numeral)
  then have "0 < ?q" "?q < pow2 7" using False by (simp_all add: pow2_def)
  then obtain r where r: "to_double ?q = Fin r" "\<bar>r - ?q\<bar> \<le> pow2 (max 7 (- 1021) - 54)"
      "\<And>j. ?q \<le> of_int j \<Longrightarrow> r \<le> of_int j" "\<And>j. of_int j \<le> ?q \<Longrightarrow> of_int j \<le> r"
    by (rule to_double_near) simp_all
  have "\<bar>r - ?q\<bar> \<le> 1 / 2 ^ 47" using r(2) by (simp add: pow2_def)
  also have "(1 :: rat) / 2 ^ 47 \<le> 1 / 1000" by simp
  finally have e: "\<bar>r - ?q\<bar> \<le> 1 / 1000" .
  have "1 \<le> rat_of_nat k" using False by simp
  then have "0 < r" using e by linarith
  moreover have "r \<le> 100" using r(3) [of 100] kq by simp
  moreover have "r = 100" if "k = 10000" using that r(4) [of 100] \<open>r \<le> 100\<close> by simp
  moreover have "r \<noteq> 100" if "k \<noteq> 10000"
  proof -
    have "k \<le> 9999" using that assms by simp
    then have "rat_of_nat k \<le> 9999" by (metis of_nat_le_iff of_nat_numeral)
    then show ?thesis using e by linarith
  qed
  ultimately show ?thesis using r(1) False by (auto simp: num_quot_def)
qed

lemma percent_of_eq:
  assumes "c \<le> n" "0 < n" "n \<le> 2 ^ 39"
  shows "percent_of c n = num_quot (of_nat (c * 10000 div n)) 100"
proof -
  have "c * 10000 < 2 ^ 14 * n" using assms by simp
  then obtain r where "to_double (of_nat (c * 10000) / of_nat n) = Fin r" "\<lfloor>r\<rfloor> = int (c * 10000 div n)"
    using floor_to_double_quot [OF assms(2,3)] by blast
  then show ?thesis using assms(2) by (simp add: percent_of_def num_quot_def)
qed

lemma percentComplete_eq: "percentComplete ms = percent_of (completed_count ms) (length ms)"
  by (simp add: percentComplete_def projectEscrow_def Let_def)

text \<open>The progress of an escrow is a percentage: a number from 0 to 100, which is 100 exactly when
  there are milestones and every one is approved or released, and 0 exactly when fewer than
  one in ten thousand is, whatever the rounding of the two divisions (for lists of at most
  \<open>2 ^ 39\<close> milestones, more than an array can hold).\<close>

theorem percentComplete_range:
  assumes "length ms \<le> 2 ^ 39"
  shows "\<exists>r. percentComplete ms = Fin r \<and> 0 \<le> r \<and> r \<le> 100
     \<and> (r = 100 \<longleftrightarrow> ms \<noteq> [] \<and> list_all milestone_done ms)
     \<and> (r = 0 \<longleftrightarrow> ms = [] \<or> 10000 * completed_count ms < length ms)"
proof (cases "ms = []")
  case True
  then show ?thesis by (simp add: percentComplete_eq percent_of_def)
next
  case False
  let ?n = "length ms" and ?c = "completed_count ms"
  let ?k = "?c * 10000 div ?n"
  have n: "0 < ?n" using False by simp
  have eq: "percentComplete ms = num_quot (of_nat ?k) 100"
    using percent_of_eq [OF completed_count_le n assms] by (simp add: percentComplete_eq)
  have "?c * 10000 \<le> 10000 * ?n" using completed_count_le [of ms] by simp
  then have k: "?k \<le> 10000" by (metis div_le_mono n nonzero_mult_div_cancel_right less_not_refl2)
  have full: "?k = 10000 \<longleftrightarrow> list_all milestone_done ms"
  proof
    assume "?k = 10000"
    then have "10000 * ?n \<le> ?c * 10000" by (metis div_times_less_eq_dividend)
    then show "list_all milestone_done ms" using completed_count_le [of ms] by (simp flip: completed_count_full)
  next
    assume "list_all milestone_done ms"
    then show "?k = 10000" using n by (simp flip: completed_count_full)
  qed
  have none: "?k = 0 \<longleftrightarrow> 10000 * ?c < ?n" using n by (simp add: div_eq_0_iff mult.commute)
  show ?thesis using percent_hundredths [OF k] eq full none False by auto
qed

theorem percentComplete_range_witness:
  "\<exists>r. percentComplete ([] :: int milestone list) = Fin r \<and> r \<noteq> 100
     \<and> (\<exists>r2. percentComplete [\<lparr>milestoneId = 1 :: int, payoutAmount = 5, descriptionHash = [], isApproved = True,
          completedAt = 0, status = MS_Pending, submittedAt = None, proofHash = None\<rparr>] = Fin r2 \<and> r2 = 100)"
  using percentComplete_range [of "[] :: int milestone list"]
    percentComplete_range [of "[\<lparr>milestoneId = 1 :: int, payoutAmount = 5, descriptionHash = [], isApproved = True,
          completedAt = 0, status = MS_Pending, submittedAt = None, proofHash = None\<rparr>]"]
  by (auto simp: milestone_done_def)

section \<open>Balances and deadlines\<close>

text \<open>The locked amount is never negative, and on every balance book that has not paid out more
  than was deposited, locked, released and refunded add up to the deposit.\<close>

theorem locked_conserves:
  "0 \<le> pr_locked (projectEscrow s)
   \<and> (released (snap_balances s) + refunded (snap_balances s) \<le> deposited (snap_balances s) \<longrightarrow>
        pr_locked (projectEscrow s) + pr_released (projectEscrow s) + pr_refunded (projectEscrow s)
          = pr_deposited (projectEscrow s))"
  by (auto simp: projectEscrow_def lockedOf_def Let_def)

theorem locked_conserves_witness:
  "\<exists>s :: int escrow_snapshot. pr_deposited (projectEscrow s) = 10 \<and> pr_released (projectEscrow s) = 4
     \<and> pr_locked (projectEscrow s) + pr_released (projectEscrow s) + pr_refunded (projectEscrow s)
          = pr_deposited (projectEscrow s)"
proof -
  let ?s = "\<lparr>snap_state = ES_Active, snap_config = undefined, snap_balances = \<lparr>deposited = 10, released = 4, refunded = 1\<rparr>,
     snap_milestones = [] :: int milestone list, snap_now = 0, snap_paused = None\<rparr>"
  have "pr_deposited (projectEscrow ?s) = 10" "pr_released (projectEscrow ?s) = 4"
    by (simp_all add: projectEscrow_def Let_def)
  then show ?thesis using locked_conserves [of ?s] by (intro exI [of _ ?s]) simp
qed

lemma latest_submission_snoc:
  "latest_submission (ms @ [m]) = max (latest_submission ms) (bigint_or_zero (submittedAt m))"
  by (simp add: latest_submission_def Let_def max_def)

lemma latest_submission_Max:
  "latest_submission ms = Max (insert 0 ((\<lambda>m. bigint_or_zero (submittedAt m)) ` set ms))"
proof (induction ms rule: rev_induct)
  case Nil
  then show ?case by (simp add: latest_submission_def)
next
  case (snoc m ms)
  then show ?case by (simp add: latest_submission_snoc insert_commute [of 0] max.commute)
qed

text \<open>Time to the deadline: the deadline is the lock window counted from the latest proof
  submission of any milestone; the remaining seconds are never negative and reach the deadline
  exactly; an escrow is overdue only when it is active and no time is left.\<close>

theorem deadline_spec:
  "let p = projectEscrow s; lock = bigint_or_zero (cfg_lockSecs (snap_config s));
       latest = Max (insert 0 ((\<lambda>m. bigint_or_zero (submittedAt m)) ` set (snap_milestones s)));
       deadline = (if 0 < latest \<and> 0 < lock then latest + lock else lock)
   in pr_secondsToDeadline p = max 0 (deadline - snap_now s)
    \<and> (pr_overdue p \<longleftrightarrow> snap_state s = ES_Active \<and> 0 < deadline \<and> pr_secondsToDeadline p = 0)"
  by (auto simp: projectEscrow_def deadlineOf_def Let_def max_def simp flip: latest_submission_Max)

text \<open>Without any proof submission the lock window itself, a duration, is compared with the current
  time: an active escrow with a positive window is overdue, and so at risk, as soon as the
  clock has passed that many seconds since the epoch.\<close>

theorem unsubmitted_overdue:
  assumes "snap_state s = ES_Active" "snap_paused s \<noteq> Some True"
    and "list_all (\<lambda>m. bigint_or_zero (submittedAt m) \<le> 0) (snap_milestones s)"
    and "cfg_lockSecs (snap_config s) = Some lock" "0 < lock" "lock \<le> snap_now s"
  shows "pr_overdue (projectEscrow s) \<and> pr_health (projectEscrow s) = AtRisk
     \<and> pr_secondsToDeadline (projectEscrow s) = 0"
proof -
  have "latest_submission (snap_milestones s) = 0"
    unfolding latest_submission_Max
    by (rule Max_eqI) (use assms(3) in \<open>auto simp: list_all_iff\<close>)
  then show ?thesis
    using assms by (simp add: projectEscrow_def deadlineOf_def bigint_or_zero_def Let_def)
qed

theorem unsubmitted_overdue_witness:
  "pr_health (projectEscrow
     \<lparr>snap_state = ES_Active,
      snap_config = \<lparr>cfg_funder = [], cfg_recipient = [], cfg_arbitrator = [], cfg_asset = [],
          cfg_totalAmount = 0, cfg_releaseThreshold = Fin 1, cfg_lockSecs = Some 2592000\<rparr>,
      snap_balances = \<lparr>deposited = 10, released = 0, refunded = 0\<rparr>,
      snap_milestones = ([] :: int milestone list), snap_now = 1700000000, snap_paused = None\<rparr>) = AtRisk"
  by (rule unsubmitted_overdue [where lock = 2592000, THEN conjunct2, THEN conjunct1]) simp_all

text \<open>The health shown follows one order of precedence: paused, then disputed, completed and
  cancelled as the state says, then at risk (overdue or no visible progress), else healthy.
  In particular an escrow shown healthy is pending or active, has progress and is not overdue.\<close>

theorem health_precedence:
  "let p = projectEscrow s; h = pr_health p in
    (h = HealthPaused \<longleftrightarrow> snap_paused s = Some True)
    \<and> (h = HealthDisputed \<longleftrightarrow> snap_paused s \<noteq> Some True \<and> snap_state s = ES_Disputed)
    \<and> (h = HealthCompleted \<longleftrightarrow> snap_paused s \<noteq> Some True \<and> snap_state s = ES_Completed)
    \<and> (h = HealthCancelled \<longleftrightarrow> snap_paused s \<noteq> Some True \<and> snap_state s = ES_Cancelled)
    \<and> (h = Healthy \<longleftrightarrow> snap_paused s \<noteq> Some True \<and> snap_state s \<in> {ES_Pending, ES_Active}
         \<and> \<not> pr_overdue p \<and> pr_percentComplete p \<noteq> Fin 0)"
  by (cases "snap_state s") (auto simp: projectEscrow_def Let_def)

end
