(* ===== verification/LruCache.thy ===== *)
theory LruCache
  imports JsConvert
begin

text \<open>
  packages/sdk/src/cache.ts: an in-memory cache with a bound on its size and a time to live,
  kept in a JavaScript Map whose insertion order is the order of last use. Options and times
  are integers (milliseconds); every reading of the clock is an argument of the operation.
  The cached values are taken not to be \<open>undefined\<close>.
\<close>

section \<open>State and operations\<close>

record 'v cache_entry =
  ce_value :: 'v
  ce_expiresAt :: int

record 'v lru =
  lru_maxEntries :: nat
  lru_ttlMs :: int
  lru_map :: "(string, 'v cache_entry) jsmap"
  lru_hits :: nat
  lru_misses :: nat

definition lru_new :: "int option \<Rightarrow> int option \<Rightarrow> 'v lru" where
  "lru_new maxEntries ttlMs =
     \<lparr>lru_maxEntries = nat (max 1 (case maxEntries of Some n \<Rightarrow> n | None \<Rightarrow> 128)),
      lru_ttlMs = max 0 (case ttlMs of Some n \<Rightarrow> n | None \<Rightarrow> 15000),
      lru_map = [], lru_hits = 0, lru_misses = 0\<rparr>"

definition lru_size :: "'v lru \<Rightarrow> nat" where
  "lru_size c = length (lru_map c)"

definition lru_stats :: "'v lru \<Rightarrow> nat \<times> nat \<times> nat" where
  "lru_stats c = (lru_hits c, lru_misses c, length (lru_map c))"

definition lru_get :: "string \<Rightarrow> int \<Rightarrow> 'v lru \<Rightarrow> 'v option \<times> 'v lru" where
  "lru_get key now c =
     (case jm_get key (lru_map c) of
        None \<Rightarrow> (None, c\<lparr>lru_misses := lru_misses c + 1\<rparr>)
      | Some entry \<Rightarrow>
          if lru_ttlMs c > 0 \<and> ce_expiresAt entry \<le> now
          then (None, c\<lparr>lru_map := jm_delete key (lru_map c), lru_misses := lru_misses c + 1\<rparr>)
          else (Some (ce_value entry),
                c\<lparr>lru_map := jm_set key entry (jm_delete key (lru_map c)), lru_hits := lru_hits c + 1\<rparr>))"

text \<open>\<open>evict\<close>: the expired entries first, then the oldest ones while the map is too large.\<close>

definition entry_live :: "int \<Rightarrow> int \<Rightarrow> 'v cache_entry \<Rightarrow> bool" where
  "entry_live ttlMs now e = (\<not> (ttlMs > 0 \<and> ce_expiresAt e \<le> now))"

fun drop_oldest :: "nat \<Rightarrow> ('k, 'v) jsmap \<Rightarrow> ('k, 'v) jsmap" where
  "drop_oldest cap [] = []"
| "drop_oldest cap (e # m) = (if length (e # m) > cap then drop_oldest cap m else e # m)"

definition evict_map :: "nat \<Rightarrow> int \<Rightarrow> int \<Rightarrow> (string, 'v cache_entry) jsmap \<Rightarrow> (string, 'v cache_entry) jsmap" where
  "evict_map cap ttlMs now m = drop_oldest cap (filter (\<lambda>e. entry_live ttlMs now (snd e)) m)"

definition lru_set :: "string \<Rightarrow> 'v \<Rightarrow> int option \<Rightarrow> int \<Rightarrow> int \<Rightarrow> 'v lru \<Rightarrow> 'v lru" where
  "lru_set key value ttlMs now1 now2 c =
     (let ttl = (case ttlMs of Some t \<Rightarrow> t | None \<Rightarrow> lru_ttlMs c);
          m = (if jm_has key (lru_map c) then jm_delete key (lru_map c) else lru_map c)
      in c\<lparr>lru_map := evict_map (lru_maxEntries c) (lru_ttlMs c) now2
             (jm_set key \<lparr>ce_value = value, ce_expiresAt = now1 + ttl\<rparr> m)\<rparr>)"

definition lru_delete :: "string \<Rightarrow> 'v lru \<Rightarrow> bool \<times> 'v lru" where
  "lru_delete key c = (jm_has key (lru_map c), c\<lparr>lru_map := jm_delete key (lru_map c)\<rparr>)"

definition lru_clear :: "'v lru \<Rightarrow> 'v lru" where
  "lru_clear c = c\<lparr>lru_map := []\<rparr>"

text \<open>
  \<open>wrap\<close>: a cached value is returned without calling the producer; otherwise the producer's
  promise is awaited, during which other code may use the cache (\<open>meanwhile\<close>), and its value
  is stored; a rejection is passed on.
\<close>

definition lru_wrap ::
  "string \<Rightarrow> int \<Rightarrow> 'v js \<Rightarrow> int option \<Rightarrow> ('v lru \<Rightarrow> 'v lru) \<Rightarrow> int \<Rightarrow> int \<Rightarrow> 'v lru \<Rightarrow> 'v js \<times> 'v lru" where
  "lru_wrap key now produced ttlMs meanwhile now1 now2 c =
     (case lru_get key now c of
        (Some v, c') \<Rightarrow> (Inr v, c')
      | (None, c') \<Rightarrow>
          (case produced of
             Inl e \<Rightarrow> (Inl e, meanwhile c')
           | Inr v \<Rightarrow> (Inr v, lru_set key v ttlMs now1 now2 (meanwhile c'))))"

definition contractStateKey :: "string \<Rightarrow> string \<Rightarrow> jsval list \<Rightarrow> string js" where
  "contractStateKey contractId meth args =
     bindR (json_stringify (Arr args)) (\<lambda>t.
       Inr (contractId @ '':'' @ meth @ '':'' @ (case t of Some s \<Rightarrow> s | None \<Rightarrow> ''undefined'')))"

section \<open>The eviction is a bounded store\<close>

lemma drop_oldest_eq: "drop_oldest cap m = drop (length m - cap) m"
proof (induction cap m rule: drop_oldest.induct)
  case (2 cap e m)
  then show ?case by (cases "length (e # m) > cap") (simp_all add: Suc_diff_le less_Suc_eq_le)
qed simp

lemma jm_wf_drop: "jm_wf m \<Longrightarrow> jm_wf (drop n m)"
  by (simp add: jm_wf_def flip: drop_map)

lemma evict_map_wf: "jm_wf m \<Longrightarrow> jm_wf (evict_map cap ttl now m)"
  by (simp add: evict_map_def drop_oldest_eq jm_wf_drop jm_wf_filter)

interpretation cache: expiring_store cap "entry_live ttl" "evict_map cap ttl"
  for cap :: nat and ttl :: int
proof unfold_locales
  fix m :: "(string, 'v cache_entry) jsmap" and t
  show "jm_wf m \<Longrightarrow> jm_wf (evict_map cap ttl t m)" by (rule evict_map_wf)
  show "set (evict_map cap ttl t m) \<subseteq> {e \<in> set m. entry_live ttl t (snd e)}"
    using set_drop_subset by (fastforce simp: evict_map_def drop_oldest_eq)
  show "length (evict_map cap ttl t m) \<le> cap"
    by (simp add: evict_map_def drop_oldest_eq)
  show "length (filter (\<lambda>e. entry_live ttl t (snd e)) m) \<le> cap \<Longrightarrow>
      evict_map cap ttl t m = filter (\<lambda>e. entry_live ttl t (snd e)) m"
    by (simp add: evict_map_def drop_oldest_eq)
qed

section \<open>Histories\<close>

datatype 'v lru_op =
    OpGet string int
  | OpSet string 'v "int option" int int
  | OpDelete string
  | OpClear

fun lru_step :: "'v lru_op \<Rightarrow> 'v lru \<Rightarrow> 'v lru" where
  "lru_step (OpGet k t) c = snd (lru_get k t c)"
| "lru_step (OpSet k v ttl t1 t2) c = lru_set k v ttl t1 t2 c"
| "lru_step (OpDelete k) c = snd (lru_delete k c)"
| "lru_step OpClear c = lru_clear c"

definition lru_run :: "'v lru_op list \<Rightarrow> 'v lru \<Rightarrow> 'v lru" where
  "lru_run ops c = fold lru_step ops c"

definition lru_inv :: "'v lru \<Rightarrow> bool" where
  "lru_inv c = (jm_wf (lru_map c) \<and> length (lru_map c) \<le> lru_maxEntries c \<and> 1 \<le> lru_maxEntries c)"

lemma jm_delete_length: "length (jm_delete k m) \<le> length m"
  by (simp add: jm_delete_def)

lemma jm_delete_length_less: "jm_get k m = Some v \<Longrightarrow> length (jm_delete k m) < length m"
  unfolding jm_delete_def by (rule length_filter_less [of "(k, v)"]) (auto simp: jm_get_def dest: map_of_SomeD)

lemma jm_get_delete_same [simp]: "jm_get k (jm_delete k m) = None"
  by (simp add: jm_get_delete)

lemma jm_set_after_delete: "jm_set k v (jm_delete k m) = jm_delete k m @ [(k, v)]"
  by (simp add: jm_set_absent)

lemma lru_set_map:
  "lru_map (lru_set k v ttl t1 t2 c) =
     evict_map (lru_maxEntries c) (lru_ttlMs c) t2
       (jm_delete k (lru_map c) @
        [(k, \<lparr>ce_value = v, ce_expiresAt = t1 + (case ttl of Some t \<Rightarrow> t | None \<Rightarrow> lru_ttlMs c)\<rparr>)])"
proof -
  have "jm_delete k (lru_map c) = lru_map c" if "\<not> jm_has k (lru_map c)"
    using that by (auto simp: jm_has_def jm_get_None_iff jm_delete_def filter_id_conv)
  then show ?thesis by (cases "jm_has k (lru_map c)") (auto simp: lru_set_def Let_def jm_set_after_delete jm_set_absent jm_has_def)
qed

lemma lru_set_options [simp]:
  "lru_maxEntries (lru_set k v ttl t1 t2 c) = lru_maxEntries c" "lru_ttlMs (lru_set k v ttl t1 t2 c) = lru_ttlMs c"
  by (simp_all add: lru_set_def Let_def)

lemma lru_step_options [simp]:
  "lru_maxEntries (lru_step op c) = lru_maxEntries c" "lru_ttlMs (lru_step op c) = lru_ttlMs c"
  by (cases op; simp add: lru_get_def lru_set_def lru_delete_def lru_clear_def Let_def split: option.splits)+

lemma jm_wf_moved: "jm_wf m \<Longrightarrow> jm_wf (jm_delete k m @ [(k, e)])"
  by (metis jm_wf_delete jm_wf_set jm_set_after_delete)

lemma lru_step_inv:
  assumes "lru_inv c"
  shows "lru_inv (lru_step op c)"
proof (cases op)
  case (OpGet k t)
  have "Suc (length (jm_delete k (lru_map c))) \<le> length (lru_map c)" if "jm_get k (lru_map c) = Some e" for e
    using jm_delete_length_less [OF that] by simp
  then show ?thesis
    using assms jm_delete_length [of k "lru_map c"] OpGet
    by (auto simp: lru_inv_def lru_get_def jm_set_after_delete jm_wf_delete jm_wf_moved
        split: option.splits intro: order_trans)
next
  case (OpSet k v ttl t1 t2)
  then show ?thesis
    using assms
    by (auto simp: lru_inv_def lru_set_map intro!: cache.prune_cap evict_map_wf jm_wf_moved)
next
  case (OpDelete k)
  then show ?thesis
    using assms jm_delete_length [of k "lru_map c"]
    by (auto simp: lru_inv_def lru_delete_def jm_wf_delete intro: order_trans)
next
  case OpClear
  then show ?thesis using assms by (simp add: lru_inv_def lru_clear_def)
qed

lemma lru_new_inv: "lru_inv (lru_new me ttl)"
  by (simp add: lru_inv_def lru_new_def)

lemma lru_run_inv: "lru_inv c \<Longrightarrow> lru_inv (lru_run ops c)"
  unfolding lru_run_def by (induction ops arbitrary: c) (simp_all add: lru_step_inv)

lemma lru_run_options [simp]:
  "lru_maxEntries (lru_run ops c) = lru_maxEntries c" "lru_ttlMs (lru_run ops c) = lru_ttlMs c"
  unfolding lru_run_def by (induction ops arbitrary: c) simp_all

text \<open>However the cache is used from its construction on, it never holds more entries than
  \<open>maxEntries\<close> (at least 1), never two entries for a key, and the answer of \<open>stats\<close> agrees with
  its size.\<close>

theorem lru_bounded:
  "lru_size (lru_run ops (lru_new me ttl)) \<le> nat (max 1 (case me of Some n \<Rightarrow> n | None \<Rightarrow> 128))
   \<and> distinct (jm_keys (lru_map (lru_run ops (lru_new me ttl))))
   \<and> snd (snd (lru_stats (lru_run ops (lru_new me ttl)))) = lru_size (lru_run ops (lru_new me ttl))"
proof -
  have "lru_inv (lru_run ops (lru_new me ttl))" by (simp add: lru_run_inv lru_new_inv)
  moreover have "lru_maxEntries (lru_run ops (lru_new me ttl)) = nat (max 1 (case me of Some n \<Rightarrow> n | None \<Rightarrow> 128))"
    by (simp add: lru_new_def)
  ultimately show ?thesis
    by (simp add: lru_inv_def lru_size_def lru_stats_def jm_keys_distinct)
qed

section \<open>What a reader gets\<close>

text \<open>The newest entry survives its own eviction when it is not expired already.\<close>

lemma evict_keeps_last:
  assumes "1 \<le> cap" "entry_live ttl now (snd e)"
  shows "\<exists>m'. evict_map cap ttl now (m @ [e]) = m' @ [e]"
  using assms by (simp add: evict_map_def drop_oldest_eq)

lemma jm_get_last: "jm_wf (m @ [(k, e)]) \<Longrightarrow> jm_get k (m @ [(k, e)]) = Some e"
  by (simp add: jm_get_iff_mem)

lemma lru_set_get:
  assumes "lru_inv c" "ttl' = (case ttl of Some t \<Rightarrow> t | None \<Rightarrow> lru_ttlMs c)"
    and "lru_ttlMs c > 0 \<longrightarrow> t2 < t1 + ttl'"
  shows "jm_get k (lru_map (lru_set k v ttl t1 t2 c)) = Some \<lparr>ce_value = v, ce_expiresAt = t1 + ttl'\<rparr>"
proof -
  let ?e = "(k, \<lparr>ce_value = v, ce_expiresAt = t1 + ttl'\<rparr>)"
  have "entry_live (lru_ttlMs c) t2 (snd ?e)" using assms(3) by (auto simp: entry_live_def)
  then obtain m' where m': "lru_map (lru_set k v ttl t1 t2 c) = m' @ [?e]"
    using evict_keeps_last [of "lru_maxEntries c" "lru_ttlMs c" t2 ?e] assms(1,2)
    by (auto simp: lru_set_map lru_inv_def)
  have "jm_wf (lru_map (lru_step (OpSet k v ttl t1 t2) c))"
    using lru_step_inv [OF assms(1), of "OpSet k v ttl t1 t2"] by (simp add: lru_inv_def)
  then show ?thesis using m' by (simp add: jm_get_last)
qed

text \<open>A value that was stored is the value that is read: until its time to live has passed (and
  always when expiry is disabled), \<open>get\<close> right after \<open>set\<close> returns the stored value and counts a
  hit; from the expiry time on it returns nothing and drops the entry.\<close>

theorem lru_get_after_set:
  assumes "lru_inv c" "lru_ttlMs c > 0 \<longrightarrow> t2 < t1 + (case ttl of Some t \<Rightarrow> t | None \<Rightarrow> lru_ttlMs c)"
  shows "let c' = lru_set k v ttl t1 t2 c;
             dead = (lru_ttlMs c > 0 \<and> t1 + (case ttl of Some t \<Rightarrow> t | None \<Rightarrow> lru_ttlMs c) \<le> t3);
             r = lru_get k t3 c'
         in fst r = (if dead then None else Some v)
          \<and> lru_hits (snd r) = lru_hits c + (if dead then 0 else 1)
          \<and> lru_misses (snd r) = lru_misses c + (if dead then 1 else 0)
          \<and> jm_has k (lru_map (snd r)) = (\<not> dead)"
proof -
  have o: "lru_ttlMs (lru_set k v ttl t1 t2 c) = lru_ttlMs c" "lru_hits (lru_set k v ttl t1 t2 c) = lru_hits c"
    "lru_misses (lru_set k v ttl t1 t2 c) = lru_misses c"
    by (simp_all add: lru_set_def Let_def)
  show ?thesis
    unfolding lru_get_def lru_set_get [OF assms(1) refl assms(2)] Let_def
    by (simp add: o jm_has_def jm_get_set)
qed

theorem lru_get_after_set_witness:
  "fst (lru_get ''k'' 20 (lru_set ''k'' (7 :: int) None 10 11 (lru_new (Some 2) (Some 100)))) = Some 7"
  using lru_get_after_set [of "lru_new (Some 2) (Some 100) :: int lru" 11 10 None "''k''" 7 20]
  by (simp add: lru_new_inv) (simp add: lru_new_def Let_def)

text \<open>A reader never sees an expired or foreign value: whatever happened before, a value that \<open>get\<close>
  returns is the one stored under that key and its expiry lies in the future, unless expiry
  is disabled.\<close>

theorem lru_get_fresh:
  "case fst (lru_get k now c) of
     None \<Rightarrow> \<not> (\<exists>e. jm_get k (lru_map c) = Some e \<and> entry_live (lru_ttlMs c) now e)
   | Some v \<Rightarrow> (\<exists>e. jm_get k (lru_map c) = Some e \<and> ce_value e = v
        \<and> (lru_ttlMs c \<le> 0 \<or> now < ce_expiresAt e))"
  by (auto simp: lru_get_def entry_live_def not_less not_le split: option.splits)

section \<open>Least recently used\<close>

text \<open>The entry \<open>(k, e)\<close> is in the map and only keys of \<open>U\<close> have been used since \<open>k\<close> was.\<close>

definition used_since :: "string \<Rightarrow> 'v cache_entry \<Rightarrow> string set \<Rightarrow> (string, 'v cache_entry) jsmap \<Rightarrow> bool" where
  "used_since k e U m = (\<exists>pre post. m = pre @ (k, e) # post \<and> fst ` set post \<subseteq> U)"

lemma used_since_get: "jm_wf m \<Longrightarrow> used_since k e U m \<Longrightarrow> jm_get k m = Some e"
  by (auto simp: used_since_def jm_get_iff_mem)

lemma used_since_mono: "used_since k e U m \<Longrightarrow> U \<subseteq> V \<Longrightarrow> used_since k e V m"
  unfolding used_since_def by (elim exE conjE) (intro exI conjI, assumption, erule (1) subset_trans)

lemma used_since_filter:
  assumes "used_since k e U m" "P (k, e)"
  shows "used_since k e U (filter P m)"
proof -
  obtain pre post where "m = pre @ (k, e) # post" "fst ` set post \<subseteq> U"
    using assms(1) by (auto simp: used_since_def)
  then have "filter P m = filter P pre @ (k, e) # filter P post \<and> fst ` set (filter P post) \<subseteq> U"
    using assms(2) by auto
  then show ?thesis unfolding used_since_def by blast
qed

lemma used_since_snoc:
  assumes "used_since k e U m"
  shows "used_since k e (insert j U) (m @ [(j, x)])"
proof -
  obtain pre post where "m = pre @ (k, e) # post" "fst ` set post \<subseteq> U"
    using assms by (auto simp: used_since_def)
  then have "m @ [(j, x)] = pre @ (k, e) # (post @ [(j, x)]) \<and> fst ` set (post @ [(j, x)]) \<subseteq> insert j U"
    by auto
  then show ?thesis unfolding used_since_def by blast
qed

lemma used_since_drop:
  assumes "used_since k e U m" "jm_wf m" "finite U" "card U < cap"
  shows "used_since k e U (drop_oldest cap m)"
proof -
  obtain pre post where m: "m = pre @ (k, e) # post" and post: "fst ` set post \<subseteq> U"
    using assms(1) by (auto simp: used_since_def)
  have "distinct (map fst post)" using assms(2) by (simp add: m jm_wf_def)
  then have "length post = card (fst ` set post)" by (metis distinct_card length_map set_map)
  also have "\<dots> \<le> card U" using post assms(3) by (rule card_mono [rotated])
  finally have "length m - cap \<le> length pre" using assms(4) by (simp add: m)
  then have "drop_oldest cap m = drop (length m - cap) pre @ (k, e) # post"
    by (simp add: drop_oldest_eq m)
  then show ?thesis using post by (auto simp: used_since_def)
qed

lemma used_since_delete: "used_since k e U m \<Longrightarrow> j \<noteq> k \<Longrightarrow> used_since k e U (jm_delete j m)"
  unfolding jm_delete_def by (rule used_since_filter) simp_all

text \<open>The keys an operation uses, the operations that leave \<open>k\<close>'s entry alone, and their clocks.\<close>

fun op_keys :: "'v lru_op \<Rightarrow> string set" where
  "op_keys (OpGet k _) = {k}"
| "op_keys (OpSet k _ _ _ _) = {k}"
| "op_keys _ = {}"

fun op_spares :: "string \<Rightarrow> 'v lru_op \<Rightarrow> bool" where
  "op_spares k (OpGet _ _) = True"
| "op_spares k (OpSet j _ _ _ _) = (j \<noteq> k)"
| "op_spares k (OpDelete j) = (j \<noteq> k)"
| "op_spares k OpClear = False"

fun op_before :: "int \<Rightarrow> 'v lru_op \<Rightarrow> bool" where
  "op_before d (OpGet _ t) = (t < d)"
| "op_before d (OpSet _ _ _ _ t2) = (t2 < d)"
| "op_before d _ = True"

lemma lru_step_used_since:
  assumes inv: "lru_inv c" and u: "used_since k e U (lru_map c)" "k \<notin> U"
    and op: "op_spares k op" "lru_ttlMs c \<le> 0 \<or> op_before (ce_expiresAt e) op"
    and card: "finite U" "card (U \<union> op_keys op - {k}) < lru_maxEntries c"
  shows "used_since k e (U \<union> op_keys op - {k}) (lru_map (lru_step op c))"
proof (cases op)
  case (OpGet j t)
  show ?thesis
  proof (cases "j = k")
    case True
    have "jm_get k (lru_map c) = Some e"
      using inv u by (simp add: used_since_get lru_inv_def)
    then have "lru_map (lru_step op c) = jm_delete k (lru_map c) @ [(k, e)]"
      using OpGet True op(2) by (auto simp: lru_get_def jm_set_after_delete)
    then have "lru_map (lru_step op c) = jm_delete k (lru_map c) @ (k, e) # []" by simp
    then show ?thesis unfolding used_since_def by (intro exI conjI, assumption) simp
  next
    case False
    have "U \<union> op_keys op - {k} = insert j U" using False u(2) OpGet by auto
    moreover have "used_since k e (insert j U) (jm_delete j (lru_map c) @ [(j, x)])" for x
      using u(1) False by (intro used_since_snoc used_since_delete) simp_all
    moreover have "used_since k e (insert j U) (jm_delete j (lru_map c))" "used_since k e (insert j U) (lru_map c)"
      using used_since_mono used_since_delete [OF u(1) False] u(1) by blast+
    ultimately show ?thesis using OpGet
      by (auto simp: lru_get_def jm_set_after_delete split: option.splits)
  qed
next
  case (OpSet j v ttl t1 t2)
  then have j: "j \<noteq> k" using op(1) by simp
  then have U: "U \<union> op_keys op - {k} = insert j U" using u(2) OpSet by auto
  let ?m = "jm_delete j (lru_map c) @
    [(j, \<lparr>ce_value = v, ce_expiresAt = t1 + (case ttl of Some t \<Rightarrow> t | None \<Rightarrow> lru_ttlMs c)\<rparr>)]"
  let ?f = "filter (\<lambda>x. entry_live (lru_ttlMs c) t2 (snd x)) ?m"
  have "used_since k e (insert j U) ?m"
    using u(1) j by (intro used_since_snoc used_since_delete) simp_all
  then have "used_since k e (insert j U) ?f"
    by (rule used_since_filter) (use op(2) OpSet in \<open>auto simp: entry_live_def\<close>)
  moreover have "jm_wf ?f"
    using inv by (intro jm_wf_filter jm_wf_moved) (simp add: lru_inv_def)
  ultimately have "used_since k e (insert j U) (drop_oldest (lru_maxEntries c) ?f)"
    using card U by (intro used_since_drop) simp_all
  then show ?thesis using OpSet U by (simp add: lru_set_map evict_map_def)
next
  case (OpDelete j)
  then show ?thesis using used_since_delete [OF u(1), of j] op(1) u(2) by (simp add: lru_delete_def)
next
  case OpClear
  then show ?thesis using op(1) by simp
qed

lemma lru_run_used_since:
  assumes "lru_inv c" "used_since k e U (lru_map c)" "k \<notin> U" "finite U"
    and "list_all (op_spares k) ops" "lru_ttlMs c \<le> 0 \<or> list_all (op_before (ce_expiresAt e)) ops"
    and "card (U \<union> (\<Union>op\<in>set ops. op_keys op) - {k}) < lru_maxEntries c"
  shows "jm_get k (lru_map (lru_run ops c)) = Some e"
  using assms
proof (induction ops arbitrary: c U)
  case Nil
  then show ?case by (simp add: lru_run_def used_since_get lru_inv_def)
next
  case (Cons op ops)
  let ?V = "U \<union> op_keys op - {k}"
  have fin: "finite (op_keys op')" for op' :: "'a lru_op" by (cases op') simp_all
  have sub: "?V \<union> (\<Union>op\<in>set ops. op_keys op) - {k} = U \<union> (\<Union>op\<in>set (op # ops). op_keys op) - {k}"
    by auto
  have "card ?V \<le> card (U \<union> (\<Union>op\<in>set (op # ops). op_keys op) - {k})"
    using Cons.prems(4) fin by (intro card_mono) auto
  then have "used_since k e ?V (lru_map (lru_step op c))"
    using Cons.prems by (intro lru_step_used_since) auto
  moreover have "list_all (op_spares k) ops" "lru_ttlMs c \<le> 0 \<or> list_all (op_before (ce_expiresAt e)) ops"
    using Cons.prems by auto
  ultimately have "jm_get k (lru_map (lru_run ops (lru_step op c))) = Some e"
    using Cons.prems fin by (intro Cons.IH [where U = ?V]) (simp_all only: sub lru_step_inv lru_step_options finite_Diff finite_Un, simp_all)
  then show ?case by (simp add: lru_run_def)
qed

text \<open>C1: The cache is least-recently-used: an entry that was just stored stays readable through any
  sequence of operations that does not itself overwrite or delete it, as long as it has not
  expired and fewer than \<open>maxEntries\<close> other keys are used in between, however often.\<close>

theorem lru_keeps_recent:
  assumes "lru_inv c" "lru_ttlMs c > 0 \<longrightarrow> t2 < t1 + (case ttl of Some t \<Rightarrow> t | None \<Rightarrow> lru_ttlMs c)"
    and "list_all (op_spares k) ops"
    and "lru_ttlMs c \<le> 0 \<or>
      list_all (op_before (t1 + (case ttl of Some t \<Rightarrow> t | None \<Rightarrow> lru_ttlMs c))) (ops @ [OpGet k t3])"
    and "card ((\<Union>op\<in>set ops. op_keys op) - {k}) < lru_maxEntries c"
  shows "fst (lru_get k t3 (lru_run ops (lru_set k v ttl t1 t2 c))) = Some v"
proof -
  let ?c = "lru_set k v ttl t1 t2 c" and ?d = "t1 + (case ttl of Some t \<Rightarrow> t | None \<Rightarrow> lru_ttlMs c)"
  let ?e = "\<lparr>ce_value = v, ce_expiresAt = ?d\<rparr>"
  have inv: "lru_inv ?c" using lru_step_inv [OF assms(1), of "OpSet k v ttl t1 t2"] by simp
  have o: "lru_ttlMs ?c = lru_ttlMs c" "lru_maxEntries ?c = lru_maxEntries c"
    by (simp_all add: lru_set_def Let_def)
  have "entry_live (lru_ttlMs c) t2 ?e" using assms(2) by (auto simp: entry_live_def)
  then have "used_since k ?e {} (lru_map ?c)"
    using evict_keeps_last [of "lru_maxEntries c" "lru_ttlMs c" t2 "(k, ?e)"] assms(1)
    by (fastforce simp: used_since_def lru_set_map lru_inv_def)
  then have "jm_get k (lru_map (lru_run ops ?c)) = Some ?e"
    using assms inv by (intro lru_run_used_since [where U = "{}"]) (auto simp: o)
  then show ?thesis using assms(4) by (auto simp: lru_get_def o)
qed

theorem lru_keeps_recent_witness:
  "fst (lru_get ''a'' 50 (lru_run [OpSet ''b'' 2 None 12 12, OpGet ''b'' 13, OpGet ''b'' 14]
     (lru_set ''a'' (1 :: int) None 10 10 (lru_new (Some 2) (Some 100))))) = Some 1"
  by (rule lru_keeps_recent) (simp_all add: lru_new_inv, simp_all add: lru_new_def)

text \<open>A full cache makes room by dropping exactly its least recently used entry: storing a new key
  when nothing has expired removes the first entry in the order of use, keeps all others in
  order and puts the new one last.\<close>

theorem lru_set_evicts_oldest:
  assumes "lru_inv c" "lru_map c = oldest # rest" "length (lru_map c) = lru_maxEntries c"
    and "jm_get k (lru_map c) = None" "list_all (\<lambda>e. entry_live (lru_ttlMs c) t2 (snd e)) (lru_map c)"
    and "lru_ttlMs c > 0 \<longrightarrow> t2 < t1 + (case ttl of Some t \<Rightarrow> t | None \<Rightarrow> lru_ttlMs c)"
  shows "lru_map (lru_set k v ttl t1 t2 c) =
    rest @ [(k, \<lparr>ce_value = v, ce_expiresAt = t1 + (case ttl of Some t \<Rightarrow> t | None \<Rightarrow> lru_ttlMs c)\<rparr>)]"
proof -
  have "jm_delete k (lru_map c) = lru_map c"
    using assms(4) by (auto simp: jm_get_None_iff jm_delete_def filter_id_conv)
  moreover have "filter (\<lambda>e. entry_live (lru_ttlMs c) t2 (snd e)) (lru_map c @ [(k, x)]) = lru_map c @ [(k, x)]"
    if "entry_live (lru_ttlMs c) t2 x" for x
    using assms(5) that by (auto simp: list_all_iff filter_id_conv)
  moreover have "entry_live (lru_ttlMs c) t2
      \<lparr>ce_value = v, ce_expiresAt = t1 + (case ttl of Some t \<Rightarrow> t | None \<Rightarrow> lru_ttlMs c)\<rparr>"
    using assms(6) by (auto simp: entry_live_def)
  ultimately have "lru_map (lru_set k v ttl t1 t2 c) = drop_oldest (lru_maxEntries c)
      (lru_map c @ [(k, \<lparr>ce_value = v, ce_expiresAt = t1 + (case ttl of Some t \<Rightarrow> t | None \<Rightarrow> lru_ttlMs c)\<rparr>)])"
    by (simp only: lru_set_map evict_map_def)
  then show ?thesis
    unfolding drop_oldest_eq using assms(2,3) by simp
qed

theorem lru_set_evicts_oldest_witness:
  "map fst (lru_map (lru_set ''c'' (3 :: int) None 12 12
     (lru_run [OpSet ''a'' 1 None 10 10, OpSet ''b'' 2 None 11 11] (lru_new (Some 2) (Some 100))))) = [''b'', ''c'']"
proof -
  let ?c = "lru_run [OpSet ''a'' 1 None 10 10, OpSet ''b'' 2 None 11 11] (lru_new (Some 2) (Some 100)) :: int lru"
  have m: "lru_map ?c = [(''a'', \<lparr>ce_value = 1, ce_expiresAt = 110\<rparr>), (''b'', \<lparr>ce_value = 2, ce_expiresAt = 111\<rparr>)]"
    "lru_maxEntries ?c = 2" "lru_ttlMs ?c = 100"
    by (simp_all add: lru_run_def lru_set_map evict_map_def drop_oldest_eq entry_live_def jm_delete_def)
       (simp_all add: lru_new_def entry_live_def lru_set_def Let_def)
  have "lru_inv ?c" by (simp add: lru_run_inv lru_new_inv)
  from lru_set_evicts_oldest [OF this m(1), of "''c''" 12 12 None 3] show ?thesis
    using m by (simp add: entry_live_def jm_get_def lru_new_def [of "Some 2"])
qed

text \<open>\<open>wrap\<close> returns the cached value without running the producer when there is a live entry; a
  failed producer stores nothing; and a value produced is returned and then readable from
  the cache, whatever other code did to the cache while the producer ran.\<close>

theorem lru_wrap_spec:
  assumes "\<And>d. lru_inv d \<Longrightarrow> lru_inv (meanwhile d) \<and> lru_ttlMs (meanwhile d) = lru_ttlMs d"
    and "lru_inv c" "0 < lru_ttlMs c" "t2 < t1 + lru_ttlMs c"
  shows "let r = lru_wrap k now produced None meanwhile t1 t2 c; g = lru_get k now c in
    case fst g of
      Some v \<Rightarrow> r = (Inr v, snd g)
    | None \<Rightarrow> fst r = produced
        \<and> (case produced of Inl e \<Rightarrow> snd r = meanwhile (snd g)
           | Inr v \<Rightarrow> fst (lru_get k t2 (snd r)) = Some v)"
proof -
  obtain x d where g: "lru_get k now c = (x, d)" by (cases "lru_get k now c")
  have "d = lru_step (OpGet k now) c" by (simp add: g)
  then have d: "lru_inv (meanwhile d)" "lru_ttlMs (meanwhile d) = lru_ttlMs c"
    using assms(1) [OF lru_step_inv [OF assms(2), of "OpGet k now"]]
    by (simp_all only: lru_step_options)
  have "jm_get k (lru_map (lru_set k v None t1 t2 (meanwhile d))) =
      Some \<lparr>ce_value = v, ce_expiresAt = t1 + lru_ttlMs c\<rparr>" for v
    by (rule lru_set_get [OF d(1)]) (use assms(4) d(2) in simp_all)
  then have "fst (lru_get k t2 (lru_set k v None t1 t2 (meanwhile d))) = Some v" for v
    using d(2) assms(4) by (simp add: lru_get_def)
  then show ?thesis
    by (cases x; cases produced) (simp_all add: lru_wrap_def g Let_def)
qed

theorem lru_wrap_spec_witness:
  "fst (lru_wrap ''k'' 5 (Inr (9 :: int)) None (\<lambda>d. d) 6 7 (lru_new None None)) = Inr 9"
proof -
  have "lru_ttlMs (lru_new None None :: int lru) = 15000" "fst (lru_get ''k'' 5 (lru_new None None :: int lru)) = None"
    by (simp_all add: lru_new_def lru_get_def)
  then show ?thesis
    using lru_wrap_spec [of "\<lambda>d. d" "lru_new None None :: int lru" 7 6 "''k''" 5 "Inr 9"]
    by (simp add: lru_new_inv Let_def)
qed

end
