(* ===== verification/Retry.thy ===== *)
theory Retry
  imports JsArith Errors "HOL-Library.Sublist"
begin

text \<open>
  packages/sdk/src/retry.ts: retrying an asynchronous operation with exponential backoff, and
  the RPC client built on it. What the operation does on its n-th call and what \<open>Math.random\<close>
  returns before the n-th pause are arguments, and so is what the option \<open>sleep\<close> does; a promise
  that never settles is \<open>None\<close>. A run is its outcome and the pauses it asked for. The counter
  of attempts is a Number: it stops growing at 2^53. Delays are exact rationals (the rounding
  of \<open>**\<close> is not modelled), and \<open>retryOn\<close> is a predicate that returns.
\<close>

section \<open>Transient errors\<close>

definition TRANSIENT :: re where
  "TRANSIENT =
     alts (map LitI [''429'', ''503'', ''504'', ''timeout'', ''econnreset'', ''enotfound'', ''eai_again'',
        ''temporar'', ''rate limit'']
       @ [seqs [LitI ''ledger'', Star reDot, LitI ''lag''], LitI ''try again later''])"

definition isTransientError :: "jsval \<Rightarrow> bool" where
  "isTransientError v =
     (if \<not> truthy v then False
      else case v of
          ErrV e \<Rightarrow>
            (case err_diagnostics e of Some d \<Rightarrow> retryable d | None \<Rightarrow> False) \<or> re_test TRANSIENT (err_message e)
        | _ \<Rightarrow> re_test TRANSIENT (js_string v))"

section \<open>Backoff\<close>

record retry_options =
  ro_retries :: "jsnum option"
  ro_minDelayMs :: "rat option"
  ro_maxDelayMs :: "rat option"
  ro_factor :: "rat option"
  ro_jitter :: "bool option"
  ro_retryOn :: "(jsval \<Rightarrow> bool) option"
  ro_sleep :: "(nat \<Rightarrow> rat \<Rightarrow> (jsval, unit) result option) option"

text \<open>The n-th call of \<open>sleep\<close>: it resolves, is rejected or never settles; a timer resolves.\<close>

definition defaultSleep :: "nat \<Rightarrow> rat \<Rightarrow> (jsval, unit) result option" where
  "defaultSleep n ms = Some (Inr ())"

definition delayForAttempt :: "nat \<Rightarrow> retry_options \<Rightarrow> rat \<Rightarrow> rat" where
  "delayForAttempt attempt opts random =
     (let expo = or_default (ro_minDelayMs opts) 150 * or_default (ro_factor opts) 2 ^ attempt;
          capped = min (or_default (ro_maxDelayMs opts) 8000) expo
      in if \<not> or_default (ro_jitter opts) True then capped
         else let spread = capped * (4 / 10) in max 0 (capped - spread + random * spread * 2))"

definition gave_up :: "jsval option \<Rightarrow> jsval" where
  "gave_up lastError =
     (case lastError of
        Some (ErrV e) \<Rightarrow> ErrV e
      | _ \<Rightarrow>
          (case parseDiagnostics (coalesce (case lastError of Some v \<Rightarrow> v | None \<Rightarrow> Undefined)
                  (Str ''RPC request failed after retries'')) of
             Inl e \<Rightarrow> ErrV e
           | Inr _ \<Rightarrow> ErrV (SdkError AstraFlowError ''RPC request failed after retries'' None lastError)))"

text \<open>\<open>attempt += 1\<close>, on a Number.\<close>

definition next_attempt :: "nat \<Rightarrow> nat" where
  "next_attempt attempt =
     (case num_add (Fin (of_nat attempt)) (Fin 1) of Fin q \<Rightarrow> nat \<lfloor>q\<rfloor> | _ \<Rightarrow> attempt)"

text \<open>The loop; \<open>calls\<close> counts the calls made, \<open>attempt\<close> is the loop's counter. \<open>None\<close> is a run
  that never ends, because the loop goes on for ever or a promise it awaits never settles.\<close>

partial_function (option) retry_loop ::
  "retry_options \<Rightarrow> (nat \<Rightarrow> (jsval, 'a) result option) \<Rightarrow> (nat \<Rightarrow> rat) \<Rightarrow> nat \<Rightarrow> nat \<Rightarrow> jsval option \<Rightarrow> rat list \<Rightarrow>
     ((jsval, 'a) result \<times> rat list) option" where
  "retry_loop opts operation random calls attempt lastError pauses =
     (if num_le (Fin (of_nat attempt)) (or_default (ro_retries opts) (Fin 5))
      then case operation calls of
          None \<Rightarrow> None
        | Some (Inr x) \<Rightarrow> Some (Inr x, pauses)
        | Some (Inl err) \<Rightarrow>
            if or_default (ro_retries opts) (Fin 5) = Fin (of_nat attempt)
               \<or> \<not> or_default (ro_retryOn opts) isTransientError err
            then Some (Inl err, pauses)
            else (case or_default (ro_sleep opts) defaultSleep calls (delayForAttempt attempt opts (random calls)) of
                None \<Rightarrow> None
              | Some (Inl e) \<Rightarrow> Some (Inl e, pauses @ [delayForAttempt attempt opts (random calls)])
              | Some (Inr _) \<Rightarrow>
                  retry_loop opts operation random (calls + 1) (next_attempt attempt) (Some err)
                    (pauses @ [delayForAttempt attempt opts (random calls)]))
      else Some (Inl (gave_up lastError), pauses))"

definition withExponentialBackoff ::
  "(nat \<Rightarrow> (jsval, 'a) result option) \<Rightarrow> retry_options \<Rightarrow> (nat \<Rightarrow> rat) \<Rightarrow> ((jsval, 'a) result \<times> rat list) option" where
  "withExponentialBackoff operation opts random = retry_loop opts operation random 0 0 None []"

definition no_retry_options :: retry_options where
  "no_retry_options = \<lparr>ro_retries = None, ro_minDelayMs = None, ro_maxDelayMs = None, ro_factor = None,
     ro_jitter = None, ro_retryOn = None, ro_sleep = None\<rparr>"

section \<open>The RPC client\<close>

text \<open>An answer; reading its body is awaited too.\<close>

record 'a rpc_response =
  resp_status :: nat
  resp_statusText :: string
  resp_json :: "(jsval, 'a) result option"

definition resp_ok :: "'a rpc_response \<Rightarrow> bool" where
  "resp_ok r = (200 \<le> resp_status r \<and> resp_status r \<le> 299)"

definition rpc_error :: "string \<Rightarrow> nat \<Rightarrow> jsval" where
  "rpc_error msg st =
     ErrV (SdkError AstraFlowError msg None (Some (Obj [(''status'', Num (Fin (of_nat st)))])))"

definition rpc_operation :: "(nat \<Rightarrow> (jsval, 'a rpc_response) result option) \<Rightarrow> nat \<Rightarrow> (jsval, 'a) result option" where
  "rpc_operation transport call =
     (case transport call of
        None \<Rightarrow> None
      | Some (Inl e) \<Rightarrow> Some (Inl e)
      | Some (Inr r) \<Rightarrow>
          if resp_status r = 429 \<or> resp_status r \<ge> 500
          then Some (Inl (rpc_error (''RPC '' @ nat_radix 10 (resp_status r) @ '' '' @ resp_statusText r) (resp_status r)))
          else if \<not> resp_ok r
          then Some (Inl (rpc_error (''RPC request failed: '' @ nat_radix 10 (resp_status r)) (resp_status r)))
          else resp_json r)"

definition rpc_request ::
  "(nat \<Rightarrow> (jsval, 'a rpc_response) result option) \<Rightarrow> retry_options \<Rightarrow> (nat \<Rightarrow> rat) \<Rightarrow> ((jsval, 'a) result \<times> rat list) option" where
  "rpc_request transport opts random = withExponentialBackoff (rpc_operation transport) opts random"

section \<open>The counter\<close>

lemma next_attempt_below: "a < 2 ^ 53 - 1 \<Longrightarrow> next_attempt a = Suc a"
proof -
  assume "a < 2 ^ 53 - 1"
  then have "to_double (of_int (int a + 1)) = Fin (of_int (int a + 1))" by (intro to_double_int) simp
  then show ?thesis by (simp add: next_attempt_def)
qed

lemma next_attempt_top: "next_attempt (2 ^ 53 - 1) = 2 ^ 53" "next_attempt (2 ^ 53) = 2 ^ 53"
  using to_double_2_53 by (simp_all add: next_attempt_def)

text \<open>The counter at the n-th call.\<close>

lemma next_attempt_min: "next_attempt (min n (2 ^ 53)) = min (Suc n) (2 ^ 53)"
proof -
  consider "n < 2 ^ 53 - 1" | "n = 2 ^ 53 - 1" | "2 ^ 53 \<le> n" by linarith
  then show ?thesis
  proof cases
    case 2
    then have "min n (2 ^ 53) = 2 ^ 53 - 1" "min (Suc n) (2 ^ 53) = 2 ^ 53" by simp_all
    then show ?thesis using next_attempt_top(1) by simp
  next
    case 3
    then have "min n (2 ^ 53) = 2 ^ 53" "min (Suc n) (2 ^ 53) = 2 ^ 53" by simp_all
    then show ?thesis using next_attempt_top(2) by simp
  qed (simp add: next_attempt_below)
qed

section \<open>The loop ends\<close>

abbreviation retry_limit :: "retry_options \<Rightarrow> jsnum" where
  "retry_limit opts \<equiv> or_default (ro_retries opts) (Fin 5)"

abbreviation retried :: "retry_options \<Rightarrow> jsval \<Rightarrow> bool" where
  "retried opts \<equiv> or_default (ro_retryOn opts) isTransientError"

abbreviation sleeps :: "retry_options \<Rightarrow> nat \<Rightarrow> rat \<Rightarrow> (jsval, unit) result option" where
  "sleeps opts \<equiv> or_default (ro_sleep opts) defaultSleep"

text \<open>A call, with the counter at \<open>a\<close>, is followed by another one.\<close>

definition goes_on :: "retry_options \<Rightarrow> (nat \<Rightarrow> (jsval, 'a) result option) \<Rightarrow> (nat \<Rightarrow> rat) \<Rightarrow> nat \<Rightarrow> nat \<Rightarrow> bool" where
  "goes_on opts operation random i a \<longleftrightarrow>
     num_le (Fin (of_nat a)) (retry_limit opts) \<and> retry_limit opts \<noteq> Fin (of_nat a)
     \<and> (\<exists>err. operation i = Some (Inl err) \<and> retried opts err)
     \<and> sleeps opts i (delayForAttempt a opts (random i)) = Some (Inr ())"

lemma retry_loop_go:
  "goes_on opts operation random i a \<Longrightarrow>
     \<exists>err. operation i = Some (Inl err) \<and> retry_loop opts operation random i a le ps =
       retry_loop opts operation random (Suc i) (next_attempt a) (Some err) (ps @ [delayForAttempt a opts (random i)])"
  unfolding goes_on_def by (subst retry_loop.simps) auto

text \<open>Promises that settle.\<close>

definition settles :: "retry_options \<Rightarrow> (nat \<Rightarrow> (jsval, 'a) result option) \<Rightarrow> bool" where
  "settles opts operation \<longleftrightarrow> (\<forall>i. operation i \<noteq> None) \<and> (\<forall>i ms. sleeps opts i ms \<noteq> None)"

lemma retry_loop_end:
  assumes "settles opts operation" "\<not> goes_on opts operation random i a"
  obtains r where "operation i = Some r" "retry_loop opts operation random i a le ps = Some (r, ps)"
      "num_le (Fin (of_nat a)) (retry_limit opts)"
      "retry_limit opts = Fin (of_nat a) \<or> (case r of Inr _ \<Rightarrow> True | Inl err \<Rightarrow> \<not> retried opts err)"
    | err e where "operation i = Some (Inl err)" "retried opts err" "num_le (Fin (of_nat a)) (retry_limit opts)"
      "retry_limit opts \<noteq> Fin (of_nat a)" "sleeps opts i (delayForAttempt a opts (random i)) = Some (Inl e)"
      "retry_loop opts operation random i a le ps = Some (Inl e, ps @ [delayForAttempt a opts (random i)])"
    | "\<not> num_le (Fin (of_nat a)) (retry_limit opts)" "retry_loop opts operation random i a le ps = Some (Inl (gave_up le), ps)"
proof -
  obtain r where r: "operation i = Some r" using assms(1) unfolding settles_def by blast
  obtain z where z: "sleeps opts i (delayForAttempt a opts (random i)) = Some z" using assms(1) unfolding settles_def by blast
  note run = retry_loop.simps [of opts operation random i a le ps]
  show thesis
  proof (cases "num_le (Fin (of_nat a)) (retry_limit opts)")
    case False
    then show thesis using run by (intro that(3)) simp_all
  next
    case le: True
    show thesis
    proof (cases "retry_limit opts = Fin (of_nat a) \<or> (case r of Inr _ \<Rightarrow> True | Inl err \<Rightarrow> \<not> retried opts err)")
      case True
      then show thesis using run le r by (intro that(1) [of r]) (auto split: sum.splits)
    next
      case False
      then obtain err where err: "r = Inl err" "retried opts err" by (auto split: sum.splits)
      then obtain e where "z = Inl e" using assms(2) False le r z by (cases z) (auto simp: goes_on_def)
      then show thesis using run le r z False err by (intro that(2) [of err e]) auto
    qed
  qed
qed

lemma retry_loop_steps:
  "\<forall>i<k. goes_on opts operation random i (min i (2 ^ 53)) \<Longrightarrow>
     \<exists>le. retry_loop opts operation random 0 0 None [] =
       retry_loop opts operation random k (min k (2 ^ 53)) le (map (\<lambda>i. delayForAttempt (min i (2 ^ 53)) opts (random i)) [0..<k])"
proof (induction k)
  case (Suc k)
  then obtain le where le: "retry_loop opts operation random 0 0 None [] =
      retry_loop opts operation random k (min k (2 ^ 53)) le (map (\<lambda>i. delayForAttempt (min i (2 ^ 53)) opts (random i)) [0..<k])"
    by auto
  have "goes_on opts operation random k (min k (2 ^ 53))" using Suc.prems by simp
  from retry_loop_go [OF this] le show ?case unfolding next_attempt_min by fastforce
qed (rule exI [of _ None], simp)

text \<open>A loop in which every call is followed by another one has no result.\<close>

lemma retry_loop_forever:
  assumes "\<And>i. goes_on opts operation random i (min i (2 ^ 53))"
  shows "retry_loop opts operation random n (min n (2 ^ 53)) le ps = None"
proof (rule ccontr)
  assume "retry_loop opts operation random n (min n (2 ^ 53)) le ps \<noteq> None"
  then obtain y where y: "retry_loop opts operation random n (min n (2 ^ 53)) le ps = Some y" by blast
  have "opts = opts \<longrightarrow> operation = operation \<longrightarrow> random = random \<longrightarrow> min n (2 ^ 53) \<noteq> min n (2 ^ 53)"
  proof (rule retry_loop.raw_induct [of "\<lambda>o' p' r' i a le ps y. o' = opts \<longrightarrow> p' = operation \<longrightarrow> r' = random \<longrightarrow> a \<noteq> min i (2 ^ 53)",
        OF _ y], intro impI notI)
    fix loop o' p' r' i a le ps y
    assume ih: "\<And>o' p' r' i a le ps y. loop o' p' r' i a le ps = Some y \<Longrightarrow>
        o' = opts \<longrightarrow> p' = operation \<longrightarrow> r' = random \<longrightarrow> a \<noteq> min i (2 ^ 53)"
      and body: "(if num_le (Fin (of_nat a)) (retry_limit o')
      then case p' i of
          None \<Rightarrow> None
        | Some (Inl err) \<Rightarrow>
            if retry_limit o' = Fin (of_nat a) \<or> \<not> retried o' err then Some (Inl err, ps)
            else (case sleeps o' i (delayForAttempt a o' (r' i)) of
                None \<Rightarrow> None
              | Some (Inl e) \<Rightarrow> Some (Inl e, ps @ [delayForAttempt a o' (r' i)])
              | Some (Inr u) \<Rightarrow> loop o' p' r' (i + 1) (next_attempt a) (Some err) (ps @ [delayForAttempt a o' (r' i)]))
        | Some (Inr x) \<Rightarrow> Some (Inr x, ps)
      else Some (Inl (gave_up le), ps)) = Some y"
      and eqs: "o' = opts" "p' = operation" "r' = random" "a = min i (2 ^ 53)"
    obtain err where "num_le (Fin (of_nat a)) (retry_limit opts)" "retry_limit opts \<noteq> Fin (of_nat a)"
        "operation i = Some (Inl err)" "retried opts err" "sleeps opts i (delayForAttempt a opts (random i)) = Some (Inr ())"
      using assms [of i] unfolding eqs(4) [symmetric] goes_on_def by blast
    then have "loop opts operation random (i + 1) (next_attempt a) (Some err) (ps @ [delayForAttempt a opts (random i)]) = Some y"
      using body unfolding eqs(1-3) by simp
    from ih [OF this] show False using next_attempt_min [of i] eqs(4) by simp
  qed
  then show False by simp
qed

text \<open>C37: When every call of the operation and every sleep settles, retrying comes to an end unless the
  number of retries is above 2^53, Infinity included: the Number that counts the attempts does
  not grow beyond 2^53. Above it a run ends exactly if some call succeeds or fails with an
  error that is not retried, or some sleep is rejected.\<close>

theorem backoff_terminates:
  assumes "\<forall>i. operation i \<noteq> None" "\<forall>i ms. or_default (ro_sleep opts) defaultSleep i ms \<noteq> None"
  shows "(\<exists>r pauses. withExponentialBackoff operation opts random = Some (r, pauses)) \<longleftrightarrow>
     \<not> num_lt (Fin (2 ^ 53)) (or_default (ro_retries opts) (Fin 5))
     \<or> (\<exists>k x. operation k = Some (Inr x))
     \<or> (\<exists>k err. operation k = Some (Inl err) \<and> \<not> or_default (ro_retryOn opts) isTransientError err)
     \<or> (\<exists>k e. or_default (ro_sleep opts) defaultSleep k (delayForAttempt (min k (2 ^ 53)) opts (random k)) = Some (Inl e))"
    (is "?returns \<longleftrightarrow> ?ends")
proof
  assume ?returns
  show ?ends
  proof (rule ccontr)
    assume no: "\<not> ?ends"
    have "num_le (Fin (of_nat (min i (2 ^ 53)))) (retry_limit opts) \<and> retry_limit opts \<noteq> Fin (of_nat (min i (2 ^ 53)))" for i
    proof -
      have "num_lt (Fin (of_nat (2 ^ 53))) (retry_limit opts)" using no by simp
      moreover have "rat_of_nat (min i (2 ^ 53)) \<le> of_nat (2 ^ 53)" unfolding of_nat_le_iff by simp
      ultimately show ?thesis by (cases "retry_limit opts") (auto simp: num_le_def)
    qed
    moreover have "\<exists>err. operation i = Some (Inl err) \<and> retried opts err" for i
      using no assms(1) by (cases "operation i"; cases "the (operation i)") auto
    moreover have "sleeps opts i (delayForAttempt (min i (2 ^ 53)) opts (random i)) = Some (Inr ())" for i
    proof -
      obtain z where z: "sleeps opts i (delayForAttempt (min i (2 ^ 53)) opts (random i)) = Some z" using assms(2) by blast
      then show ?thesis using no by (cases z) (blast, simp)
    qed
    ultimately have "goes_on opts operation random i (min i (2 ^ 53))" for i unfolding goes_on_def by blast
    then have "withExponentialBackoff operation opts random = None"
      using retry_loop_forever [of opts operation random 0] by (simp add: withExponentialBackoff_def)
    with \<open>?returns\<close> show False by simp
  qed
next
  assume ends: ?ends
  have "\<exists>k. \<not> goes_on opts operation random k (min k (2 ^ 53))"
  proof (rule ccontr)
    assume "\<nexists>k. \<not> goes_on opts operation random k (min k (2 ^ 53))"
    then have all: "goes_on opts operation random k (min k (2 ^ 53))" for k by blast
    have "num_lt (Fin (of_nat (2 ^ 53))) (retry_limit opts)"
      using all [of "2 ^ 53"] by (auto simp: goes_on_def num_le_def)
    then show False using ends
    proof (elim disjE exE)
      fix k err
      assume "operation k = Some (Inl err) \<and> \<not> retried opts err"
      then show False using all [of k] by (auto simp: goes_on_def)
    next
      fix k x
      assume "operation k = Some (Inr x)"
      then show False using all [of k] by (auto simp: goes_on_def)
    next
      fix k e
      assume "sleeps opts k (delayForAttempt (min k (2 ^ 53)) opts (random k)) = Some (Inl e)"
      then show False using all [of k] by (auto simp: goes_on_def)
    qed simp
  qed
  then obtain k where k: "\<not> goes_on opts operation random k (min k (2 ^ 53))" "\<forall>i<k. goes_on opts operation random i (min i (2 ^ 53))"
    using exists_least_iff [of "\<lambda>k. \<not> goes_on opts operation random k (min k (2 ^ 53))"] by blast
  have settles: "settles opts operation" using assms by (simp add: settles_def)
  obtain le ps where "withExponentialBackoff operation opts random = retry_loop opts operation random k (min k (2 ^ 53)) le ps"
    using retry_loop_steps [OF k(2)] by (auto simp: withExponentialBackoff_def)
  then show ?returns by (cases rule: retry_loop_end [OF settles k(1), of le ps]) simp_all
qed

theorem backoff_terminates_witness:
  "\<exists>r pauses. withExponentialBackoff (\<lambda>_. Some (Inl (Str ''timeout''))) no_retry_options (\<lambda>_. 0) =
     Some (r :: (jsval, int) result, pauses)"
  using backoff_terminates [of "\<lambda>_. Some (Inl (Str ''timeout''))" no_retry_options "\<lambda>_. 0"]
  by (simp add: no_retry_options_def defaultSleep_def)

text \<open>C19: With \<open>n\<close> retries, at most 2^53, and promises that settle, the operation runs at most
  \<open>n + 1\<close> times: the run stops at the first call that succeeds, fails with an error that is not
  retried, or is the last one; its result is that call's result or error unchanged, and it
  pauses once between two calls. Or it stops at an earlier pause, the first one that
  \<open>sleep\<close> rejects, with the error of \<open>sleep\<close>; a run with the default timer has none.\<close>

theorem backoff_outcome:
  assumes "or_default (ro_retries opts) (Fin 5) = Fin (of_nat n)" "n \<le> 2 ^ 53"
    and "\<forall>i. operation i \<noteq> None" "\<forall>i ms. or_default (ro_sleep opts) defaultSleep i ms \<noteq> None"
  shows "\<exists>k\<le>n. (\<forall>i<k. (\<exists>err. operation i = Some (Inl err) \<and> or_default (ro_retryOn opts) isTransientError err)
          \<and> or_default (ro_sleep opts) defaultSleep i (delayForAttempt i opts (random i)) = Some (Inr ()))
     \<and> ((\<exists>r. operation k = Some r
           \<and> withExponentialBackoff operation opts random = Some (r, map (\<lambda>i. delayForAttempt i opts (random i)) [0..<k])
           \<and> (k = n \<or> (case r of Inr _ \<Rightarrow> True | Inl err \<Rightarrow> \<not> or_default (ro_retryOn opts) isTransientError err)))
       \<or> (\<exists>err e. k < n \<and> operation k = Some (Inl err) \<and> or_default (ro_retryOn opts) isTransientError err
           \<and> or_default (ro_sleep opts) defaultSleep k (delayForAttempt k opts (random k)) = Some (Inl e)
           \<and> withExponentialBackoff operation opts random = Some (Inl e, map (\<lambda>i. delayForAttempt i opts (random i)) [0..<Suc k])))"
proof -
  have le: "num_le (Fin (of_nat i)) (retry_limit opts) \<longleftrightarrow> i \<le> n" "retry_limit opts = Fin (of_nat i) \<longleftrightarrow> i = n" for i
    using assms(1) by auto
  have "\<not> goes_on opts operation random n n" by (simp add: goes_on_def le)
  then obtain k where k: "\<not> goes_on opts operation random k k" "\<forall>i<k. goes_on opts operation random i i"
    using exists_least_iff [of "\<lambda>k. \<not> goes_on opts operation random k k"] by blast
  have kn: "k \<le> n" using k(2) by (metis \<open>\<not> goes_on opts operation random n n\<close> not_le)
  have mins: "min i (2 ^ 53) = i" if "i \<le> k" for i using that kn assms(2) by simp
  have "\<forall>i<k. goes_on opts operation random i (min i (2 ^ 53))" using k(2) mins by simp
  from retry_loop_steps [OF this] obtain le' where steps': "retry_loop opts operation random 0 0 None [] =
      retry_loop opts operation random k (min k (2 ^ 53)) le' (map (\<lambda>i. delayForAttempt (min i (2 ^ 53)) opts (random i)) [0..<k])" ..
  then obtain le' where steps: "withExponentialBackoff operation opts random =
      retry_loop opts operation random k k le' (map (\<lambda>i. delayForAttempt i opts (random i)) [0..<k])"
  proof -
    have "map (\<lambda>i. delayForAttempt (min i (2 ^ 53)) opts (random i)) [0..<k] = map (\<lambda>i. delayForAttempt i opts (random i)) [0..<k]"
      using mins by simp
    with steps' mins [of k] show thesis by (intro that) (simp only: withExponentialBackoff_def order_refl)
  qed
  have before: "\<forall>i<k. (\<exists>err. operation i = Some (Inl err) \<and> retried opts err)
      \<and> sleeps opts i (delayForAttempt i opts (random i)) = Some (Inr ())"
    using k(2) by (auto simp: goes_on_def)
  have settles: "settles opts operation" using assms by (simp add: settles_def)
  show ?thesis
  proof (cases rule: retry_loop_end [OF settles k(1), of le' "map (\<lambda>i. delayForAttempt i opts (random i)) [0..<k]"])
    case (1 r)
    have "k = n \<or> (case r of Inr _ \<Rightarrow> True | Inl err \<Rightarrow> \<not> retried opts err)" using 1(4) le(2) by blast
    then show ?thesis using kn before steps 1(1,2) by auto
  next
    case (2 err e)
    then show ?thesis using kn before steps le by (intro exI [of _ k] conjI disjI2 exI [of _ err] exI [of _ e]) auto
  next
    case 3
    then show ?thesis using kn le by simp
  qed
qed

theorem backoff_outcome_witness:
  "\<exists>k\<le>2::nat. \<exists>ps. withExponentialBackoff (\<lambda>i. Some (if i = 1 then Inr (7 :: int) else Inl (Str ''timeout'')))
     (no_retry_options\<lparr>ro_retries := Some (Fin (of_nat 2))\<rparr>) (\<lambda>_. 1 / 2) =
       Some ((\<lambda>i. if i = 1 then Inr (7 :: int) else Inl (Str ''timeout'')) k, ps)"
  using backoff_outcome [of "no_retry_options\<lparr>ro_retries := Some (Fin (of_nat 2))\<rparr>" 2
      "\<lambda>i. Some (if i = 1 then Inr (7 :: int) else Inl (Str ''timeout''))" "\<lambda>_. 1 / 2"]
  by (simp only: no_retry_options_def retry_options.simps or_default_simps defaultSleep_def) fastforce

text \<open>A pause is never negative. Without jitter it never exceeds \<open>maxDelayMs\<close>; with jitter (the
  default) it stays within 40 percent above or below the capped delay, so it can exceed
  \<open>maxDelayMs\<close> by at most 40 percent. (Hypotheses: the delays and the factor are not negative,
  \<open>Math.random\<close> is from 0 to below 1.)\<close>

theorem delay_bounds:
  assumes "0 \<le> or_default (ro_minDelayMs opts) 150" "0 \<le> or_default (ro_maxDelayMs opts) 8000"
    and "0 \<le> or_default (ro_factor opts) 2" "0 \<le> random" "random < 1"
  shows "let d = delayForAttempt attempt opts random;
             capped = min (or_default (ro_maxDelayMs opts) 8000)
                        (or_default (ro_minDelayMs opts) 150 * or_default (ro_factor opts) 2 ^ attempt)
         in 0 \<le> d \<and> (6 / 10) * capped \<le> d \<and> d \<le> (14 / 10) * capped
          \<and> (\<not> or_default (ro_jitter opts) True \<longrightarrow> d = capped \<and> d \<le> or_default (ro_maxDelayMs opts) 8000)"
proof -
  define c where "c = min (or_default (ro_maxDelayMs opts) 8000)
                        (or_default (ro_minDelayMs opts) 150 * or_default (ro_factor opts) 2 ^ attempt)"
  have c: "0 \<le> c" "c \<le> or_default (ro_maxDelayMs opts) 8000" using assms by (simp_all add: c_def)
  have "0 \<le> random * c" "random * c \<le> c" using c assms by (simp_all add: mult_left_le_one_le)
  then show ?thesis
    using c unfolding delayForAttempt_def Let_def c_def [symmetric] by (auto simp: algebra_simps max_def)
qed

theorem delay_bounds_witness:
  "delayForAttempt 10 no_retry_options (9 / 10) = 10560 \<and> delayForAttempt 10 no_retry_options (9 / 10) \<le> (14 / 10) * 8000"
  using delay_bounds [of no_retry_options "9 / 10" 10] by (simp add: no_retry_options_def delayForAttempt_def)

section \<open>Which answers of the RPC server are retried\<close>

lemma exec_from_later: "mt r (rev pre @ p, s, []) \<noteq> [] \<Longrightarrow> exec_from r p (pre @ s) \<noteq> None"
proof (induction pre arbitrary: p)
  case Nil
  then show ?case by (cases s) (auto split: list.splits)
next
  case (Cons c pre)
  then show ?case by (auto split: list.splits)
qed

lemma re_test_at: "mt r (rev pre, s, []) \<noteq> [] \<Longrightarrow> re_test r (pre @ s)"
  using exec_from_later [of r pre "[]" s] by (simp add: re_test_def)

lemma mt_alts_member: "r \<in> set rs \<Longrightarrow> mt r s \<noteq> [] \<Longrightarrow> mt (alts rs) s \<noteq> []"
  by (induction rs rule: alts.induct) auto

lemma transient_text:
  assumes "lit \<in> {''429'', ''503'', ''504''}"
  shows "re_test TRANSIENT (pre @ lit @ post)"
proof (rule re_test_at)
  have "mt (LitI lit) (rev pre, lit @ post, []) \<noteq> []"
    by (simp add: mt_LitI lit_at_def)
  moreover have "LitI lit \<in> set (map LitI [''429'', ''503'', ''504'', ''timeout'', ''econnreset'', ''enotfound'', ''eai_again'',
        ''temporar'', ''rate limit'']
       @ [seqs [LitI ''ledger'', Star reDot, LitI ''lag''], LitI ''try again later''])"
    using assms by auto
  ultimately show "mt TRANSIENT (rev pre, lit @ post, []) \<noteq> []"
    unfolding TRANSIENT_def by (rule mt_alts_member [rotated])
qed

lemma rpc_error_text:
  "re_test TRANSIENT msg \<Longrightarrow> isTransientError (rpc_error msg st)"
  by (simp add: isTransientError_def rpc_error_def)

lemma nat_radix_status: "nat_radix 10 429 = ''429''" "nat_radix 10 503 = ''503''" "nat_radix 10 504 = ''504''"
  "nat_radix 10 500 = ''500''" "nat_radix 10 502 = ''502''"
  by code_simp+

lemma transient_status:
  assumes "st \<in> {429, 503, 504}"
  shows "isTransientError (rpc_error (''RPC '' @ nat_radix 10 st @ '' '' @ txt) st)"
proof (rule rpc_error_text)
  have "nat_radix 10 st \<in> {''429'', ''503'', ''504''}" using assms by (auto simp: nat_radix_status)
  then show "re_test TRANSIENT (''RPC '' @ nat_radix 10 st @ '' '' @ txt)" by (rule transient_text)
qed

text \<open>A pattern whose alternatives all begin with a literal does not match a text in which none of
  the literals occurs.\<close>

lemma exec_from_none: "(\<And>pre t. t \<in> set (suffixes s) \<Longrightarrow> mt r (pre, t, []) = []) \<Longrightarrow> exec_from r p s = None"
  by (induction s arbitrary: p) simp_all

lemma mt_alts_miss: "rs \<noteq> [] \<Longrightarrow> list_all (\<lambda>r. mt r s = []) rs \<Longrightarrow> mt (alts rs) s = []"
  by (induction rs rule: alts.induct) simp_all

definition no_literal :: "string list \<Rightarrow> string \<Rightarrow> bool" where
  "no_literal lits s = list_all (\<lambda>t. list_all (\<lambda>lit. \<not> lit_at lit t) lits) (suffixes s)"

lemma no_literal_miss:
  assumes "no_literal lits s" "rs \<noteq> []"
    and "\<And>pre t. list_all (\<lambda>lit. \<not> lit_at lit t) lits \<Longrightarrow> list_all (\<lambda>r. mt r (pre, t, []) = []) rs"
  shows "\<not> re_test (alts rs) s"
proof -
  have "exec_from (alts rs) [] s = None"
    by (rule exec_from_none) (use assms in \<open>auto simp: no_literal_def list_all_iff intro!: mt_alts_miss\<close>)
  then show ?thesis by (simp add: re_test_def)
qed

lemma transient_miss:
  "no_literal [''429'', ''503'', ''504'', ''timeout'', ''econnreset'', ''enotfound'', ''eai_again'',
     ''temporar'', ''rate limit'', ''ledger'', ''try again later''] s \<Longrightarrow> \<not> re_test TRANSIENT s"
  unfolding TRANSIENT_def
  by (erule no_literal_miss) (simp_all add: mt_LitI mt_seqs_Cons del: seqs.simps lit_at_Cons)

lemma rate_limit_miss:
  "no_literal [''429'', ''rate limit'', ''try again'', ''timeout'', ''temporar'', ''econnreset'', ''enotfound'',
     ''eai_again''] s \<Longrightarrow> \<not> re_test RATE_LIMIT_RE s"
  unfolding RATE_LIMIT_RE_def
  by (erule no_literal_miss) (simp_all add: mt_LitI del: lit_at_Cons)

lemma auth_expired_miss:
  "no_literal [''auth'', ''signature expired'', ''txbadseq'', ''tx_bad_seq'', ''invalid seq''] s \<Longrightarrow>
     \<not> re_test AUTH_EXPIRED_RE s"
  unfolding AUTH_EXPIRED_RE_def
  by (erule no_literal_miss) (simp_all add: mt_LitI mt_seqs_Cons del: seqs.simps lit_at_Cons)

text \<open>An error without a retryable status in its cause or its text.\<close>

lemma status_cause_diagnostics:
  "parseDiagnostics (Obj [(''status'', Num (Fin (of_nat st)))]) =
     Inr (diagnose (Obj [(''status'', Num (Fin (of_nat st)))])
        (''{'' @ json_quote ''status'' @ '':'' @ num_string (Fin (of_nat st)) @ ''}'')
        (''{'' @ json_quote ''status'' @ '':'' @ num_string (Fin (of_nat st)) @ ''}''))"
  by (simp add: parseDiagnostics_def nested_text_def asString_def join_def)

lemma diagnose_retryable:
  "retryable (diagnose v raw nested) =
     (re_test RATE_LIMIT_RE nested \<or> re_test AUTH_EXPIRED_RE nested \<or> rpc_status_of v = Fin 429)"
  by (simp add: diagnose_def Let_def)

lemma num_string_status: "num_string (Fin 500) = ''500''" "num_string (Fin 502) = ''502''"
  using num_string_int [of 500] num_string_int [of 502] nat_radix_status by (simp_all add: int_dec_def)

lemma not_transient_status:
  assumes "no_literal [''429'', ''503'', ''504'', ''timeout'', ''econnreset'', ''enotfound'', ''eai_again'',
     ''temporar'', ''rate limit'', ''ledger'', ''try again later''] msg"
    and "num_string (Fin (of_nat st)) \<in> {''500'', ''502''}" "st \<noteq> 429"
  shows "\<not> isTransientError (rpc_error msg st)"
proof -
  let ?n = "''{'' @ json_quote ''status'' @ '':'' @ num_string (Fin (of_nat st)) @ ''}''"
  have "rat_of_nat st \<noteq> of_nat 429" using assms(3) by (subst of_nat_eq_iff)
  then have s: "rpc_status_of (Obj [(''status'', Num (Fin (of_nat st)))]) \<noteq> Fin 429"
    by (simp add: rpc_status_of_def)
  have "no_literal [''429'', ''rate limit'', ''try again'', ''timeout'', ''temporar'', ''econnreset'', ''enotfound'',
     ''eai_again''] (''{'' @ json_quote ''status'' @ '':'' @ n @ ''}'')
   \<and> no_literal [''auth'', ''signature expired'', ''txbadseq'', ''tx_bad_seq'', ''invalid seq'']
       (''{'' @ json_quote ''status'' @ '':'' @ n @ ''}'')" if "n = ''500'' \<or> n = ''502''" for n
    using that
    by (elim disjE; simp add: no_literal_def to_lower_def char_of_def json_quote_def json_escape_def)
  then have "\<not> re_test RATE_LIMIT_RE ?n" "\<not> re_test AUTH_EXPIRED_RE ?n"
    using assms(2) rate_limit_miss auth_expired_miss by blast+
  then have "\<not> retryable (diagnose (Obj [(''status'', Num (Fin (of_nat st)))]) ?n ?n)"
    using s by (simp only: diagnose_retryable simp_thms)
  then show ?thesis
    using status_cause_diagnostics [of st] transient_miss [OF assms(1)]
    by (simp add: isTransientError_def rpc_error_def err_diagnostics_def)
qed

lemma not_transient_500: "\<not> isTransientError (rpc_error ''RPC 500 Internal Server Error'' 500)"
  by (rule not_transient_status)
     (simp add: no_literal_def to_lower_def char_of_def, simp_all only: of_nat_numeral num_string_status, simp_all)

lemma not_transient_502: "\<not> isTransientError (rpc_error ''RPC 502 Bad Gateway'' 502)"
  by (rule not_transient_status)
     (simp add: no_literal_def to_lower_def char_of_def, simp_all only: of_nat_numeral num_string_status, simp_all)

lemma rpc_operation_error:
  "transport i = Some (Inr r) \<Longrightarrow> resp_status r = 429 \<or> resp_status r \<ge> 500 \<Longrightarrow>
     rpc_operation transport i =
       Some (Inl (rpc_error (''RPC '' @ nat_radix 10 (resp_status r) @ '' '' @ resp_statusText r) (resp_status r)))"
  by (auto simp: rpc_operation_def)

lemma default_loop:
  "withExponentialBackoff operation no_retry_options random =
     (case operation 0 of
        None \<Rightarrow> None
      | Some (Inr x) \<Rightarrow> Some (Inr x, [])
      | Some (Inl err) \<Rightarrow>
          if \<not> isTransientError err then Some (Inl err, [])
          else retry_loop no_retry_options operation random 1 1 (Some err) [delayForAttempt 0 no_retry_options (random 0)])"
  unfolding withExponentialBackoff_def
  by (subst retry_loop.simps) (simp add: no_retry_options_def defaultSleep_def next_attempt_below [of 0, simplified] split: option.split sum.split)

text \<open>With the default options, an answer of status 429, 503 or 504 to the first request is
  retried after one pause, so a good answer to the second request is the result; but an
  answer of status 500 or 502, which the client reports by the same kind of error, is final:
  it is thrown at once and no second request is made.\<close>

theorem rpc_request_status:
  assumes "transport 0 = Some (Inr r)"
  shows "(resp_status r \<in> {429, 503, 504} \<and> transport 1 = Some (Inr r2) \<and> resp_ok r2 \<and> resp_json r2 = Some (Inr x) \<longrightarrow>
            rpc_request transport no_retry_options random =
              Some (Inr x, [delayForAttempt 0 no_retry_options (random 0)]))
       \<and> ((resp_status r, resp_statusText r) \<in> {(500, ''Internal Server Error''), (502, ''Bad Gateway'')} \<longrightarrow>
            (\<exists>err. rpc_request transport no_retry_options random = Some (Inl err, [])))"
proof (intro conjI impI)
  let ?op = "rpc_operation transport"
  {
    assume a: "resp_status r \<in> {429, 503, 504} \<and> transport 1 = Some (Inr r2) \<and> resp_ok r2 \<and> resp_json r2 = Some (Inr x)"
    then have err: "?op 0 = Some (Inl (rpc_error (''RPC '' @ nat_radix 10 (resp_status r) @ '' '' @ resp_statusText r) (resp_status r)))"
      using assms by (intro rpc_operation_error) auto
    have "?op 1 = Some (Inr x)" using a by (auto simp: rpc_operation_def resp_ok_def)
    then have "retry_loop no_retry_options ?op random 1 1 le ps = Some (Inr x, ps)" for le ps
      by (subst retry_loop.simps) (simp add: no_retry_options_def)
    then show "rpc_request transport no_retry_options random =
              Some (Inr x, [delayForAttempt 0 no_retry_options (random 0)])"
      using a err transient_status [of "resp_status r"] by (simp add: rpc_request_def default_loop)
  next
    assume a: "(resp_status r, resp_statusText r) \<in> {(500, ''Internal Server Error''), (502, ''Bad Gateway'')}"
    then have err: "?op 0 = Some (Inl (rpc_error (''RPC '' @ nat_radix 10 (resp_status r) @ '' '' @ resp_statusText r) (resp_status r)))"
      using assms by (intro rpc_operation_error) auto
    moreover have "\<not> isTransientError (rpc_error (''RPC '' @ nat_radix 10 (resp_status r) @ '' '' @ resp_statusText r) (resp_status r))"
      using a not_transient_500 not_transient_502 by (auto simp: nat_radix_status)
    ultimately show "\<exists>err. rpc_request transport no_retry_options random = Some (Inl err, [])"
      by (simp add: rpc_request_def default_loop)
  }
qed

theorem rpc_request_status_witness:
  "\<exists>err. rpc_request (\<lambda>i. Some (if i = 0 then Inr \<lparr>resp_status = 500, resp_statusText = ''Internal Server Error'', resp_json = Some (Inl Null)\<rparr>
       else Inr \<lparr>resp_status = 200, resp_statusText = ''OK'', resp_json = Some (Inr (1 :: int))\<rparr>)) no_retry_options (\<lambda>_. 0)
     = Some (Inl err, [])"
  using rpc_request_status [of "\<lambda>i. Some (if i = 0 then Inr \<lparr>resp_status = 500, resp_statusText = ''Internal Server Error'', resp_json = Some (Inl Null)\<rparr>
       else Inr \<lparr>resp_status = 200, resp_statusText = ''OK'', resp_json = Some (Inr (1 :: int))\<rparr>)"]
  by auto

end
