(* ===== verification/DisputeBuilder.thy ===== *)
theory DisputeBuilder
  imports EscrowBuilder
begin

text \<open>
  packages/sdk/src/builders/dispute.ts: the builder of the dispute calls. A method that throws
  leaves the builder as the assignments before the throw have made it.
\<close>

section \<open>State and checks\<close>

datatype dispute_action = Raise | Evidence | Resolve | Quorum

record dispute_builder =
  db_contractId :: string
  db_networkPassphrase :: string
  db_action :: "dispute_action option"
  db_actor :: "string option"
  db_evidenceHash :: "8 word list option"
  db_funderBps :: jsnum
  db_recipientBps :: jsnum
  db_signers :: "string list"

definition BPS_SCALE :: jsnum where
  "BPS_SCALE = Fin 10000"

definition ADDRESS_RE :: re where
  "ADDRESS_RE =
     Seq Bol (Seq (Cls (\<lambda>c. c = CHR ''G'' \<or> c = CHR ''C'')) (Seq (Rep 55 (Cls base32_char)) Eol))"

definition CONTRACT_RE :: re where
  "CONTRACT_RE = Seq Bol (Seq (Cls (\<lambda>c. c = CHR ''C'')) (Seq (Rep 55 (Cls base32_char)) Eol))"

definition requireAddress :: "string \<Rightarrow> string \<Rightarrow> bool \<Rightarrow> string js" where
  "requireAddress value label allowContract =
     (let trimmed = trim value in
      if \<not> re_test ADDRESS_RE trimmed \<and> \<not> (allowContract \<and> re_test CONTRACT_RE trimmed)
      then Inl (astraErr (''Invalid '' @ label @ '' address'') ''BAD_ADDRESS'')
      else Inr trimmed)"

lemma requireAddress_eq:
  "requireAddress value label allow =
     (if stellar_address (trim value) then Inr (trim value)
      else Inl (astraErr (''Invalid '' @ label @ '' address'') ''BAD_ADDRESS''))"
  unfolding requireAddress_def ADDRESS_RE_def CONTRACT_RE_def
    STELLAR_ADDRESS_RE_def [symmetric] CONTRACT_ADDRESS_RE_def [symmetric] assertAddress_def [symmetric]
  by (rule assertAddress_eq)

definition requireHash :: "hash_input \<Rightarrow> 8 word list js" where
  "requireHash value =
     bindR (hash_bytes_of value) (\<lambda>bytes.
       if length bytes \<noteq> 32
       then Inl (astraErr ''Evidence hash must be a 32-byte SHA-256 digest'' ''BAD_HASH'')
       else if list_all (\<lambda>b. b = 0) bytes
       then Inl (astraErr ''Evidence hash cannot be all zeroes'' ''BAD_HASH'')
       else Inr bytes)"

definition requireSplit :: "jsnum \<Rightarrow> jsnum \<Rightarrow> unit js" where
  "requireSplit funderBps recipientBps =
     guardR (\<not> num_isInteger funderBps \<or> \<not> num_isInteger recipientBps)
       (astraErr ''Split ratios must be integers'' ''BAD_SPLIT'')
    (guardR (num_lt funderBps (Fin 0) \<or> num_lt recipientBps (Fin 0) \<or> num_add funderBps recipientBps \<noteq> BPS_SCALE)
       (astraErr ''Funder and recipient basis points must sum to 10000'' ''BAD_SPLIT'')
       (Inr ()))"

section \<open>Methods\<close>

definition newDisputeBuilder :: "string \<Rightarrow> network_name option \<Rightarrow> string option \<Rightarrow> dispute_builder js" where
  "newDisputeBuilder contractId network passphrase =
     bindR (requireAddress contractId ''contract'' True) (\<lambda>c.
       Inr \<lparr>db_contractId = c, db_networkPassphrase = network_passphrase network passphrase,
            db_action = None, db_actor = None, db_evidenceHash = None, db_funderBps = Fin 0,
            db_recipientBps = Fin 0, db_signers = []\<rparr>)"

definition raiseDispute :: "dispute_builder \<Rightarrow> unit js \<times> dispute_builder" where
  "raiseDispute b = (Inr (), b\<lparr>db_action := Some Raise\<rparr>)"

definition appendEvidence :: "string \<Rightarrow> hash_input \<Rightarrow> dispute_builder \<Rightarrow> unit js \<times> dispute_builder" where
  "appendEvidence actor contentHash b =
     (let b1 = b\<lparr>db_action := Some Evidence\<rparr> in
      case requireAddress actor ''evidence submitter'' False of
        Inl e \<Rightarrow> (Inl e, b1)
      | Inr a \<Rightarrow>
          let b2 = b1\<lparr>db_actor := Some a\<rparr> in
          (case requireHash contentHash of
             Inl e \<Rightarrow> (Inl e, b2)
           | Inr h \<Rightarrow> (Inr (), b2\<lparr>db_evidenceHash := Some h\<rparr>)))"

definition settle :: "jsnum \<Rightarrow> jsnum \<Rightarrow> dispute_builder \<Rightarrow> unit js \<times> dispute_builder" where
  "settle funderBps recipientBps b =
     (case requireSplit funderBps recipientBps of
        Inl e \<Rightarrow> (Inl e, b)
      | Inr _ \<Rightarrow> (Inr (), b\<lparr>db_action := Some Resolve, db_funderBps := funderBps, db_recipientBps := recipientBps\<rparr>))"

fun unique_signers :: "string list \<Rightarrow> string list \<Rightarrow> string list js" where
  "unique_signers seen [] = Inr []"
| "unique_signers seen (s # ss) =
     bindR (requireAddress s ''arbitrator'' False) (\<lambda>a.
       if a \<in> set seen then Inl (astraErr ''Duplicate arbitrator signer'' ''DUP_SIGNER'')
       else bindR (unique_signers (seen @ [a]) ss) (\<lambda>as. Inr (a # as)))"

definition settleWithQuorum ::
  "jsnum \<Rightarrow> jsnum \<Rightarrow> string list \<Rightarrow> dispute_builder \<Rightarrow> unit js \<times> dispute_builder" where
  "settleWithQuorum funderBps recipientBps signers b =
     (case bindR (requireSplit funderBps recipientBps) (\<lambda>_.
           guardR (signers = []) (astraErr ''Quorum settlement requires at least one signer'' ''QUORUM_NOT_MET'')
             (unique_signers [] signers)) of
        Inl e \<Rightarrow> (Inl e, b)
      | Inr as \<Rightarrow> (Inr (), b\<lparr>db_signers := as, db_action := Some Quorum,
           db_funderBps := funderBps, db_recipientBps := recipientBps\<rparr>))"

fun dispute_method :: "dispute_action \<Rightarrow> string" where
  "dispute_method Raise = ''raise_dispute''"
| "dispute_method Evidence = ''append_dispute_evidence''"
| "dispute_method Resolve = ''resolve_dispute''"
| "dispute_method Quorum = ''settle_dispute_quorum''"

text \<open>\<open>absent\<close> is what \<open>new Address(undefined).toScVal()\<close> gives.\<close>

definition dispute_args :: "'sc stellar \<Rightarrow> 'sc js \<Rightarrow> dispute_builder \<Rightarrow> dispute_action \<Rightarrow> 'sc list js" where
  "dispute_args S absent b action =
     (case action of
        Raise \<Rightarrow> Inr []
      | Evidence \<Rightarrow>
          bindR (case db_actor b of Some a \<Rightarrow> addressToScVal S a | None \<Rightarrow> absent) (\<lambda>a.
          bindR (nativeToScVal S (case db_evidenceHash b of Some h \<Rightarrow> Bytes h | None \<Rightarrow> Undefined) (Some ''bytes'')) (\<lambda>h.
            Inr [a, h]))
      | Resolve \<Rightarrow>
          mapR (\<lambda>n. nativeToScVal S (Num n) (Some ''u32'')) [db_funderBps b, db_recipientBps b]
      | Quorum \<Rightarrow>
          bindR (mapR (addressToScVal S) (db_signers b)) (\<lambda>signers.
          bindR (mapR (\<lambda>n. nativeToScVal S (Num n) (Some ''u32'')) [db_funderBps b, db_recipientBps b]) (\<lambda>bps.
          bindR (vecToScVal S signers) (\<lambda>v. Inr (bps @ [v])))))"

definition dispute_compile :: "'sc stellar \<Rightarrow> 'sc js \<Rightarrow> dispute_builder \<Rightarrow> 'sc built_invocation js" where
  "dispute_compile S absent b =
     (case db_action b of
        None \<Rightarrow> Inl (astraErr ''No dispute action selected'' ''INCOMPLETE_DISPUTE'')
      | Some action \<Rightarrow>
          bindR (dispute_args S absent b action) (\<lambda>args.
            Inr \<lparr>bi_method = dispute_method action, bi_args = args, bi_contractId = db_contractId b,
                 bi_networkPassphrase = db_networkPassphrase b\<rparr>))"

section \<open>Splits\<close>

definition valid_split :: "jsnum \<Rightarrow> jsnum \<Rightarrow> bool" where
  "valid_split f r = (case (f, r) of
     (Fin a, Fin b) \<Rightarrow> is_integer a \<and> is_integer b \<and> 0 \<le> a \<and> 0 \<le> b \<and> a + b = 10000 | _ \<Rightarrow> False)"

lemma valid_split_int: "valid_split (Fin (of_int a)) (Fin (of_int b)) \<longleftrightarrow> 0 \<le> a \<and> 0 \<le> b \<and> a + b = 10000"
proof -
  have "rat_of_int a + of_int b = 10000 \<longleftrightarrow> a + b = 10000"
    by (simp only: of_int_add [symmetric] of_int_eq_numeral_iff)
  then show ?thesis by (simp add: valid_split_def)
qed

text \<open>A split is accepted exactly when both shares are non-negative integers that add up to exactly
  10000 basis points; NaN, infinities, fractions, and sums that only round to 10000 are
  BAD_SPLIT.\<close>

theorem requireSplit_spec:
  "requireSplit f r = Inr () \<longleftrightarrow> (\<exists>a b. f = Fin (of_int a) \<and> r = Fin (of_int b) \<and> 0 \<le> a \<and> 0 \<le> b \<and> a + b = 10000)"
proof (cases "num_isInteger f \<and> num_isInteger r")
  case True
  then obtain a b where ab: "f = Fin (of_int a)" "r = Fin (of_int b)" by (auto simp: num_isInteger_iff)
  have "num_add f r = BPS_SCALE \<longleftrightarrow> a + b = 10000" if "0 \<le> a" "0 \<le> b"
    using to_double_int_eq_small [of "a + b" 10000] that by (simp add: ab BPS_SCALE_def)
  then show ?thesis
    using True by (auto simp: requireSplit_def guardR_def ab)
next
  case False
  then show ?thesis by (auto simp: requireSplit_def guardR_def num_isInteger_iff)
qed

lemma requireSplit_valid: "requireSplit f r = Inr () \<longleftrightarrow> valid_split f r"
proof
  assume "requireSplit f r = Inr ()"
  then show "valid_split f r" by (auto simp: requireSplit_spec valid_split_int)
next
  assume v: "valid_split f r"
  then obtain a b where "f = Fin a" "r = Fin b" "is_integer a" "is_integer b"
    by (auto simp: valid_split_def split: jsnum.splits)
  then have "f = Fin (of_int \<lfloor>a\<rfloor>)" "r = Fin (of_int \<lfloor>b\<rfloor>)"
    by (metis is_integer_iff)+
  then show "requireSplit f r = Inr ()" using v valid_split_int requireSplit_spec by metis
qed

section \<open>What a builder compiles\<close>

lemma unique_signers_result:
  "unique_signers seen ss = Inr as \<Longrightarrow>
     as = map trim ss \<and> list_all stellar_address as \<and> distinct as \<and> set as \<inter> set seen = {}"
proof (induction seen ss arbitrary: as rule: unique_signers.induct)
  case (2 seen s ss)
  then obtain as' where as': "stellar_address (trim s)" "trim s \<notin> set seen"
      "unique_signers (seen @ [trim s]) ss = Inr as'" "as = trim s # as'"
    by (auto simp: bindR_Inr_iff requireAddress_eq split: if_splits)
  then have "requireAddress s ''arbitrator'' False = Inr (trim s)" by (simp add: requireAddress_eq)
  with 2 as' show ?case by auto
qed simp

lemma unique_signers_ok:
  "list_all stellar_address (map trim ss) \<Longrightarrow> distinct (map trim ss) \<Longrightarrow> set (map trim ss) \<inter> set seen = {} \<Longrightarrow>
     unique_signers seen ss = Inr (map trim ss)"
  by (induction seen ss rule: unique_signers.induct) (auto simp: requireAddress_eq)

datatype db_op =
    DB_raise
  | DB_evidence string hash_input
  | DB_settle jsnum jsnum
  | DB_quorum jsnum jsnum "string list"

fun db_step :: "db_op \<Rightarrow> dispute_builder \<Rightarrow> unit js \<times> dispute_builder" where
  "db_step DB_raise b = raiseDispute b"
| "db_step (DB_evidence a h) b = appendEvidence a h b"
| "db_step (DB_settle f r) b = settle f r b"
| "db_step (DB_quorum f r ss) b = settleWithQuorum f r ss b"

definition db_run :: "db_op list \<Rightarrow> dispute_builder \<Rightarrow> dispute_builder" where
  "db_run ops b = fold (\<lambda>op s. snd (db_step op s)) ops b"

definition db_inv :: "dispute_builder \<Rightarrow> bool" where
  "db_inv b =
     (stellar_address (db_contractId b)
      \<and> (db_action b \<in> {Some Resolve, Some Quorum} \<longrightarrow> valid_split (db_funderBps b) (db_recipientBps b))
      \<and> (db_action b = Some Quorum \<longrightarrow> db_signers b \<noteq> [])
      \<and> list_all stellar_address (db_signers b) \<and> distinct (db_signers b)
      \<and> pred_option stellar_address (db_actor b)
      \<and> pred_option (\<lambda>h. length h = 32 \<and> (\<exists>x\<in>set h. x \<noteq> 0)) (db_evidenceHash b))"

lemma requireHash_ok: "requireHash h = Inr bs \<longleftrightarrow> hash_bytes_of h = Inr bs \<and> length bs = 32 \<and> (\<exists>x\<in>set bs. x \<noteq> 0)"
  by (auto simp: requireHash_def bindR_Inr_iff list_all_iff)

lemma settleWithQuorum_ok:
  "settleWithQuorum f r ss b = (Inr (), b') \<longleftrightarrow>
     valid_split f r \<and> ss \<noteq> [] \<and> list_all stellar_address (map trim ss) \<and> distinct (map trim ss)
     \<and> b' = b\<lparr>db_signers := map trim ss, db_action := Some Quorum, db_funderBps := f, db_recipientBps := r\<rparr>"
proof -
  have u: "unique_signers [] ss = Inr as \<longleftrightarrow>
      as = map trim ss \<and> list_all stellar_address (map trim ss) \<and> distinct (map trim ss)" for as
    using unique_signers_result [of "[]" ss as] unique_signers_ok [of ss "[]"] by auto
  have "settleWithQuorum f r ss b = (Inr (), b') \<longleftrightarrow>
    (\<exists>as. bindR (requireSplit f r) (\<lambda>_.
           guardR (ss = []) (astraErr ''Quorum settlement requires at least one signer'' ''QUORUM_NOT_MET'')
             (unique_signers [] ss)) = Inr as
       \<and> b' = b\<lparr>db_signers := as, db_action := Some Quorum, db_funderBps := f, db_recipientBps := r\<rparr>)"
    by (auto simp: settleWithQuorum_def split: sum.splits)
  then show ?thesis by (simp add: bindR_Inr_iff guardR_Inr_iff requireSplit_valid u)
qed

lemma settleWithQuorum_throws: "settleWithQuorum f r ss b = (Inl e, b') \<Longrightarrow> b' = b"
  by (auto simp: settleWithQuorum_def split: sum.splits)

lemma settle_ok:
  "valid_split f r \<Longrightarrow>
     settle f r b = (Inr (), b\<lparr>db_action := Some Resolve, db_funderBps := f, db_recipientBps := r\<rparr>)"
  by (simp add: settle_def flip: requireSplit_valid)

lemma settle_throws: "\<not> valid_split f r \<Longrightarrow> snd (settle f r b) = b"
  by (auto simp: settle_def simp flip: requireSplit_valid split: sum.splits)

lemma appendEvidence_cases:
  "snd (appendEvidence actor h b) =
     (if stellar_address (trim actor)
      then (case requireHash h of
          Inr bs \<Rightarrow> b\<lparr>db_action := Some Evidence, db_actor := Some (trim actor), db_evidenceHash := Some bs\<rparr>
        | Inl _ \<Rightarrow> b\<lparr>db_action := Some Evidence, db_actor := Some (trim actor)\<rparr>)
      else b\<lparr>db_action := Some Evidence\<rparr>)"
  by (simp add: appendEvidence_def requireAddress_eq Let_def split: sum.splits)

lemma db_step_inv: "db_inv b \<Longrightarrow> db_inv (snd (db_step op b))"
proof (cases op)
  case (DB_evidence a h)
  moreover assume "db_inv b"
  ultimately show ?thesis
    by (auto simp: appendEvidence_cases db_inv_def requireHash_ok split: sum.splits)
next
  case (DB_settle f r)
  moreover assume "db_inv b"
  ultimately show ?thesis 
    using settle_ok [of f r b] settle_throws [of f r b] by (cases "valid_split f r") (auto simp: db_inv_def)
next
  case (DB_quorum f r ss)
  moreover assume "db_inv b"
  moreover obtain x b' where x: "settleWithQuorum f r ss b = (x, b')" by (cases "settleWithQuorum f r ss b")
  ultimately show ?thesis
    using settleWithQuorum_throws [of f r ss b] settleWithQuorum_ok [of f r ss b b']
    by (cases x) (auto simp: db_inv_def)
qed (auto simp: raiseDispute_def db_inv_def)

lemma db_run_inv: "db_inv b \<Longrightarrow> db_inv (db_run ops b)"
  unfolding db_run_def by (induction ops arbitrary: b) (simp_all add: db_step_inv)

lemma new_dispute_inv: "newDisputeBuilder c n p = Inr b \<Longrightarrow> db_inv b"
  by (auto simp: newDisputeBuilder_def bindR_Inr_iff requireAddress_eq db_inv_def split: if_splits)

text \<open>C10: Whatever methods are called on a dispute builder, also after calls that threw: if it compiles to
  a settlement, the two shares it sends are non-negative integers that add up to 10000, and if
  it is a quorum settlement, the signers it sends are at least one and pairwise different
  well-formed addresses.\<close>

theorem dispute_settlement_valid:
  assumes "newDisputeBuilder c n p = Inr b0" "dispute_compile S absent (db_run ops b0) = Inr call"
    and "bi_method call \<in> {''resolve_dispute'', ''settle_dispute_quorum''}"
  shows "\<exists>f r fv rv. valid_split f r
     \<and> nativeToScVal S (Num f) (Some ''u32'') = Inr fv \<and> nativeToScVal S (Num r) (Some ''u32'') = Inr rv
     \<and> (bi_method call = ''resolve_dispute'' \<longrightarrow> bi_args call = [fv, rv])
     \<and> (bi_method call = ''settle_dispute_quorum'' \<longrightarrow>
          (\<exists>signers scs v. signers \<noteq> [] \<and> distinct signers \<and> list_all stellar_address signers
             \<and> mapR (addressToScVal S) signers = Inr scs \<and> vecToScVal S scs = Inr v \<and> bi_args call = [fv, rv, v]))"
proof -
  let ?b = "db_run ops b0"
  have inv: "db_inv ?b" by (rule db_run_inv [OF new_dispute_inv [OF assms(1)]])
  obtain action args where a: "db_action ?b = Some action" "dispute_args S absent ?b action = Inr args"
      "call = \<lparr>bi_method = dispute_method action, bi_args = args, bi_contractId = db_contractId ?b,
          bi_networkPassphrase = db_networkPassphrase ?b\<rparr>"
    using assms(2) by (auto simp: dispute_compile_def bindR_Inr_iff split: option.splits)
  have "action = Resolve \<or> action = Quorum" using assms(3) a(3) by (cases action) simp_all
  then show ?thesis
  proof
    assume "action = Resolve"
    then show ?thesis using inv a by (auto simp: db_inv_def dispute_args_def bindR_Inr_iff)
  next
    assume "action = Quorum"
    then show ?thesis using inv a by (auto simp: db_inv_def dispute_args_def bindR_Inr_iff) blast
  qed
qed

definition sample_stellar :: "string stellar" where
  "sample_stellar = \<lparr>addressToScVal = Inr, nativeToScVal = (\<lambda>v _. Inr (js_string v)), vecToScVal = (\<lambda>xs. Inr (concat xs))\<rparr>"

definition sample_dispute :: dispute_builder where
  "sample_dispute = \<lparr>db_contractId = sample_address (CHR ''C''), db_networkPassphrase = network_passphrase None None,
      db_action = None, db_actor = None, db_evidenceHash = None, db_funderBps = Fin 0,
      db_recipientBps = Fin 0, db_signers = []\<rparr>"

lemma sample_dispute_new: "newDisputeBuilder (sample_address (CHR ''C'')) None None = Inr sample_dispute"
  by (simp add: newDisputeBuilder_def requireAddress_eq sample_trim sample_address_ok sample_dispute_def)

theorem dispute_settlement_valid_witness:
  "\<exists>f r. valid_split f r \<and> (\<exists>call. dispute_compile sample_stellar (Inl TypeErr)
       (db_run [DB_settle (Fin (of_int 4000)) (Fin (of_int 6000))] sample_dispute) = Inr call \<and> length (bi_args call) = 2)"
proof -
  have "valid_split (Fin (of_int 4000)) (Fin (of_int 6000))" by (simp only: valid_split_int) simp
  then have "settle (Fin (of_int 4000)) (Fin (of_int 6000)) sample_dispute = (Inr (), sample_dispute\<lparr>db_action := Some Resolve,
      db_funderBps := Fin (of_int 4000), db_recipientBps := Fin (of_int 6000)\<rparr>)"
    by (rule settle_ok)
  then obtain call where call: "dispute_compile sample_stellar (Inl TypeErr)
       (db_run [DB_settle (Fin (of_int 4000)) (Fin (of_int 6000))] sample_dispute) = Inr call"
       "bi_method call = ''resolve_dispute''"
    by (simp add: db_run_def dispute_compile_def dispute_args_def sample_stellar_def)
  from dispute_settlement_valid [OF sample_dispute_new call(1)] call show ?thesis by fastforce
qed

text \<open>A rejected piece of evidence is not forgotten: when a first submission was accepted and a second
  one, by another actor with an unusable hash, threw, the builder still compiles, and what it
  compiles attributes the first submission's hash to the second actor.\<close>

theorem rejected_evidence_mixed:
  assumes "stellar_address (trim actor1)" "stellar_address (trim actor2)" "requireHash h1 = Inr bs" "requireHash h2 = Inl e"
  shows "let b1 = snd (appendEvidence actor1 h1 b); r2 = appendEvidence actor2 h2 b1 in
     fst (appendEvidence actor1 h1 b) = Inr () \<and> fst r2 = Inl e
     \<and> dispute_compile S absent (snd r2) =
         bindR (addressToScVal S (trim actor2)) (\<lambda>a.
         bindR (nativeToScVal S (Bytes bs) (Some ''bytes'')) (\<lambda>h.
           Inr \<lparr>bi_method = ''append_dispute_evidence'', bi_args = [a, h], bi_contractId = db_contractId b,
                bi_networkPassphrase = db_networkPassphrase b\<rparr>))"
  using assms
  by (simp add: appendEvidence_def requireAddress_eq Let_def dispute_compile_def dispute_args_def bindR_def
      split: sum.splits)

theorem rejected_evidence_mixed_witness:
  "bi_args (projr (dispute_compile sample_stellar (Inl TypeErr)
      (snd (appendEvidence (sample_address (CHR ''C'')) (HashBytes [])
        (snd (appendEvidence (sample_address (CHR ''G'')) (HashBytes (replicate 32 1)) sample_dispute))))))
   = [sample_address (CHR ''C''), js_string (Bytes (replicate 32 1))]"
proof -
  have "stellar_address (trim (sample_address (CHR ''G'')))" "stellar_address (trim (sample_address (CHR ''C'')))"
    by (simp_all add: sample_trim sample_address_ok)
  moreover have "requireHash (HashBytes (replicate 32 1)) = Inr (replicate 32 1)"
    by (simp add: requireHash_ok hash_bytes_of_def)
  moreover have "requireHash (HashBytes []) = Inl (astraErr ''Evidence hash must be a 32-byte SHA-256 digest'' ''BAD_HASH'')"
    by (simp add: requireHash_def hash_bytes_of_def)
  ultimately show ?thesis
    using rejected_evidence_mixed [of "sample_address (CHR ''G'')" "sample_address (CHR ''C'')"
        "HashBytes (replicate 32 1)" "replicate 32 1" "HashBytes []" _ sample_dispute sample_stellar "Inl TypeErr"]
    by (simp add: Let_def sample_stellar_def sample_trim)
qed

end
