(* ===== verification/Multisig.thy ===== *)
theory Multisig
  imports Base64 Converters Errors
begin

text \<open>
  packages/sdk/src/multisig.ts: collecting the signatures of a transaction and submitting it.
  The key functions of the Stellar SDK and the RPC server are parameters; a transaction is
  its hash, which does not depend on the signatures attached to it, and those signatures.
\<close>

section \<open>State and operations\<close>

text \<open>\<open>Keypair.fromPublicKey(k).verify(message, signature)\<close> and \<open>.signatureHint()\<close>; both throw
  on a text that is no public key.\<close>

record keypairs =
  kp_verify :: "string \<Rightarrow> 8 word list \<Rightarrow> 8 word list \<Rightarrow> bool js"
  kp_hint :: "string \<Rightarrow> 8 word list js"

record collected_signature =
  cs_publicKey :: string
  cs_hint :: string
  cs_signature :: string

record aggregator =
  ag_hash :: "8 word list"
  ag_tx_signatures :: "(8 word list \<times> 8 word list) list"
  ag_signatures :: "collected_signature list"

definition new_aggregator :: "8 word list \<Rightarrow> (8 word list \<times> 8 word list) list \<Rightarrow> aggregator" where
  "new_aggregator txhash txsigs = \<lparr>ag_hash = txhash, ag_tx_signatures = txsigs, ag_signatures = []\<rparr>"

text \<open>The passphrase \<open>fromXdr\<close> parses the envelope with.\<close>

definition xdr_passphrase :: "string \<Rightarrow> string" where
  "xdr_passphrase network =
     (if network = ''testnet'' then net_passphrase (NETWORKS Testnet)
      else if network = ''mainnet'' then net_passphrase (NETWORKS Mainnet)
      else network)"

definition has_signature :: "string \<Rightarrow> aggregator \<Rightarrow> bool" where
  "has_signature publicKey ag = list_ex (\<lambda>s. cs_publicKey s = publicKey) (ag_signatures ag)"

datatype signature_input = SigBytes "8 word list" | SigText string

definition addSignature :: "keypairs \<Rightarrow> string \<Rightarrow> signature_input \<Rightarrow> aggregator \<Rightarrow> unit js \<times> aggregator" where
  "addSignature K publicKey signature ag =
     (let bytes = (case signature of SigText t \<Rightarrow> from_base64 t | SigBytes bs \<Rightarrow> bs) in
      if length bytes \<noteq> 64
      then (Inl (astraErr ''Ed25519 signatures must be 64 bytes'' ''BAD_SIGNATURE''), ag)
      else if has_signature publicKey ag then (Inr (), ag)
      else case kp_verify K publicKey (ag_hash ag) bytes of
          Inl e \<Rightarrow> (Inl e, ag)
        | Inr False \<Rightarrow> (Inl (astraErr (''Signature does not verify for '' @ publicKey) ''BAD_SIGNATURE''), ag)
        | Inr True \<Rightarrow>
            (case kp_hint K publicKey of
               Inl e \<Rightarrow> (Inl e, ag)
             | Inr hint \<Rightarrow>
                 (Inr (), ag\<lparr>ag_tx_signatures := ag_tx_signatures ag @ [(hint, bytes)],
                    ag_signatures := ag_signatures ag @
                      [\<lparr>cs_publicKey = publicKey, cs_hint = bytesToHex hint, cs_signature = to_base64 bytes\<rparr>]\<rparr>)))"

record signer =
  sg_publicKey :: string
  sg_sign :: "8 word list \<Rightarrow> 8 word list js"

fun signSequential :: "keypairs \<Rightarrow> signer list \<Rightarrow> aggregator \<Rightarrow> unit js \<times> aggregator" where
  "signSequential K [] ag = (Inr (), ag)"
| "signSequential K (s # ss) ag =
     (case sg_sign s (ag_hash ag) of
        Inl e \<Rightarrow> (Inl e, ag)
      | Inr sig \<Rightarrow>
          (case addSignature K (sg_publicKey s) (SigBytes sig) ag of
             (Inl e, ag') \<Rightarrow> (Inl e, ag')
           | (Inr _, ag') \<Rightarrow> signSequential K ss ag'))"

fun add_signed :: "keypairs \<Rightarrow> (string \<times> 8 word list) list \<Rightarrow> aggregator \<Rightarrow> unit js \<times> aggregator" where
  "add_signed K [] ag = (Inr (), ag)"
| "add_signed K ((pk, sig) # xs) ag =
     (case addSignature K pk (SigBytes sig) ag of
        (Inl e, ag') \<Rightarrow> (Inl e, ag')
      | (Inr _, ag') \<Rightarrow> add_signed K xs ag')"

text \<open>
  \<open>Promise.all\<close> over the signers: all their signatures in order, or the rejection that
  comes first; \<open>order\<close> lists the signers in the order in which their promises settle.
\<close>

definition sign_all :: "signer list \<Rightarrow> nat list \<Rightarrow> 8 word list \<Rightarrow> (string \<times> 8 word list) list js" where
  "sign_all signers order payload =
     (case List.find (\<lambda>i. \<not> is_ok (sg_sign (signers ! i) payload)) order of
        Some i \<Rightarrow> (case sg_sign (signers ! i) payload of Inl e \<Rightarrow> Inl e | Inr _ \<Rightarrow> Inr [])
      | None \<Rightarrow> mapR (\<lambda>s. bindR (sg_sign s payload) (\<lambda>sig. Inr (sg_publicKey s, sig))) signers)"

definition signParallel :: "keypairs \<Rightarrow> signer list \<Rightarrow> nat list \<Rightarrow> aggregator \<Rightarrow> unit js \<times> aggregator" where
  "signParallel K signers order ag =
     (case sign_all signers order (ag_hash ag) of
        Inl e \<Rightarrow> (Inl e, ag)
      | Inr items \<Rightarrow> add_signed K items ag)"

definition requiredThreshold :: "int \<Rightarrow> int \<Rightarrow> aggregator \<Rightarrow> bool" where
  "requiredThreshold sourceWeight threshold ag = (int (length (ag_signatures ag)) * sourceWeight \<ge> threshold)"

text \<open>\<open>submit\<close>: \<open>connect\<close> is the constructor of the RPC server, \<open>send\<close> its \<open>sendTransaction\<close>.\<close>

definition is_astra :: "js_error \<Rightarrow> bool" where
  "is_astra e = (case e of SdkError _ _ _ _ \<Rightarrow> True | NativeError _ _ \<Rightarrow> False)"

definition submit :: "(string \<Rightarrow> unit js) \<Rightarrow> (aggregator \<Rightarrow> jsval js) \<Rightarrow> string \<Rightarrow> aggregator \<Rightarrow> jsval js" where
  "submit connect send rpcUrl ag =
     guardR (ag_signatures ag = [] \<and> ag_tx_signatures ag = [])
       (astraErr ''Cannot submit an unsigned transaction'' ''MISSING_SIGNATURE'')
     (bindR (connect rpcUrl) (\<lambda>_.
        case bindR (send ag) (\<lambda>sent.
             bindR (classifySendResult sent) (\<lambda>_.
               if \<not> truthy (js_prop sent ''hash'')
               then Inl (transactionFailedError ''RPC accepted the transaction without a hash'' (Some sent) None)
               else Inr (js_prop sent ''hash''))) of
          Inr h \<Rightarrow> Inr h
        | Inl error \<Rightarrow>
            if is_astra error then Inl error
            else Inl (authExpiredError ''Failed to submit multi-sig envelope'' (Some (ErrV error)))))"

section \<open>The collected signatures\<close>

definition sig_ok :: "keypairs \<Rightarrow> 8 word list \<Rightarrow> collected_signature \<times> (8 word list \<times> 8 word list) \<Rightarrow> bool" where
  "sig_ok K h = (\<lambda>(c, (hint, bytes)).
     length bytes = 64 \<and> kp_verify K (cs_publicKey c) h bytes = Inr True
     \<and> kp_hint K (cs_publicKey c) = Inr hint \<and> cs_hint c = bytesToHex hint \<and> cs_signature c = to_base64 bytes)"

text \<open>\<open>pre\<close>: the signatures the envelope carried when it was parsed.\<close>

definition ag_inv :: "keypairs \<Rightarrow> (8 word list \<times> 8 word list) list \<Rightarrow> aggregator \<Rightarrow> bool" where
  "ag_inv K pre ag =
     (distinct (map cs_publicKey (ag_signatures ag))
      \<and> (\<exists>added. ag_tx_signatures ag = pre @ added \<and> length added = length (ag_signatures ag)
           \<and> list_all (sig_ok K (ag_hash ag)) (zip (ag_signatures ag) added)))"

lemma has_signature_iff: "has_signature pk ag \<longleftrightarrow> pk \<in> set (map cs_publicKey (ag_signatures ag))"
  by (auto simp: has_signature_def list_ex_iff)

lemma addSignature_cases:
  obtains (rejected) e where "addSignature K pk sig ag = (Inl e, ag)"
  | (known) "addSignature K pk sig ag = (Inr (), ag)" "has_signature pk ag"
  | (added) bytes hint where "\<not> has_signature pk ag" "length bytes = 64" "kp_verify K pk (ag_hash ag) bytes = Inr True"
      "kp_hint K pk = Inr hint"
      "addSignature K pk sig ag = (Inr (), ag\<lparr>ag_tx_signatures := ag_tx_signatures ag @ [(hint, bytes)],
         ag_signatures := ag_signatures ag @
           [\<lparr>cs_publicKey = pk, cs_hint = bytesToHex hint, cs_signature = to_base64 bytes\<rparr>]\<rparr>)"
proof -
  define bytes where "bytes = (case sig of SigText t \<Rightarrow> from_base64 t | SigBytes bs \<Rightarrow> bs)"
  note def = addSignature_def [of K pk sig ag, folded bytes_def, unfolded Let_def]
  show thesis
  proof (cases "length bytes = 64 \<and> \<not> has_signature pk ag \<and> kp_verify K pk (ag_hash ag) bytes = Inr True
      \<and> is_ok (kp_hint K pk)")
    case True
    then obtain hint where "kp_hint K pk = Inr hint" by (auto simp: is_ok_iff)
    then show thesis using True by (intro added [of bytes hint]) (simp_all add: def)
  next
    case False
    show thesis
    proof (cases "length bytes = 64 \<and> has_signature pk ag")
      case True
      then show thesis by (intro known) (simp_all add: def)
    next
      case other: False
      have "\<exists>e. addSignature K pk sig ag = (Inl e, ag)"
      proof (cases "length bytes = 64")
        case True
        then show ?thesis using False other
          by (cases "kp_verify K pk (ag_hash ag) bytes"; cases "kp_hint K pk") (simp_all add: def split: bool.split)
      qed (simp add: def)
      then show thesis using rejected by blast
    qed
  qed
qed

lemma addSignature_inv:
  assumes "ag_inv K pre ag"
  shows "ag_inv K pre (snd (addSignature K pk sig ag)) \<and> ag_hash (snd (addSignature K pk sig ag)) = ag_hash ag"
proof (cases rule: addSignature_cases [of K pk sig ag])
  case (added bytes hint)
  then have a: "snd (addSignature K pk sig ag) = ag\<lparr>ag_tx_signatures := ag_tx_signatures ag @ [(hint, bytes)],
         ag_signatures := ag_signatures ag @
           [\<lparr>cs_publicKey = pk, cs_hint = bytesToHex hint, cs_signature = to_base64 bytes\<rparr>]\<rparr>"
    by simp
  obtain sigs where "ag_tx_signatures ag = pre @ sigs" "length sigs = length (ag_signatures ag)"
      "list_all (sig_ok K (ag_hash ag)) (zip (ag_signatures ag) sigs)" "distinct (map cs_publicKey (ag_signatures ag))"
    using assms by (auto simp: ag_inv_def)
  then show ?thesis
    using added(1-4) unfolding a ag_inv_def
    by (auto simp: has_signature_iff sig_ok_def intro!: exI [of _ "sigs @ [(hint, bytes)]"])
qed (use assms in simp_all)

lemma signSequential_inv:
  "ag_inv K pre ag \<Longrightarrow> ag_inv K pre (snd (signSequential K ss ag)) \<and> ag_hash (snd (signSequential K ss ag)) = ag_hash ag"
proof (induction ss arbitrary: ag)
  case (Cons s ss)
  show ?case
  proof (cases "sg_sign s (ag_hash ag)")
    case (Inr sig)
    obtain r ag' where r: "addSignature K (sg_publicKey s) (SigBytes sig) ag = (r, ag')"
      by (cases "addSignature K (sg_publicKey s) (SigBytes sig) ag")
    then have "ag_inv K pre ag'" "ag_hash ag' = ag_hash ag"
      using addSignature_inv [OF Cons.prems, of "sg_publicKey s" "SigBytes sig"] by simp_all
    then show ?thesis using Cons.IH [of ag'] Inr r by (cases r) simp_all
  qed (use Cons.prems in simp)
qed simp

lemma add_signed_inv:
  "ag_inv K pre ag \<Longrightarrow> ag_inv K pre (snd (add_signed K xs ag)) \<and> ag_hash (snd (add_signed K xs ag)) = ag_hash ag"
proof (induction xs arbitrary: ag)
  case (Cons x xs)
  obtain pk sig where x: "x = (pk, sig)" by (cases x)
  obtain r ag' where r: "addSignature K pk (SigBytes sig) ag = (r, ag')"
    by (cases "addSignature K pk (SigBytes sig) ag")
  then have "ag_inv K pre ag'" "ag_hash ag' = ag_hash ag"
    using addSignature_inv [OF Cons.prems, of pk "SigBytes sig"] by simp_all
  then show ?case using Cons.IH [of ag'] x r by (cases r) simp_all
qed simp

lemma signParallel_inv:
  "ag_inv K pre ag \<Longrightarrow>
     ag_inv K pre (snd (signParallel K ss order ag)) \<and> ag_hash (snd (signParallel K ss order ag)) = ag_hash ag"
  using add_signed_inv by (auto simp: signParallel_def split: sum.splits)

datatype ag_op =
    AG_add string signature_input
  | AG_sequential "signer list"
  | AG_parallel "signer list" "nat list"

fun ag_step :: "keypairs \<Rightarrow> ag_op \<Rightarrow> aggregator \<Rightarrow> unit js \<times> aggregator" where
  "ag_step K (AG_add pk sig) ag = addSignature K pk sig ag"
| "ag_step K (AG_sequential ss) ag = signSequential K ss ag"
| "ag_step K (AG_parallel ss order) ag = signParallel K ss order ag"

definition ag_run :: "keypairs \<Rightarrow> ag_op list \<Rightarrow> aggregator \<Rightarrow> aggregator" where
  "ag_run K ops ag = fold (\<lambda>op s. snd (ag_step K op s)) ops ag"

lemma ag_step_inv: "ag_inv K pre ag \<Longrightarrow> ag_inv K pre (snd (ag_step K op ag)) \<and> ag_hash (snd (ag_step K op ag)) = ag_hash ag"
  by (cases op) (simp_all add: addSignature_inv signSequential_inv signParallel_inv)

lemma ag_run_inv: "ag_inv K pre ag \<Longrightarrow> ag_inv K pre (ag_run K ops ag) \<and> ag_hash (ag_run K ops ag) = ag_hash ag"
  unfolding ag_run_def
proof (induction ops arbitrary: ag)
  case (Cons op ops)
  then show ?case using ag_step_inv [OF Cons.prems, of op] by simp
qed simp

lemma new_aggregator_inv: "ag_inv K pre (new_aggregator h pre)"
  by (simp add: ag_inv_def new_aggregator_def)

text \<open>C2: However signatures are added, one by one, sequentially or in parallel, and whatever throws on
  the way, the envelope carries its original signatures followed by exactly one per
  collected entry: the entries are of pairwise different keys, and each one's signature has
  64 bytes, verifies for its key against the transaction's hash, and is what its base64 text
  decodes to.\<close>

theorem collected_signatures_verify:
  "let ag = ag_run K ops (new_aggregator h pre) in
     ag_hash ag = h \<and> distinct (map cs_publicKey (ag_signatures ag))
   \<and> (\<exists>added. ag_tx_signatures ag = pre @ added \<and> length added = length (ag_signatures ag)
        \<and> list_all (\<lambda>(c, hint, bytes). length bytes = 64 \<and> kp_verify K (cs_publicKey c) h bytes = Inr True
             \<and> kp_hint K (cs_publicKey c) = Inr hint \<and> from_base64 (cs_signature c) = bytes)
            (zip (ag_signatures ag) added))"
proof -
  let ?ag = "ag_run K ops (new_aggregator h pre)"
  have inv: "ag_inv K pre ?ag" and h: "ag_hash ?ag = h"
    using ag_run_inv [OF new_aggregator_inv, of K pre ops h] by (simp_all add: new_aggregator_def)
  obtain added where a: "ag_tx_signatures ?ag = pre @ added" "length added = length (ag_signatures ?ag)"
      "list_all (sig_ok K h) (zip (ag_signatures ?ag) added)"
    using inv h by (auto simp: ag_inv_def)
  have "list_all (\<lambda>(c, hint, bytes). length bytes = 64 \<and> kp_verify K (cs_publicKey c) h bytes = Inr True
             \<and> kp_hint K (cs_publicKey c) = Inr hint \<and> from_base64 (cs_signature c) = bytes)
            (zip (ag_signatures ?ag) added)"
    using a(3) by (rule list.pred_mono_strong) (auto simp: sig_ok_def from_to_base64)
  then show ?thesis using inv h a by (auto simp: ag_inv_def Let_def)
qed

section \<open>Sequential and parallel signing\<close>

lemma signSequential_all_sign:
  "list_all2 (\<lambda>s sig. sg_sign s h = Inr sig) ss sigs \<Longrightarrow> ag_inv K pre ag \<Longrightarrow> ag_hash ag = h \<Longrightarrow>
     signSequential K ss ag = add_signed K (zip (map sg_publicKey ss) sigs) ag"
proof (induction ss sigs arbitrary: ag rule: list_all2_induct)
  case (Cons s ss sig sigs)
  obtain r ag' where r: "addSignature K (sg_publicKey s) (SigBytes sig) ag = (r, ag')"
    by (cases "addSignature K (sg_publicKey s) (SigBytes sig) ag")
  then have "ag_inv K pre ag'" "ag_hash ag' = h"
    using addSignature_inv [OF Cons.prems(1), of "sg_publicKey s" "SigBytes sig"] Cons.prems(2) by simp_all
  then show ?case using Cons r by (cases r) simp_all
qed simp

lemma sign_all_ok:
  assumes "list_all2 (\<lambda>s sig. sg_sign s h = Inr sig) ss sigs" "set order \<subseteq> {..<length ss}"
  shows "sign_all ss order h = Inr (zip (map sg_publicKey ss) sigs)"
proof -
  have "is_ok (sg_sign (ss ! i) h)" if "i \<in> set order" for i
    using assms that by (auto simp: list_all2_conv_all_nth)
  then have none: "List.find (\<lambda>i. \<not> is_ok (sg_sign (ss ! i) h)) order = None"
    by (auto simp: find_None_iff)
  have "mapR (\<lambda>s. bindR (sg_sign s h) (\<lambda>sig. Inr (sg_publicKey s, sig))) ss = Inr (zip (map sg_publicKey ss) sigs)"
    using assms(1) by (induction rule: list_all2_induct) simp_all
  with none show ?thesis by (simp add: sign_all_def)
qed

text \<open>C27: When every signer signs, signing in parallel gives the same outcome and the same aggregator as
  signing sequentially, in whatever order the promises settle; when some signer fails, the
  parallel variant throws a failing signer's error and adds no signature at all.\<close>

theorem parallel_sequential:
  assumes "set order = {..<length ss}" "ag = ag_run K ops (new_aggregator h pre)"
  shows "if list_all (\<lambda>s. is_ok (sg_sign s h)) ss
     then signParallel K ss order ag = signSequential K ss ag
     else \<exists>e. signParallel K ss order ag = (Inl e, ag) \<and> (\<exists>s\<in>set ss. sg_sign s h = Inl e)"
proof (cases "list_all (\<lambda>s. is_ok (sg_sign s h)) ss")
  case True
  have inv: "ag_inv K pre ag" "ag_hash ag = h"
    using ag_run_inv [OF new_aggregator_inv, of K pre ops h] by (simp_all add: assms(2) new_aggregator_def)
  have l: "list_all2 (\<lambda>s sig. sg_sign s h = Inr sig) ss (map (\<lambda>s. projr (sg_sign s h)) ss)"
    using True by (auto simp: list_all2_conv_all_nth list_all_length is_ok_iff)
  show ?thesis
    using True inv signSequential_all_sign [OF l inv] sign_all_ok [OF l, of order] assms(1)
    by (simp add: signParallel_def)
next
  case False
  then obtain i where "i < length ss" "\<not> is_ok (sg_sign (ss ! i) h)" by (auto simp: list_all_length)
  then have "List.find (\<lambda>i. \<not> is_ok (sg_sign (ss ! i) h)) order \<noteq> None"
    using assms(1) by (auto simp: find_None_iff)
  then obtain j where j: "List.find (\<lambda>i. \<not> is_ok (sg_sign (ss ! i) h)) order = Some j" by blast
  then have "j \<in> set order" "\<not> is_ok (sg_sign (ss ! j) h)" by (auto simp: find_Some_iff)
  then obtain e where e: "sg_sign (ss ! j) h = Inl e" "ss ! j \<in> set ss"
    using assms(1) by (cases "sg_sign (ss ! j) h") auto
  have "ag_hash ag = h"
    using ag_run_inv [OF new_aggregator_inv, of K pre ops h] by (simp add: assms(2) new_aggregator_def)
  then have "signParallel K ss order ag = (Inl e, ag)" by (simp add: signParallel_def sign_all_def j e)
  then show ?thesis using False e by auto
qed

definition sample_keypairs :: keypairs where
  "sample_keypairs = \<lparr>kp_verify = (\<lambda>_ _ _. Inr True), kp_hint = (\<lambda>_. Inr [1, 2, 3, 4])\<rparr>"

definition sample_signer :: "string \<Rightarrow> signer" where
  "sample_signer key = \<lparr>sg_publicKey = key, sg_sign = (\<lambda>_. Inr (replicate 64 7))\<rparr>"

theorem parallel_sequential_witness:
  "signParallel sample_keypairs [sample_signer ''a'', sample_signer ''b''] [1, 0] (new_aggregator [9] []) =
     signSequential sample_keypairs [sample_signer ''a'', sample_signer ''b''] (new_aggregator [9] [])
   \<and> length (ag_signatures (snd (signSequential sample_keypairs [sample_signer ''a'', sample_signer ''b'']
        (new_aggregator [9] [])))) = 2"
proof -
  let ?ss = "[sample_signer ''a'', sample_signer ''b'']"
  have "set [1, 0 :: nat] = {..<length ?ss}" by auto
  moreover have "new_aggregator [9] [] = ag_run sample_keypairs [] (new_aggregator [9] [])" by (simp add: ag_run_def)
  moreover have "list_all (\<lambda>s. is_ok (sg_sign s [9])) ?ss" by (simp add: sample_signer_def)
  ultimately have "signParallel sample_keypairs ?ss [1, 0] (new_aggregator [9] []) =
      signSequential sample_keypairs ?ss (new_aggregator [9] [])"
    using parallel_sequential [of "[1, 0]" ?ss "new_aggregator [9] []" sample_keypairs "[]" "[9]" "[]"] by simp
  moreover have "length (ag_signatures (snd (signSequential sample_keypairs ?ss (new_aggregator [9] [])))) = 2"
    by (simp add: sample_signer_def sample_keypairs_def addSignature_def new_aggregator_def has_signature_def Let_def)
  ultimately show ?thesis by simp
qed

section \<open>Submission\<close>

lemma err_code_given [simp]: "err_code (SdkError c m (Some k) x) = Some k"
  by (simp add: err_code_def)

text \<open>\<open>submit\<close> never sends an envelope without signatures; it returns a hash only for an answer
  that \<open>classifySendResult\<close> accepts and that has one; an SDK error is passed on as it is; and
  every other failure while sending, a network failure included, is reported as
  AuthExpiredError with the code AUTH_EXPIRED and the failure as its cause.\<close>

theorem submit_outcome:
  "case submit connect send url ag of
     Inr h \<Rightarrow> \<not> (ag_signatures ag = [] \<and> ag_tx_signatures ag = [])
        \<and> (\<exists>sent. send ag = Inr sent \<and> classifySendResult sent = Inr () \<and> h = js_prop sent ''hash'' \<and> truthy h)
   | Inl e \<Rightarrow>
        (ag_signatures ag = [] \<and> ag_tx_signatures ag = [] \<and> err_code e = Some ''MISSING_SIGNATURE'')
      \<or> connect url = Inl e
      \<or> (\<exists>n m. send ag = Inl (NativeError n m) \<and> err_code e = Some ''AUTH_EXPIRED''
            \<and> e = authExpiredError ''Failed to submit multi-sig envelope'' (Some (ErrV (NativeError n m))))
      \<or> (send ag = Inl e \<and> is_astra e)
      \<or> (\<exists>sent. send ag = Inr sent \<and> is_astra e
            \<and> (classifySendResult sent = Inl e
               \<or> (\<exists>n m. classifySendResult sent = Inl (NativeError n m) \<and> err_code e = Some ''AUTH_EXPIRED'')
               \<or> (classifySendResult sent = Inr () \<and> \<not> truthy (js_prop sent ''hash'') \<and> err_code e = Some ''TX_FAILED'')))"
proof (cases "ag_signatures ag = [] \<and> ag_tx_signatures ag = []")
  case True
  then show ?thesis by (simp add: submit_def)
next
  case False
  show ?thesis
  proof (cases "connect url")
    case (Inl e)
    then show ?thesis using False by (simp add: submit_def guardR_def)
  next
    case (Inr u)
    show ?thesis
    proof (cases "send ag")
      case (Inl e)
      then show ?thesis using False Inr
        by (cases e) (simp_all add: submit_def guardR_def is_astra_def authExpiredError_def)
    next
      case send: (Inr sent)
      show ?thesis
      proof (cases "classifySendResult sent")
        case (Inl e)
        then show ?thesis using False Inr send
          by (cases e) (simp_all add: submit_def guardR_def is_astra_def authExpiredError_def)
      next
        case (Inr u')
        then show ?thesis using False \<open>connect url = Inr u\<close> send
          by (simp add: submit_def guardR_def is_astra_def transactionFailedError_def)
      qed
    qed
  qed
qed

end
