(* ===== verification/Gas.thy ===== *)
theory Gas
  imports EscrowBuilder
begin

text \<open>
  packages/sdk/src/gas.ts: reading the resources of a simulated invocation, and the fee
  estimator. The RPC server and the transaction builder are one parameter, the function that
  simulates an invocation for a source account.
\<close>

section \<open>Readers\<close>

record resource_estimate =
  re_cpuInstructions :: int
  re_memoryBytes :: int
  re_minResourceFee :: int
  re_inclusionFee :: int
  re_refundableFee :: int
  re_totalFee :: int
  re_ledgerReads :: jsnum
  re_ledgerWrites :: jsnum
  re_raw :: jsval

definition asBig :: "jsval \<Rightarrow> int js" where
  "asBig value =
     (case value of
        BigInt n \<Rightarrow> Inr n
      | Num (Fin q) \<Rightarrow> Inr (rat_trunc q)
      | Str s \<Rightarrow> if s \<noteq> [] then js_bigint (Str s) else Inr 0
      | _ \<Rightarrow> Inr 0)"

definition asNumber :: "jsval \<Rightarrow> jsnum" where
  "asNumber value =
     (case value of
        Num n \<Rightarrow> n
      | BigInt n \<Rightarrow> js_number (BigInt n)
      | Str s \<Rightarrow> if s \<noteq> [] then js_number (Str s) else Fin 0
      | _ \<Rightarrow> Fin 0)"

definition asObject :: "jsval \<Rightarrow> jsval" where
  "asObject value = (case value of Obj _ \<Rightarrow> value | ErrV _ \<Rightarrow> value | Bytes _ \<Rightarrow> value | _ \<Rightarrow> Obj [])"

text \<open>\<open>a || b\<close>\<close>

definition js_or :: "jsval \<Rightarrow> jsval \<Rightarrow> jsval" where
  "js_or a b = (if truthy a then a else b)"

definition extractResources :: "jsval \<Rightarrow> int \<Rightarrow> resource_estimate js" where
  "extractResources simulated inclusionFee =
     (let record = asObject simulated;
          resources = asObject (coalesce (js_prop record ''transactionData'')
                        (coalesce (js_prop record ''resources'') record));
          soroban = js_or (asObject (js_prop resources ''resources''))
                      (js_or (asObject (asObject (js_prop resources ''resourceFee''))) resources)
      in bindR (asBig (coalesce (js_prop soroban ''instructions'') (coalesce (js_prop soroban ''cpuInsns'')
             (coalesce (js_prop record ''cpuInsns'') (js_prop record ''minResourceFee''))))) (\<lambda>cpu.
         bindR (asBig (coalesce (js_prop soroban ''readBytes'') (coalesce (js_prop soroban ''memBytes'')
             (js_prop soroban ''footprintBytes'')))) (\<lambda>mem.
         bindR (asBig (coalesce (js_prop record ''minResourceFee'') (coalesce (js_prop resources ''resourceFee'')
             (js_prop record ''resourceFee'')))) (\<lambda>minFee.
         bindR (asBig (coalesce (js_prop soroban ''refundableFee'') (coalesce (js_prop record ''refundableFee'')
             (js_prop resources ''refundableFee'')))) (\<lambda>refundable.
           Inr \<lparr>re_cpuInstructions = cpu, re_memoryBytes = mem, re_minResourceFee = minFee,
                re_inclusionFee = inclusionFee, re_refundableFee = refundable,
                re_totalFee = minFee + inclusionFee,
                re_ledgerReads = asNumber (coalesce (js_prop soroban ''readLedgerEntries'')
                   (js_prop soroban ''diskReadEntries'')),
                re_ledgerWrites = asNumber (coalesce (js_prop soroban ''writeLedgerEntries'')
                   (js_prop soroban ''writeEntries'')),
                re_raw = record\<rparr>)))))"

section \<open>The estimator\<close>

record fee_estimator =
  fe_networkPassphrase :: string
  fe_inclusionFee :: string

definition newFeeEstimator :: "network_name option \<Rightarrow> string option \<Rightarrow> string option \<Rightarrow> fee_estimator" where
  "newFeeEstimator network passphrase inclusionFee =
     \<lparr>fe_networkPassphrase = network_passphrase network passphrase,
      fe_inclusionFee = or_default inclusionFee ''100000''\<rparr>"

text \<open>\<open>simulate source fee passphrase invocation\<close>: the account lookup, the building of the
  transaction and \<open>simulateTransaction\<close>; \<open>failed\<close> is \<open>rpc.Api.isSimulationError\<close>.\<close>

definition estimate ::
  "(string \<Rightarrow> string \<Rightarrow> string \<Rightarrow> 'sc built_invocation \<Rightarrow> jsval js) \<Rightarrow> (jsval \<Rightarrow> bool) \<Rightarrow>
     fee_estimator \<Rightarrow> string \<Rightarrow> 'sc built_invocation \<Rightarrow> resource_estimate js" where
  "estimate simulate failed fe source invocation =
     guardR (source = []) (astraErr ''Source account is required for fee estimation'' ''BAD_SOURCE'')
     (bindR (simulate source (fe_inclusionFee fe)
         (if bi_networkPassphrase invocation \<noteq> [] then bi_networkPassphrase invocation else fe_networkPassphrase fe)
         invocation) (\<lambda>simulated.
      if failed simulated
      then Inl (simulationError (js_string (js_prop simulated ''error'')) simulated)
      else bindR (js_bigint (Str (fe_inclusionFee fe))) (\<lambda>fee. extractResources simulated fee)))"

section \<open>What is read\<close>

lemma asObject_truthy: "truthy (asObject v)"
  by (cases v) (simp_all add: asObject_def)

text \<open>The object the resource counters are read from: the fallbacks are never taken.\<close>

lemma soroban_eq: "js_or (asObject v) w = asObject v"
  by (simp add: js_or_def asObject_truthy)

text \<open>A simulation answer in the flat layout, whose counters are not nested in a further
  \<open>resources\<close> object, loses them: memory bytes, ledger reads and ledger writes are reported
  as 0 whatever the answer says, and the CPU figure falls back to \<open>cpuInsns\<close> or even the
  resource fee of the outer record. The total is the minimum resource fee plus the inclusion
  fee in every layout.\<close>

theorem flat_resources_lost:
  assumes "extractResources simulated fee = Inr est"
  shows "re_totalFee est = re_minResourceFee est + fee
     \<and> (asObject (js_prop (asObject (coalesce (js_prop (asObject simulated) ''transactionData'')
            (coalesce (js_prop (asObject simulated) ''resources'') (asObject simulated)))) ''resources'') = Obj [] \<longrightarrow>
          re_memoryBytes est = 0 \<and> re_ledgerReads est = Fin 0 \<and> re_ledgerWrites est = Fin 0
          \<and> asBig (coalesce (js_prop (asObject simulated) ''cpuInsns'')
               (js_prop (asObject simulated) ''minResourceFee'')) = Inr (re_cpuInstructions est))"
  using assms
  by (auto simp: extractResources_def Let_def soroban_eq bindR_Inr_iff asNumber_def asBig_def)

theorem flat_resources_lost_witness:
  "\<exists>est. extractResources (Obj [(''resources'', Obj [(''instructions'', BigInt 7), (''readBytes'', BigInt 512),
        (''readLedgerEntries'', Num (Fin 3))]), (''minResourceFee'', BigInt 900)]) 100 = Inr est
     \<and> re_totalFee est = 1000 \<and> re_memoryBytes est = 0 \<and> re_ledgerReads est = Fin 0 \<and> re_cpuInstructions est = 900"
proof -
  let ?v = "Obj [(''resources'', Obj [(''instructions'', BigInt 7), (''readBytes'', BigInt 512),
        (''readLedgerEntries'', Num (Fin 3))]), (''minResourceFee'', BigInt 900)]"
  obtain est where e: "extractResources ?v 100 = Inr est" "re_minResourceFee est = 900"
    by (simp add: extractResources_def asObject_def asBig_def soroban_eq js_or_def)
  from flat_resources_lost [OF e(1)] e show ?thesis by (auto simp: asObject_def asBig_def)
qed

end
