(* ===== verification/Spec2Isabelle.thy ===== *)
theory Spec2Isabelle
  imports EscrowLife EscrowForm Env Schemas MockMilestone Auth Database Client Amounts Wallet Routes App Dashboard Analytics GitHub Attestation IndexerService EventWatcher Crypto Stream State LruCache Retry DisputeBuilder Multisig Gas EventParser
begin

text \<open>
  A verification development of astra-flow, an escrow protocol on Stellar: the TypeScript SDK
  (packages/sdk), the server that indexes contract events and answers HTTP requests (apps/server), and
  the web client (apps/client).

  The parts and how they interact. The SDK builds contract calls (EscrowBuilder, DisputeBuilder,
  EscrowClient), signs and submits them (multisig, retry, errors, gas), and reads back what the contract
  says (converters, parsers/events, events). The server runs one ContractEventWatcher of the SDK whose
  handler, applyEvent, updates a table of escrows and appends to a timeline; GitHub webhooks record
  proofs in the same table; the routes read it. Wallets sign in with challenges. The client creates
  escrows through the SDK, shows the server's replies, and keeps a wallet session.

  The language. JsValue, JsConvert, JsArith, Json and Regex model the JavaScript the sources use: values of
  type \<open>unknown\<close> (\<open>jsval\<close>), numbers as exact rationals with \<open>to_double\<close> wherever JavaScript rounds
  (signed zero is not distinguished), BigInt as \<open>int\<close>, thrown values as the left side of \<open>'a js\<close>,
  \<open>JSON.parse\<close> and \<open>JSON.stringify\<close> with their round trip \<open>json_roundtrip\<close>, regular expressions as
  syntax trees with a backtracking matcher. Prelude holds the results that may be a thrown value, the
  insertion-ordered Map and the interfaces: \<open>put_store\<close> and \<open>keyed_store\<close> (interpreted by the Map),
  \<open>codec\<close> (hex, base64, decimal texts, the stored wallet session), \<open>encoded_table\<close> (the table of escrows) and
  \<open>expiring_store\<close> (the SDK cache and the challenge table).

  Theories and sources, under packages/sdk/src:
    - Types: types.ts. Converters: converters.ts. Crypto: crypto.ts, Base64: Node's base64.
    - Errors: errors.ts; \<open>parseDiagnostics\<close> finds the code the contract names, \<open>classifySendResult\<close> and
      its sibling turn every answer of the RPC server into a value or an error.
    - Stream: stream.ts; vesting is monotone, bounded and conserves the amount.
    - State: models/state.ts. LruCache: cache.ts; the cache keeps what was used last.
    - Retry: retry.ts; the loop is a \<open>partial_function\<close>, its operation and its sleep may settle or
      never settle, its counter is a Number; \<open>backoff_terminates\<close> tells exactly when it returns.
    - Address, EscrowBuilder: builders/escrow.ts; \<open>validate\<close> accepts exactly the valid configurations.
    - DisputeBuilder: builders/dispute.ts. Multisig: multisig.ts; every collected signature verifies.
    - Gas: gas.ts. Client: client.ts. EventParser: parsers/events.ts; what the contract publishes is
      decoded to the event it means. EventWatcher: events.ts; the watcher is a step relation over its
      pending calls and live intervals.
  Under apps/server/src:
    - IndexerStore, Indexer, IndexerService: services/indexer.ts; rows and their JSON, the effect of every
      event, the queries, start and stop. \<open>store_inv\<close> is the invariant every event keeps.
    - EscrowLife: what the indexer is to know of an escrow, as an abstract state changed by one step per
      event; the stored rows implement it (\<open>indexer_refines_spec\<close>), milestone by milestone.
    - Auth: middleware/auth.ts; a table of challenges: accepted only if issued, once, before expiry.
    - Database: config/database.ts; a refinement to an abstract transaction, with what nesting breaks.
    - GitHub: services/github.ts, routes/webhooks.ts. Attestation: services/ and routes/attestation.ts.
    - Routes: routes/escrows.ts, routes/auth.ts; a reply is a status and a JSON value. The pages a client
      is told about hold every matching escrow once; a wallet that signs its challenge gets in.
    - App: app.ts, the whole server as a function from an input (a contract event or a request) and
      its state to its state; only events and signed merges reach the store, and \<open>server_inv\<close> holds
      through every mixture of them.
    - Schemas: the zod schemas of routes/escrows.ts, routes/auth.ts and services/attestation.ts, from the
      value of a query or body to issues or a parsed request; which requests for escrows are answered,
      and that a list request with a page beyond SQLite's 64 bits is not.
    - Env: lib/env.ts and index.ts, from the environment to a listening server with its indexer.
  Under apps/client:
    - Amounts: lib/utils.ts and the submission of components/escrow/CreateEscrowForm.tsx.
    - EscrowForm: the schema of that form and its wizard, a step relation whose state holds the validations
      that are awaited; what reaches the last step is accepted, what is accepted is a good escrow.
    - Wallet: components/providers/WalletProvider.tsx; each \<open>await\<close> ends a step, the calls that wait are
      part of the state, and what a wallet answers is an argument of the step that waits for it.
      \<open>wallet_reachable\<close> is every interleaving of clicks, ticks of the refresh timer and answers;
      \<open>wallet_settles\<close> is its liveness, in the calls each tick adds and each answer ends.
    - Dashboard: app/dashboard/page.tsx, components/escrow/MilestoneTimeline.tsx; clicks take effect
      through a queue of timers, \<open>dash_reachable\<close> is every sequence of clicks.
    - Analytics: app/analytics/page.tsx, composed with the route that serves it and the JSON between,
      with the sample figures that the page shows in the place of a zero.
  MockMilestone is tools/scripts/mock-milestone.ts, which prints the calls of a lifecycle. This theory
  composes the watcher, the indexer and the routes.

  Parameters. Code that is not under src/ is an argument: the Stellar SDK (\<open>stellar\<close>, \<open>soroban\<close>), the
  RPC server, scValToNative and XDR, node:sqlite and pg, HMAC, ed25519 and SHA-256, random bytes, and every
  reading of a clock. Hypotheses about them are stated where used, and witnesses instantiate them: the
  effect of BEGIN, COMMIT and ROLLBACK, of which a failed COMMIT may or may not end the transaction; that a parsed public key holds no colon; the order
  SQLite gives to rows of one update time (\<open>sql_order\<close>). Timers of one delay end in the order set.

  Bounds and fuel. The JSON reader takes fuel \<open>2 * length + 2\<close>, which \<open>json_fuel_enough\<close> shows to be enough; the
  matcher of regular expressions and all other loops terminate by their own measure; the retry loop is
  partial. Statements about Number have the bound up to which no rounding matters: \<open>2 ^ 53\<close> for sums and
  ids, \<open>2 ^ 39\<close> rows for the number of pages. The OFFSET of a query is the double that JavaScript
  computes, refused by SQLite from \<open>2 ^ 63\<close> on; attempts are counted up to \<open>2 ^ 53\<close>, where \<open>attempt + 1\<close>
  is \<open>attempt\<close>.

  Not modelled. Text beyond Latin-1 (a string is a list of 8-bit characters); the order in which JSON writes
  members that were assigned in another order; values whose run-time type differs from the declared one,
  except where the code inspects it; interleaving of two transactions on one connection; the rendering of
  React components, and a dialog's buttons while it is animated away; the texts of
  zod's issues; Express and its body parsers, dotenv and the console; re-exports (the SDK's index.ts,
  scval.ts, escrow-indexer.ts); page.tsx, layout.tsx and CreateEscrowModal.tsx, which are markup; the Rust
  contract under contracts/escrow.
\<close>

section \<open>The watcher and the indexer together\<close>

text \<open>C20: The interval of the watcher does not wait for the poll before it. When two ticks come before
  the first answer, both polls ask for the same page; if the server answers both with a page that
  holds one release event of a stored escrow, this event is applied twice: the escrow's locked
  balance drops by twice the amount that was released on chain, though not below 0.\<close>

theorem overlapping_polls_double_count:
  assumes rt: "rt_waiting rt = []" "k \<in> set (rt_intervals rt)" "wa_handlers (rt_watcher rt) = [0]"
    and page: "page_events S (rt_watcher rt) page = Inr [MilestoneReleased b m r n]"
    and db: "store_inv (rt_env rt)" "event_ok (MilestoneReleased b m r n)" "0 \<le> n"
      "cache_get (ev_contractId b) (rt_env rt) = Inr (Some e)"
  shows "\<exists>rt2 rt4 q e'. watcher_runs S (indexer_handler now) True rt rt2
     \<and> rt_waiting rt2 = [Tick_Page q, Tick_Page q]
     \<and> watcher_runs S (indexer_handler now) True rt rt4
     \<and> rt4 = tick_page S (indexer_handler now) page 0 (tick_page S (indexer_handler now) page 0 rt2)
     \<and> cache_get (ev_contractId b) (rt_env rt4) = Inr (Some e')
     \<and> ie_lockedBalance e' = max 0 (ie_lockedBalance e - 2 * n)"
proof -
  let ?h = "indexer_handler now"
  let ?ev = "MilestoneReleased b m r n"
  let ?q = "poll_request (rt_watcher rt)"
  let ?rt1 = "rt\<lparr>rt_waiting := [Tick_Page ?q]\<rparr>"
  let ?rt2 = "rt\<lparr>rt_waiting := [Tick_Page ?q, Tick_Page ?q]\<rparr>"
  let ?w3 = "take_page page (rt_watcher rt)"
  let ?db3 = "run_events [(now, ?ev)] (rt_env rt)"
  let ?rt3 = "?rt2\<lparr>rt_watcher := ?w3, rt_env := ?db3, rt_waiting := [Tick_Page ?q]\<rparr>"
  let ?rt4 = "?rt3\<lparr>rt_watcher := take_page page ?w3, rt_env := run_events [(now, ?ev)] ?db3, rt_waiting := []\<rparr>"
  have pages: "page_events S (take_page page w) page = Inr [?ev]" if "wa_contractId w = wa_contractId (rt_watcher rt)" for w
    using page page_events_contract [of "take_page page w" "rt_watcher rt"] that by (simp add: take_page_def)
  have inv3: "store_inv ?db3" using applyEvent_step [OF db(1,2), of now] by (simp add: run_events_def)
  have t3: "tick_page S ?h page 0 ?rt2 = ?rt3"
    using poll_one_release [OF pages [OF refl] rt(3) db(1,2), of now] by (simp add: tick_page_def drop_nth_def)
  have w3: "wa_contractId ?w3 = wa_contractId (rt_watcher rt)" "wa_handlers ?w3 = [0]"
    using rt(3) by (simp_all add: take_page_def)
  have t4: "tick_page S ?h page 0 ?rt3 = ?rt4"
    using poll_one_release [OF pages [OF w3(1)] w3(2) inv3 db(2), of now] by (simp add: tick_page_def drop_nth_def)
  have "watcher_runs S ?h True rt ?rt1"
    using Runs_Step [OF Runs_Refl Step_Tick [OF rt(2)]] rt(1) by simp
  then have r2: "watcher_runs S ?h True rt ?rt2"
    using Runs_Step [OF _ Step_Tick [of k ?rt1]] rt(2) by simp
  then have "watcher_runs S ?h True rt ?rt3"
    using Runs_Step [OF _ Step_Page [of 0 ?rt2 ?q S ?h page]] t3 by simp
  then have r4: "watcher_runs S ?h True rt ?rt4"
    using Runs_Step [OF _ Step_Page [of 0 ?rt3 ?q S ?h page]] t4 by simp
  obtain e1 l where e1: "cache_get (ev_contractId b) ?db3 = Inr (Some e1)"
      "ie_lockedBalance e1 = (if ie_lockedBalance e > n then ie_lockedBalance e - n else 0)"
    using release_get [OF db(1,2,4), of now] by (auto simp: run_events_def)
  obtain e2 where e2: "cache_get (ev_contractId b) (run_events [(now, ?ev)] ?db3) = Inr (Some e2)"
      "ie_lockedBalance e2 = (if ie_lockedBalance e1 > n then ie_lockedBalance e1 - n else 0)"
    using release_get [OF inv3 db(2) e1(1), of now] by (auto simp: run_events_def)
  have "ie_lockedBalance e2 = max 0 (ie_lockedBalance e - 2 * n)" using e1(2) e2(2) db(3) by auto
  then show ?thesis using r2 r4 t3 t4 e2(1) by (intro exI [of _ ?rt2] exI [of _ ?rt4] exI [of _ ?q] exI [of _ e2]) simp
qed

definition sample_release_page :: events_page where
  "sample_release_page = \<lparr>pg_cursor = Some ''c1'', pg_latestLedger = Some (Fin 9), pg_events =
     [(sample_ledger_event ''release'' [(''milestone'', ScU32 2), (''recipient'', ScString ''GR''), (''amount'', sc_i128 1500000000)])
        \<lparr>le_contractId := Some ''demo-escrow''\<rparr>]\<rparr>"

definition sample_runtime :: "indexer_db runtime" where
  "sample_runtime = \<lparr>rt_watcher = sample_watcher\<lparr>wa_handlers := [0], wa_timer := Some 0\<rparr>, rt_waiting = [], rt_intervals = [0],
     rt_fresh = 1, rt_env = sample_db\<rparr>"

lemma sample_release_page_events:
  "page_events sample_sc (rt_watcher sample_runtime) sample_release_page =
     Inr [MilestoneReleased \<lparr>ev_contractId = ''demo-escrow'', ev_ledger = Some (Fin 8), ev_txHash = None\<rparr> (Fin 2) ''GR'' 1500000000]"
proof -
  have "decodeScVal sample_xdr (sc_i128 1500000000) = Inr (BigInt 1500000000)"
    by (rule decode_amount) (simp add: amount_ok_def)
  then have "parseAstraFlowEvent (decodeContractEvent sample_sc (own_event (rt_watcher sample_runtime)
      ((sample_ledger_event ''release'' [(''milestone'', ScU32 2), (''recipient'', ScString ''GR''), (''amount'', sc_i128 1500000000)])
        \<lparr>le_contractId := Some ''demo-escrow''\<rparr>))) =
      Inr (Some (MilestoneReleased \<lparr>ev_contractId = ''demo-escrow'', ev_ledger = Some (Fin 8), ev_txHash = None\<rparr> (Fin 2) ''GR'' 1500000000))"
    by (simp add: parseAstraFlowEvent_def decodeContractEvent_def own_event_def sample_ledger_event_def sample_sc_def
        readTopic_def readPayload_def primary_topic_def nth_value_def table_lookup_def TOPIC_LABELS_def
        asRecord_def big_def map_key_def Let_def)
  then show ?thesis
    by (simp add: page_events_def sample_release_page_def decodeContractEvents_def List.map_filter_simps)
qed

theorem overlapping_polls_double_count_witness:
  "\<exists>rt4 e. watcher_runs sample_sc (indexer_handler sample_clock) True sample_runtime rt4
     \<and> cache_get ''demo-escrow'' (rt_env sample_runtime) = Inr (Some (seedEscrow ''now''))
     \<and> cache_get ''demo-escrow'' (rt_env rt4) = Inr (Some e)
     \<and> ie_lockedBalance e = ie_lockedBalance (seedEscrow ''now'') - 2 * 1500000000"
proof -
  let ?b = "\<lparr>ev_contractId = ''demo-escrow'', ev_ledger = Some (Fin 8), ev_txHash = None\<rparr>"
  have rt: "rt_waiting sample_runtime = []" "0 \<in> set (rt_intervals sample_runtime)"
      "wa_handlers (rt_watcher sample_runtime) = [0]" "rt_env sample_runtime = sample_db"
    by (simp_all add: sample_runtime_def)
  have ev: "event_ok (MilestoneReleased ?b (Fin 2) ''GR'' 1500000000)" by (simp add: event_ok_def)
  have inv: "store_inv (rt_env sample_runtime)" by (simp add: rt sample_store_inv)
  have get: "cache_get (ev_contractId ?b) (rt_env sample_runtime) = Inr (Some (seedEscrow ''now''))"
    by (simp add: rt sample_db_get)
  obtain rt4 e where "watcher_runs sample_sc (indexer_handler sample_clock) True sample_runtime rt4"
      "cache_get (ev_contractId ?b) (rt_env rt4) = Inr (Some e)"
      "ie_lockedBalance e = max 0 (ie_lockedBalance (seedEscrow ''now'') - 2 * 1500000000)"
    using overlapping_polls_double_count [OF rt(1-3) sample_release_page_events inv ev _ get, of sample_clock] by auto
  then show ?thesis using get by (intro exI [of _ rt4] exI [of _ e]) (simp add: seedEscrow_def)
qed

section \<open>From the chain to the reply\<close>

text \<open>C6: What the watcher polls is what the server answers: after a poll whose page holds events of an
  escrow, \<open>GET /api/escrows/:id\<close> replies with this escrow, and the state, the locked balance and the
  milestones in the reply are what the specification makes of the page's events of this escrow,
  applied to what was stored before.\<close>

theorem polled_page_reaches_api:
  assumes "page_events S (take_page page w) page = Inr typed" "wa_handlers w = [0]"
    and "store_inv (se_db s)" "list_all event_ok typed"
    and "list_ex (concerns c) typed \<or> stored c (se_db s) \<noteq> None"
  shows "\<exists>w' db e. poll_page S (indexer_handler now) page w (se_db s) = (Inr typed, w', db)
     \<and> fst (handle A (t, Get_Escrow (Inr c)) (s\<lparr>se_db := db\<rparr>)) = Json (200, Obj [(''escrow'', escrow_reply e)])
     \<and> (let v = fold spec_step (filter (concerns c) typed) (view_of (stored c (se_db s))) in
          js_prop (escrow_reply e) ''state'' = Str (escrow_state_text (sp_state v))
        \<and> js_prop (escrow_reply e) ''lockedBalance'' = Str (int_dec (sp_locked v))
        \<and> js_prop (escrow_reply e) ''milestones'' = Arr (map stored_milestone_object (ie_milestones e))
        \<and> (\<lambda>k. map_option status (milestone_at k (ie_milestones e))) = sp_status v)"
proof -
  let ?evs = "map (Pair now) typed"
  let ?db = "run_events ?evs (se_db s)"
  have evs: "list_all (\<lambda>(now, ev). event_ok ev) ?evs" and typed: "map snd ?evs = typed"
    using assms(4) by (simp_all add: list_all_iff comp_def)
  obtain e where e: "stored c ?db = Some e"
    using run_events_view(2) [OF assms(3) evs, of c] assms(5) unfolding typed by auto
  then have get: "cache_get c ?db = Inr (Some e)" by (auto simp: stored_def split: sum.splits)
  have reply: "fst (handle A (t, Get_Escrow (Inr c)) (s\<lparr>se_db := ?db\<rparr>)) = Json (200, Obj [(''escrow'', escrow_reply e)])"
    by (simp add: handle_def escrow_route_def getEscrowById_def get app_result_def)
  define v where "v = fold spec_step (filter (concerns c) typed) (view_of (stored c (se_db s)))"
  have v: "view_of (Some e) = v"
    using run_events_view(1) [OF assms(3) evs, of c] unfolding e typed v_def .
  have "js_prop (escrow_reply e) ''state'' = Str (escrow_state_text (sp_state v))"
      "js_prop (escrow_reply e) ''lockedBalance'' = Str (int_dec (sp_locked v))"
      "js_prop (escrow_reply e) ''milestones'' = Arr (map stored_milestone_object (ie_milestones e))"
      "(\<lambda>k. map_option status (milestone_at k (ie_milestones e))) = sp_status v"
    unfolding v [symmetric] by (simp_all add: escrow_reply_def view_of_def)
  then show ?thesis
    using poll_runs [OF assms(1-4)] reply unfolding v_def [symmetric] by (intro exI) (simp add: Let_def)
qed

theorem polled_page_reaches_api_witness:
  "\<exists>e. fst (handle sample_app (sample_moment, Get_Escrow (Inr ''demo-escrow''))
        \<lparr>se_db = snd (snd (poll_page sample_sc (indexer_handler sample_clock) sample_release_page (rt_watcher sample_runtime) sample_db)),
         se_challenges = []\<rparr>) = Json (200, Obj [(''escrow'', escrow_reply e)])
     \<and> js_prop (escrow_reply e) ''lockedBalance'' = Str (int_dec 1500000000)
     \<and> map_option status (milestone_at (Fin 2) (ie_milestones e)) = Some MS_Released"
proof -
  let ?s = "\<lparr>se_db = sample_db, se_challenges = []\<rparr> :: server"
  let ?ev = "MilestoneReleased \<lparr>ev_contractId = ''demo-escrow'', ev_ledger = Some (Fin 8), ev_txHash = None\<rparr> (Fin 2) ''GR'' 1500000000"
  have page: "page_events sample_sc (take_page sample_release_page (rt_watcher sample_runtime)) sample_release_page = Inr [?ev]"
    using sample_release_page_events page_events_contract [of "take_page sample_release_page (rt_watcher sample_runtime)" "rt_watcher sample_runtime"]
    by (simp add: take_page_def)
  have "wa_handlers (rt_watcher sample_runtime) = [0]" "store_inv (se_db ?s)" "list_all event_ok [?ev]"
      "list_ex (concerns ''demo-escrow'') [?ev] \<or> stored ''demo-escrow'' (se_db ?s) \<noteq> None"
    by (simp_all add: sample_runtime_def sample_store_inv event_ok_def concerns_def)
  note facts = polled_page_reaches_api [OF page this, of sample_clock sample_app sample_moment]
  have "view_of (stored ''demo-escrow'' sample_db) = view_of (Some (seedEscrow ''now''))" by (simp add: stored_def sample_db_get)
  then have "sp_locked (view_of (stored ''demo-escrow'' sample_db)) = 3000000000" by (simp add: view_of_def seedEscrow_def)
  then have v: "sp_locked (spec_step ?ev (view_of (stored ''demo-escrow'' sample_db))) = 1500000000"
      "sp_status (spec_step ?ev (view_of (stored ''demo-escrow'' sample_db))) (Fin 2) = Some MS_Released"
    by (simp_all add: Let_def)
  have "filter (concerns ''demo-escrow'') [?ev] = [?ev]" by (simp add: concerns_def)
  from facts [unfolded this Let_def] show ?thesis
  proof (elim exE, goal_cases)
    case (1 w' db e)
    then have "map_option status (milestone_at (Fin 2) (ie_milestones e)) =
        sp_status (spec_step ?ev (view_of (stored ''demo-escrow'' sample_db))) (Fin 2)"
      by (auto dest: fun_cong [of _ _ "Fin 2"])
    then show ?case using 1 v by (intro exI [of _ e]) (simp del: spec_step.simps)
  qed
qed

end
